(* ===== verification/Prelude.thy ===== *)
theory Prelude
  imports Main "HOL-Library.Word" "HOL-Library.List_Lexorder" "HOL-Library.Char_ord"
begin

text \<open>
  Shared vocabulary of the development: Go strings as byte lists with the functions of
  package strings, strconv and sort that the service calls, Go times, the gRPC status
  results, and the generic lemmas the component theories use.

  A Go string is a sequence of bytes, so it is a \<^typ>\<open>string\<close> whose characters are bytes;
  \<^term>\<open>length\<close> is Go's \<open>len\<close> and the order on strings is the byte-wise lexicographic order
  that Go's \<open><\<close> and \<open>sort.Strings\<close> use.
\<close>

section \<open>Collections of rewrite rules\<close>

named_theorems go_simps \<open>equations of the modelled Go library functions\<close>
named_theorems model_defs \<open>definitions unfolded when an operation of the model is evaluated\<close>

section \<open>Results of fallible calls\<close>

datatype code = InvalidArgument | ResourceExhausted | Unimplemented | Internal | NotFound
  | Unauthenticated

text \<open>The two shapes of Go's \<open>(value, error)\<close> pair: a plain error carries its message, a
  status error of an RPC handler carries its code as well. A nil error is \<^term>\<open>Inr\<close>.\<close>

type_synonym 'a go_result = "string + 'a"
type_synonym 'a rpc_result = "(code \<times> string) + 'a"

definition rpc_err :: "code \<Rightarrow> string \<Rightarrow> 'a rpc_result" where
  "rpc_err c msg = Inl (c, msg)"

section \<open>Operations that can panic\<close>

text \<open>A nil pointer is \<^term>\<open>None\<close>; following it panics, and so does an index or an upper slice bound
  outside a slice. A panic is the outcome \<^term>\<open>None\<close>.\<close>

definition deref :: "'a option \<Rightarrow> ('a \<Rightarrow> 'b option) \<Rightarrow> 'b option" where
  "deref p f = (case p of None \<Rightarrow> None | Some x \<Rightarrow> f x)"

definition index_at :: "'a list \<Rightarrow> nat \<Rightarrow> 'a option" where
  "index_at xs i = (if i < length xs then Some (xs ! i) else None)"

definition slice_to :: "'a list \<Rightarrow> int \<Rightarrow> 'a list option" where
  "slice_to xs n = (if 0 \<le> n \<and> n \<le> int (length xs) then Some (take (nat n) xs) else None)"

lemma deref_simps [simp]: "deref None f = None" "deref (Some x) f = f x"
  by (simp_all add: deref_def)

text \<open>A pointer followed only after its nil check.\<close>

lemma nil_guard [simp]: "(if p = None then a else deref p f) = (case p of None \<Rightarrow> a | Some x \<Rightarrow> f x)"
  by (cases p) simp_all

lemma index_at_in [simp]: "i < length xs \<Longrightarrow> index_at xs i = Some (xs ! i)"
  by (simp add: index_at_def)

lemma slice_to_in [simp]: "0 \<le> n \<Longrightarrow> n \<le> int (length xs) \<Longrightarrow> slice_to xs n = Some (take (nat n) xs)"
  by (simp add: slice_to_def)

section \<open>Package strings\<close>

definition HasPrefix :: "string \<Rightarrow> string \<Rightarrow> bool" where
  "HasPrefix s p = (take (length p) s = p)"

definition TrimPrefix :: "string \<Rightarrow> string \<Rightarrow> string" where
  "TrimPrefix s p = (if HasPrefix s p then drop (length p) s else s)"

fun split_on :: "char \<Rightarrow> string \<Rightarrow> string list" where
  "split_on c [] = [[]]"
| "split_on c (x # xs) =
     (if x = c then [] # split_on c xs
      else (case split_on c xs of [] \<Rightarrow> [[x]] | p # ps \<Rightarrow> (x # p) # ps))"

fun Join :: "string list \<Rightarrow> string \<Rightarrow> string" where
  "Join [] sep = []"
| "Join [x] sep = x"
| "Join (x # y # zs) sep = x @ sep @ Join (y # zs) sep"

definition ReplaceAll :: "char \<Rightarrow> char \<Rightarrow> string \<Rightarrow> string" where
  "ReplaceAll old new s = map (\<lambda>x. if x = old then new else x) s"

text \<open>ASCII case mapping, the part of \<open>strings.ToLower\<close> and \<open>strings.ToUpper\<close> that the
  comparisons with ASCII literals depend on; bytes of multi-byte runes are left alone.\<close>

definition to_lower :: "char \<Rightarrow> char" where
  "to_lower c = (if (65::nat) \<le> of_char c \<and> of_char c \<le> (90::nat) then char_of (of_char c + (32::nat)) else c)"

definition to_upper :: "char \<Rightarrow> char" where
  "to_upper c = (if (97::nat) \<le> of_char c \<and> of_char c \<le> (122::nat) then char_of (of_char c - (32::nat)) else c)"

definition ToLower :: "string \<Rightarrow> string" where
  "ToLower s = map to_lower s"

definition ToUpper :: "string \<Rightarrow> string" where
  "ToUpper s = map to_upper s"

text \<open>\<open>strings.TrimSpace\<close> removes leading and trailing Unicode white space. The UTF-8
  encodings of those runes are listed; no encoding is a proper prefix or suffix of another,
  so removing them byte-wise is what decoding rune by rune does.\<close>

definition space_runes :: "string list" where
  "space_runes =
     [[CHR 0x09], [CHR 0x0A], [CHR 0x0B], [CHR 0x0C], [CHR 0x0D], [CHR 0x20],
      [CHR 0xC2, CHR 0x85], [CHR 0xC2, CHR 0xA0], [CHR 0xE1, CHR 0x9A, CHR 0x80],
      [CHR 0xE2, CHR 0x80, CHR 0x80], [CHR 0xE2, CHR 0x80, CHR 0x81],
      [CHR 0xE2, CHR 0x80, CHR 0x82], [CHR 0xE2, CHR 0x80, CHR 0x83],
      [CHR 0xE2, CHR 0x80, CHR 0x84], [CHR 0xE2, CHR 0x80, CHR 0x85],
      [CHR 0xE2, CHR 0x80, CHR 0x86], [CHR 0xE2, CHR 0x80, CHR 0x87],
      [CHR 0xE2, CHR 0x80, CHR 0x88], [CHR 0xE2, CHR 0x80, CHR 0x89],
      [CHR 0xE2, CHR 0x80, CHR 0x8A], [CHR 0xE2, CHR 0x80, CHR 0xA8],
      [CHR 0xE2, CHR 0x80, CHR 0xA9], [CHR 0xE2, CHR 0x80, CHR 0xAF],
      [CHR 0xE2, CHR 0x81, CHR 0x9F], [CHR 0xE3, CHR 0x80, CHR 0x80]]"

definition lead :: "string list \<Rightarrow> string \<Rightarrow> string option" where
  "lead encs s = find (\<lambda>e. e \<noteq> [] \<and> HasPrefix s e) encs"

function strip_lead :: "string list \<Rightarrow> string \<Rightarrow> string" where
  "strip_lead encs s =
     (case lead encs s of None \<Rightarrow> s | Some e \<Rightarrow> strip_lead encs (drop (length e) s))"
  by pat_completeness auto
termination
proof (relation "measure (\<lambda>(encs, s). length s)", simp)
  fix encs s e
  assume "lead encs s = Some e"
  then have "e \<noteq> []" "HasPrefix s e"
    by (auto simp: lead_def find_Some_iff)
  then have "0 < length e" "length e \<le> length s"
    by (auto simp: HasPrefix_def) (metis length_take min.cobounded1)
  then have "length s - length e < length s" by linarith
  then show "((encs, drop (length e) s), encs, s) \<in> measure (\<lambda>(encs, s). length s)"
    by simp
qed

declare strip_lead.simps [simp del]

definition TrimSpace :: "string \<Rightarrow> string" where
  "TrimSpace s = rev (strip_lead (map rev space_runes) (rev (strip_lead space_runes s)))"

section \<open>Package strconv\<close>

definition digit_char :: "nat \<Rightarrow> char" where
  "digit_char d = char_of (48 + d)"

fun show_nat :: "nat \<Rightarrow> string" where
  "show_nat n = (if n < 10 then [digit_char n] else show_nat (n div 10) @ [digit_char (n mod 10)])"

declare show_nat.simps [simp del]

text \<open>\<open>strconv.FormatInt (n, 10)\<close> and the verb \<open>%d\<close>.\<close>

definition FormatInt :: "int \<Rightarrow> string" where
  "FormatInt n = (if n < 0 then CHR ''-'' # show_nat (nat (- n)) else show_nat (nat n))"

definition is_digit :: "char \<Rightarrow> bool" where
  "is_digit c = ((48::nat) \<le> of_char c \<and> of_char c \<le> (57::nat))"

definition digit_val :: "char \<Rightarrow> nat" where
  "digit_val c = of_char c - 48"

definition read_nat :: "string \<Rightarrow> nat" where
  "read_nat s = foldl (\<lambda>acc c. 10 * acc + digit_val c) 0 s"

definition int64_max :: int where
  "int64_max = 9223372036854775807"

definition int64_min :: int where
  "int64_min = - 9223372036854775808"

definition in_int64 :: "int \<Rightarrow> bool" where
  "in_int64 n = (int64_min \<le> n \<and> n \<le> int64_max)"

datatype parse_err = ErrSyntax | ErrRange

text \<open>\<open>strconv.ParseInt (s, 10, 64)\<close>: the value is returned together with the error; it is 0
  after a syntax error and the nearest representable value after a range error.\<close>

definition ParseInt :: "string \<Rightarrow> int \<times> parse_err option" where
  "ParseInt s =
     (let neg = (s \<noteq> [] \<and> hd s = CHR ''-'');
          body = (if s \<noteq> [] \<and> (hd s = CHR ''-'' \<or> hd s = CHR ''+'') then tl s else s)
      in if body = [] \<or> \<not> list_all is_digit body then (0, Some ErrSyntax)
         else let v = (if neg then - int (read_nat body) else int (read_nat body))
              in if v > int64_max then (int64_max, Some ErrRange)
                 else if v < int64_min then (int64_min, Some ErrRange)
                 else (v, None))"

text \<open>\<open>strconv.Atoi\<close> on a 64-bit platform; \<^term>\<open>None\<close> is a non-nil error.\<close>

definition Atoi :: "string \<Rightarrow> int option" where
  "Atoi s = (case ParseInt s of (v, None) \<Rightarrow> Some v | _ \<Rightarrow> None)"

section \<open>Package time\<close>

text \<open>A \<open>time.Time\<close> is the number of nanoseconds since the Unix epoch. The zero
  \<open>time.Time\<close> is the first instant of year 1.\<close>

type_synonym gotime = int

definition zero_time :: gotime where
  "zero_time = - 62135596800 * 1000000000"

definition IsZero :: "gotime \<Rightarrow> bool" where
  "IsZero t = (t = zero_time)"

text \<open>The method \<open>t.UnixMilli()\<close> and the constructor \<open>time.UnixMilli(ms)\<close>.\<close>

definition toUnixMilli :: "gotime \<Rightarrow> int" where
  "toUnixMilli t = t div 1000000"

definition fromUnixMilli :: "int \<Rightarrow> gotime" where
  "fromUnixMilli ms = ms * 1000000"

text \<open>Conversion of a wider integer to \<open>int32\<close>: the low 32 bits, read as two's complement.\<close>

definition to_int32 :: "int \<Rightarrow> int" where
  "to_int32 n = sint (word_of_int n :: 32 word)"

text \<open>\<open>sort.Strings\<close> on a two-element slice, and the canonical direct-message room id that
  \<open>fmt.Sprintf("dm:%s:%s", ids[0], ids[1])\<close> builds from it at every place of the service.\<close>

definition sort_pair :: "string \<Rightarrow> string \<Rightarrow> string list" where
  "sort_pair a b = sort [a, b]"

definition dm_id :: "string \<Rightarrow> string \<Rightarrow> string" where
  "dm_id a b = ''dm:'' @ sort_pair a b ! 0 @ '':'' @ sort_pair a b ! 1"

section \<open>Lemmas on strings\<close>

lemma HasPrefix_append [simp, go_simps]: "HasPrefix (p @ s) p"
  by (simp add: HasPrefix_def)

lemma HasPrefix_iff: "HasPrefix s p \<longleftrightarrow> (\<exists>t. s = p @ t)"
  by (metis HasPrefix_def append_eq_conv_conj append_take_drop_id)

lemma TrimPrefix_append [simp, go_simps]: "TrimPrefix (p @ s) p = s"
  by (simp add: TrimPrefix_def)

lemma split_on_nonempty [simp]: "split_on c s \<noteq> []"
  by (induction s) (auto split: list.splits)

lemma split_on_free: "c \<notin> set s \<Longrightarrow> split_on c s = [s]"
  by (induction s) auto

lemma split_on_append_sep:
  "c \<notin> set s \<Longrightarrow> split_on c (s @ c # t) = s # split_on c t"
  by (induction s) auto

lemma Join_Cons: "xs \<noteq> [] \<Longrightarrow> Join (x # xs) sep = x @ sep @ Join xs sep"
  by (cases xs) auto

lemma Join_split_on [simp]: "Join (split_on c s) [c] = s"
proof (induction s)
  case (Cons x s)
  then show ?case
    by (cases "split_on c s"; cases "tl (split_on c s)") (auto simp: Join_Cons)
qed simp

lemma split_on_sep_free: "p \<in> set (split_on c s) \<Longrightarrow> c \<notin> set p"
  by (induction s arbitrary: p) (auto split: list.splits if_splits)

lemma set_ReplaceAll: "old \<noteq> new \<Longrightarrow> old \<notin> set (ReplaceAll old new s)"
  by (auto simp: ReplaceAll_def)

lemma ReplaceAll_free: "old \<notin> set s \<Longrightarrow> ReplaceAll old new s = s"
  by (induction s) (auto simp: ReplaceAll_def)

lemma sort_pair_eq: "sort_pair a b = (if a \<le> b then [a, b] else [b, a])"
  by (auto simp: sort_pair_def)

lemma sort_pair_commute: "sort_pair a b = sort_pair b a"
  by (auto simp: sort_pair_eq)

lemma dm_id_commute: "dm_id a b = dm_id b a"
  by (simp add: dm_id_def sort_pair_commute[of a b])

lemma dm_id_le: "a \<le> b \<Longrightarrow> dm_id a b = ''dm:'' @ a @ '':'' @ b"
  by (simp add: dm_id_def sort_pair_eq)

lemma dm_id_cases: "dm_id a b = ''dm:'' @ a @ '':'' @ b \<or> dm_id a b = ''dm:'' @ b @ '':'' @ a"
  by (auto simp: dm_id_def sort_pair_eq)

section \<open>Lemmas on trimming\<close>

lemma lead_Some: "lead encs s = Some e \<Longrightarrow> e \<in> set encs \<and> e \<noteq> [] \<and> HasPrefix s e"
  by (auto simp: lead_def find_Some_iff)

lemma lead_None: "lead encs s = None \<longleftrightarrow> (\<forall>e\<in>set encs. e \<noteq> [] \<longrightarrow> \<not> HasPrefix s e)"
  by (auto simp: lead_def find_None_iff)

lemma strip_lead_id: "lead encs s = None \<Longrightarrow> strip_lead encs s = s"
  by (subst strip_lead.simps) simp

lemma lead_strip_lead: "lead encs (strip_lead encs s) = None"
proof (induction encs s rule: strip_lead.induct)
  case (1 encs s)
  then show ?case
    by (cases "lead encs s") (auto simp: strip_lead.simps[of encs s])
qed

lemma strip_lead_suffix: "\<exists>p. s = p @ strip_lead encs s"
proof (induction encs s rule: strip_lead.induct)
  case (1 encs s)
  show ?case
  proof (cases "lead encs s")
    case None
    then show ?thesis by (simp add: strip_lead_id)
  next
    case (Some e)
    then obtain p where p: "drop (length e) s = p @ strip_lead encs (drop (length e) s)"
      using 1 by blast
    have "s = take (length e) s @ drop (length e) s" by simp
    then have "s = (take (length e) s @ p) @ strip_lead encs (drop (length e) s)"
      using p by (metis append.assoc)
    then show ?thesis using Some strip_lead.simps[of encs s] by (metis option.simps(5))
  qed
qed

lemma lead_prefix_None: "lead encs (s @ t) = None \<Longrightarrow> lead encs s = None"
  unfolding lead_None HasPrefix_iff by (metis append.assoc)

lemma TrimSpace_idem [simp]: "TrimSpace (TrimSpace s) = TrimSpace s"
proof -
  define l where "l = strip_lead space_runes s"
  define r where "r = strip_lead (map rev space_runes) (rev l)"
  obtain p where p: "rev l = p @ r"
    using strip_lead_suffix r_def by blast
  then have "l = rev r @ rev p" by (metis rev_append rev_rev_ident)
  moreover have "lead space_runes l = None"
    by (simp add: l_def lead_strip_lead)
  ultimately have "lead space_runes (rev r) = None"
    using lead_prefix_None by metis
  then have "strip_lead space_runes (rev r) = rev r"
    by (rule strip_lead_id)
  moreover have "strip_lead (map rev space_runes) r = r"
    unfolding r_def by (rule strip_lead_id) (rule lead_strip_lead)
  moreover have "TrimSpace s = rev r"
    by (simp add: TrimSpace_def l_def r_def)
  ultimately show ?thesis by (simp add: TrimSpace_def)
qed

text \<open>A string whose first and last bytes are neither ASCII white space nor bytes of the
  multi-byte white-space runes is left alone; user ids, UUIDs and room ids are of this kind.\<close>

definition solid :: "char \<Rightarrow> bool" where
  "solid c = ((32::nat) < of_char c \<and> of_char c < (128::nat))"

lemma TrimSpace_solid:
  assumes "s \<noteq> []" "solid (hd s)" "solid (last s)"
  shows "TrimSpace s = s"
proof -
  have hd_enc: "\<not> solid (hd e) \<and> \<not> solid (last e) \<and> e \<noteq> []" if "e \<in> set space_runes" for e
    using that by (auto simp: space_runes_def solid_def)
  have "lead space_runes s = None"
    unfolding lead_None HasPrefix_iff using hd_enc assms(2) by fastforce
  moreover have "lead (map rev space_runes) (rev s) = None"
    unfolding lead_None HasPrefix_iff
  proof (intro ballI impI notI)
    fix e assume e: "e \<in> set (map rev space_runes)" "e \<noteq> []" "\<exists>t. rev s = e @ t"
    then obtain e' t where "e' \<in> set space_runes" "rev s = rev e' @ t" by auto
    then have "s = rev t @ e'" by (metis rev_append rev_rev_ident)
    then have "last s = last e'"
      using hd_enc[OF \<open>e' \<in> set space_runes\<close>] by simp
    then show False using hd_enc[OF \<open>e' \<in> set space_runes\<close>] assms(3) by simp
  qed
  ultimately show ?thesis by (simp add: TrimSpace_def strip_lead_id)
qed

section \<open>Lemmas on numbers\<close>

lemma digit_val_char [simp]: "d < 10 \<Longrightarrow> digit_val (digit_char d) = d"
  by (simp add: digit_val_def digit_char_def)

lemma is_digit_char [simp]: "d < 10 \<Longrightarrow> is_digit (digit_char d)"
  by (simp add: is_digit_def digit_char_def)

lemma show_nat_nonempty [simp]: "show_nat n \<noteq> []"
  by (subst show_nat.simps) simp

lemma show_nat_digits: "list_all is_digit (show_nat n)"
proof (induction n rule: show_nat.induct)
  case (1 n)
  then show ?case by (subst show_nat.simps) auto
qed

lemma read_show_nat [simp]: "read_nat (show_nat n) = n"
proof (induction n rule: show_nat.induct)
  case (1 n)
  show ?case
  proof (cases "n < 10")
    case True
    then show ?thesis by (subst show_nat.simps) (simp add: read_nat_def)
  next
    case False
    then have "read_nat (show_nat (n div 10)) = n div 10" using 1 by simp
    with False show ?thesis
      by (subst show_nat.simps) (simp add: read_nat_def)
  qed
qed

lemma show_nat_hd: "is_digit (hd (show_nat n))"
  using show_nat_digits[of n] by (cases "show_nat n") auto

lemma ParseInt_FormatInt: "in_int64 n \<Longrightarrow> ParseInt (FormatInt n) = (n, None)"
proof -
  assume n: "in_int64 n"
  have "\<not> is_digit (CHR ''-'')" "\<not> is_digit (CHR ''+'')"
    by (auto simp: is_digit_def)
  then have "hd (show_nat k) \<noteq> CHR ''-''" "hd (show_nat k) \<noteq> CHR ''+''" for k
    using show_nat_hd by metis+
  with n show ?thesis
    by (auto simp: ParseInt_def FormatInt_def Let_def show_nat_digits in_int64_def)
qed

lemma toUnixMilli_fromUnixMilli [simp]: "toUnixMilli (fromUnixMilli ms) = ms"
  by (simp add: toUnixMilli_def fromUnixMilli_def)

lemma IsZero_fromUnixMilli: "IsZero (fromUnixMilli ms) \<longleftrightarrow> ms = - 62135596800000"
  by (auto simp: IsZero_def fromUnixMilli_def zero_time_def)

lemma toUnixMilli_zero_time [simp]: "toUnixMilli zero_time = - 62135596800000"
  by (simp add: toUnixMilli_def zero_time_def)

lemma to_int32_id: "- (2 ^ 31) \<le> n \<Longrightarrow> n < 2 ^ 31 \<Longrightarrow> to_int32 n = n"
  by (simp add: to_int32_def sint_sbintrunc' signed_take_bit_int_eq_self)

end
