(* ===== verification/Config.thy ===== *)
theory Config
  imports Prelude
begin

text \<open>
  \<open>app/config/config.go\<close>: the configuration record, its defaults, and \<open>Load\<close>, which layers the
  YAML file over the defaults and the environment over both.

  \<open>env\<close> is the process environment (\<open>os.Getenv\<close>: the empty string when unset). Reading
  \<open>.env\<close>, reading the file and decoding YAML are third-party code and file input: arguments.
\<close>

section \<open>Definitions\<close>

record Config =
  cf_ServiceName :: string
  cf_Port :: int
  cf_LogLevel :: string
  cf_RedisURL :: string
  cf_RedisAddr :: string
  cf_RedisPassword :: string
  cf_StorageBackend :: string
  cf_MinioBucket :: string
  cf_MinioEndpoint :: string
  cf_MinioAccessKey :: string
  cf_MinioSecretKey :: string
  cf_MinioUseSSL :: bool
  cf_S3Bucket :: string
  cf_S3Region :: string
  cf_S3Endpoint :: string
  cf_S3AccessKeyID :: string
  cf_S3SecretAccessKey :: string
  cf_S3ForcePathStyle :: bool
  cf_CloudinaryCloudName :: string
  cf_CloudinaryAPIKey :: string
  cf_CloudinaryAPISecret :: string
  cf_MongoURI :: string
  cf_MongoDB :: string
  cf_PostgresDSN :: string
  cf_PostgresHost :: string
  cf_PostgresPort :: int
  cf_PostgresUser :: string
  cf_PostgresPass :: string
  cf_PostgresDB :: string
  cf_PostgresSSL :: string
  cf_KafkaBrokersRaw :: string
  cf_KafkaTopic :: string
  cf_KafkaGroupID :: string
  cf_MaxConnsPerPod :: int
  cf_JWTPublicKeyPath :: string
  cf_JWTAudience :: string
  cf_JWTIssuer :: string
  cf_JWTDisabled :: bool

definition Default :: Config where
  "Default =
     \<lparr>cf_ServiceName = ''chat-service'', cf_Port = 50051, cf_LogLevel = ''info'',
      cf_RedisURL = [], cf_RedisAddr = [], cf_RedisPassword = [],
      cf_StorageBackend = ''minio'', cf_MinioBucket = ''chat-media'', cf_MinioEndpoint = [],
      cf_MinioAccessKey = [], cf_MinioSecretKey = [], cf_MinioUseSSL = False,
      cf_S3Bucket = ''chat-media'', cf_S3Region = ''us-east-1'', cf_S3Endpoint = [],
      cf_S3AccessKeyID = [], cf_S3SecretAccessKey = [], cf_S3ForcePathStyle = False,
      cf_CloudinaryCloudName = [], cf_CloudinaryAPIKey = [], cf_CloudinaryAPISecret = [],
      cf_MongoURI = [], cf_MongoDB = ''zpc_chat'', cf_PostgresDSN = [],
      cf_PostgresHost = ''localhost'', cf_PostgresPort = 5432, cf_PostgresUser = [],
      cf_PostgresPass = [], cf_PostgresDB = [], cf_PostgresSSL = ''disable'',
      cf_KafkaBrokersRaw = [], cf_KafkaTopic = ''chat-messages'', cf_KafkaGroupID = ''chat-service'',
      cf_MaxConnsPerPod = 80000, cf_JWTPublicKeyPath = ''config/public.pem'',
      cf_JWTAudience = ''graphql-api'', cf_JWTIssuer = ''ZPC'', cf_JWTDisabled = False\<rparr>"

text \<open>The loop of \<open>splitComma\<close> over the index \<open>i\<close>; \<open>s[a:b]\<close> is \<^term>\<open>take (b - a) (drop a s)\<close>.\<close>

function splitComma_loop :: "string \<Rightarrow> nat \<Rightarrow> nat \<Rightarrow> string list \<Rightarrow> string list" where
  "splitComma_loop s start i out =
     (if i < length s
      then if s ! i = CHR '',''
           then splitComma_loop s (i + 1) (i + 1) (out @ [TrimSpace (take (i - start) (drop start s))])
           else splitComma_loop s start (i + 1) out
      else out @ [TrimSpace (drop start s)])"
  by pat_completeness auto
termination
  by (relation "measure (\<lambda>(s, start, i, out). length s - i)") auto

declare splitComma_loop.simps [simp del]

definition splitComma :: "string \<Rightarrow> string list" where
  "splitComma s = splitComma_loop s 0 0 []"

type_synonym environ = "string \<Rightarrow> string"

definition KafkaBrokers :: "environ \<Rightarrow> Config \<Rightarrow> string list" where
  "KafkaBrokers env c =
     (let raw = (if cf_KafkaBrokersRaw c = [] \<and> env ''KAFKA_BROKERS'' \<noteq> []
                 then env ''KAFKA_BROKERS'' else cf_KafkaBrokersRaw c)
      in filter (\<lambda>b. b \<noteq> []) (splitComma raw))"

definition PostgresDSNBuilt :: "Config \<Rightarrow> string" where
  "PostgresDSNBuilt c =
     (if cf_PostgresDSN c \<noteq> [] then cf_PostgresDSN c
      else if cf_PostgresHost c = [] then []
      else let ssl = (if cf_PostgresSSL c = [] then ''disable'' else cf_PostgresSSL c)
           in ''host='' @ cf_PostgresHost c @ '' port='' @ FormatInt (cf_PostgresPort c)
              @ '' user='' @ cf_PostgresUser c @ '' password='' @ cf_PostgresPass c
              @ '' dbname='' @ cf_PostgresDB c @ '' sslmode='' @ ssl)"

definition getenv :: "environ \<Rightarrow> string \<Rightarrow> string \<Rightarrow> string" where
  "getenv env key fallback = (if env key \<noteq> [] then env key else fallback)"

text \<open>\<open>if v := os.Getenv(key); v != ""\<close> followed by a parsed assignment; a value that does not
  parse leaves the field.\<close>

definition env_int :: "environ \<Rightarrow> string \<Rightarrow> int \<Rightarrow> int" where
  "env_int env key cur =
     (if env key \<noteq> [] then (case Atoi (env key) of Some n \<Rightarrow> n | None \<Rightarrow> cur) else cur)"

definition env_flag :: "environ \<Rightarrow> string \<Rightarrow> bool \<Rightarrow> bool" where
  "env_flag env key cur \<longleftrightarrow> env key = ''true'' \<or> cur"

definition override_env :: "environ \<Rightarrow> Config \<Rightarrow> Config" where
  "override_env env cfg =
     \<lparr>cf_ServiceName = getenv env ''SERVICE_NAME'' (cf_ServiceName cfg),
      cf_Port = env_int env ''PORT'' (cf_Port cfg),
      cf_LogLevel = getenv env ''LOG_LEVEL'' (cf_LogLevel cfg),
      cf_RedisURL = getenv env ''REDIS_URL'' (cf_RedisURL cfg),
      cf_RedisAddr = getenv env ''REDIS_ADDR'' (cf_RedisAddr cfg),
      cf_RedisPassword = getenv env ''REDIS_PASSWORD'' (cf_RedisPassword cfg),
      cf_StorageBackend = getenv env ''STORAGE_BACKEND'' (cf_StorageBackend cfg),
      cf_MinioBucket = getenv env ''MINIO_BUCKET'' (cf_MinioBucket cfg),
      cf_MinioEndpoint = getenv env ''MINIO_ENDPOINT'' (cf_MinioEndpoint cfg),
      cf_MinioAccessKey = getenv env ''MINIO_ACCESS_KEY'' (cf_MinioAccessKey cfg),
      cf_MinioSecretKey = getenv env ''MINIO_SECRET_KEY'' (cf_MinioSecretKey cfg),
      cf_MinioUseSSL = env_flag env ''MINIO_USE_SSL'' (cf_MinioUseSSL cfg),
      cf_S3Bucket = getenv env ''S3_BUCKET'' (cf_S3Bucket cfg),
      cf_S3Region = getenv env ''S3_REGION'' (cf_S3Region cfg),
      cf_S3Endpoint = getenv env ''S3_ENDPOINT'' (cf_S3Endpoint cfg),
      cf_S3AccessKeyID = getenv env ''AWS_ACCESS_KEY_ID'' (cf_S3AccessKeyID cfg),
      cf_S3SecretAccessKey = getenv env ''AWS_SECRET_ACCESS_KEY'' (cf_S3SecretAccessKey cfg),
      cf_S3ForcePathStyle = env_flag env ''S3_FORCE_PATH_STYLE'' (cf_S3ForcePathStyle cfg),
      cf_CloudinaryCloudName = getenv env ''CLOUDINARY_CLOUD_NAME'' (cf_CloudinaryCloudName cfg),
      cf_CloudinaryAPIKey = getenv env ''CLOUDINARY_API_KEY'' (cf_CloudinaryAPIKey cfg),
      cf_CloudinaryAPISecret = getenv env ''CLOUDINARY_API_SECRET'' (cf_CloudinaryAPISecret cfg),
      cf_MongoURI = getenv env ''MONGO_URI'' (cf_MongoURI cfg),
      cf_MongoDB = getenv env ''MONGO_DB'' (cf_MongoDB cfg),
      cf_PostgresDSN = getenv env ''POSTGRES_DSN'' (cf_PostgresDSN cfg),
      cf_PostgresHost = getenv env ''POSTGRES_HOST'' (cf_PostgresHost cfg),
      cf_PostgresPort = env_int env ''POSTGRES_PORT'' (cf_PostgresPort cfg),
      cf_PostgresUser = getenv env ''POSTGRES_USER'' (cf_PostgresUser cfg),
      cf_PostgresPass = getenv env ''POSTGRES_PASSWORD'' (cf_PostgresPass cfg),
      cf_PostgresDB = getenv env ''POSTGRES_DB'' (cf_PostgresDB cfg),
      cf_PostgresSSL = getenv env ''POSTGRES_SSLMODE'' (cf_PostgresSSL cfg),
      cf_KafkaBrokersRaw = getenv env ''KAFKA_BROKERS'' (cf_KafkaBrokersRaw cfg),
      cf_KafkaTopic = getenv env ''KAFKA_TOPIC'' (cf_KafkaTopic cfg),
      cf_KafkaGroupID = getenv env ''KAFKA_GROUP_ID'' (cf_KafkaGroupID cfg),
      cf_MaxConnsPerPod = env_int env ''MAX_CONNS_PER_POD'' (cf_MaxConnsPerPod cfg),
      cf_JWTPublicKeyPath = getenv env ''JWT_PUBLIC_KEY_PATH'' (cf_JWTPublicKeyPath cfg),
      cf_JWTAudience = getenv env ''JWT_AUDIENCE'' (cf_JWTAudience cfg),
      cf_JWTIssuer = getenv env ''JWT_ISSUER'' (cf_JWTIssuer cfg),
      cf_JWTDisabled = env_flag env ''JWT_DISABLED'' (cf_JWTDisabled cfg)\<rparr>"

definition validate :: "Config \<Rightarrow> unit go_result" where
  "validate c = (if cf_Port c \<le> 0 \<or> cf_Port c > 65535 then Inl ''invalid port'' else Inr ())"

text \<open>\<open>dotenv\<close> is the effect of \<open>godotenv.Load\<close> on the environment, \<open>read_file\<close> that of
  \<open>os.ReadFile\<close> and \<open>decode\<close> that of \<open>yaml.Unmarshal\<close> on the record that holds the defaults
  (its error is discarded). The configuration is returned together with the error; \<open>main\<close> uses
  it only when there is none.\<close>

definition Load ::
  "(environ \<Rightarrow> environ) \<Rightarrow> (string \<Rightarrow> 'f option) \<Rightarrow> ('f \<Rightarrow> Config \<Rightarrow> Config) \<Rightarrow> environ
   \<Rightarrow> Config go_result" where
  "Load dotenv read_file decode env0 =
     (let env = dotenv env0;
          configPath = getenv env ''CONFIG_FILE'' ''config/config.yaml'';
          cfg = (case read_file configPath of None \<Rightarrow> Default | Some y \<Rightarrow> decode y Default);
          cfg' = override_env env cfg
      in case validate cfg' of Inl e \<Rightarrow> Inl e | Inr _ \<Rightarrow> Inr cfg')"

definition Addr :: "int \<Rightarrow> string" where
  "Addr port = '':'' @ FormatInt port"

text \<open>\<open>parse\<close> is \<open>time.ParseDuration\<close>.\<close>

definition DurationEnv :: "(string \<Rightarrow> int option) \<Rightarrow> environ \<Rightarrow> string \<Rightarrow> int \<Rightarrow> int" where
  "DurationEnv parse env key def =
     (if env key \<noteq> [] then (case parse (env key) of Some d \<Rightarrow> d | None \<Rightarrow> def) else def)"

section \<open>Lemmas\<close>

text \<open>The index loop computes the split at commas: from position \<open>i\<close> it has still to emit the
  pieces of the rest, the first of them completed by what has been passed since \<open>start\<close>.\<close>

lemma splitComma_loop_split:
  assumes "start \<le> i" "i \<le> length s" "CHR '','' \<notin> set (take (i - start) (drop start s))"
  shows "splitComma_loop s start i out = out @ map TrimSpace (split_on (CHR '','') (drop start s))"
  using assms
proof (induction s start i out rule: splitComma_loop.induct)
  case (1 s start i out)
  let ?seg = "take (i - start) (drop start s)"
  have seg: "drop start s = ?seg @ drop i s"
    using 1(3) by (metis append_take_drop_id drop_drop le_add_diff_inverse2)
  show ?case
  proof (cases "i < length s")
    case False
    then have "drop start s = ?seg" using 1(4) by simp
    then have "CHR '','' \<notin> set (drop start s)" using 1(5) by simp
    then show ?thesis using False by (simp add: splitComma_loop.simps[of s start i] split_on_free)
  next
    case True
    then have d: "drop i s = s ! i # drop (i + 1) s" by (simp add: Cons_nth_drop_Suc)
    show ?thesis
    proof (cases "s ! i = CHR '',''")
      case comma: True
      then have "split_on (CHR '','') (drop start s) = ?seg # split_on (CHR '','') (drop (i + 1) s)"
        using seg d split_on_append_sep[OF 1(5)] by metis
      moreover have "splitComma_loop s (i + 1) (i + 1) (out @ [TrimSpace ?seg]) =
          (out @ [TrimSpace ?seg]) @ map TrimSpace (split_on (CHR '','') (drop (i + 1) s))"
        using True by (intro 1(1)[OF True comma]) auto
      ultimately show ?thesis
        using True comma by (simp add: splitComma_loop.simps[of s start i])
    next
      case False
      have "take (i + 1 - start) (drop start s) = ?seg @ [s ! i]"
        using True 1(3) by (simp add: Suc_diff_le take_Suc_conv_app_nth)
      then have "CHR '','' \<notin> set (take (i + 1 - start) (drop start s))"
        using 1(5) False by auto
      then show ?thesis
        using 1(2)[OF True False] 1(3) True False by (simp add: splitComma_loop.simps[of s start i])
    qed
  qed
qed

lemma splitComma_eq: "splitComma s = map TrimSpace (split_on (CHR '','') s)"
  using splitComma_loop_split[of 0 0 s "[]"] by (simp add: splitComma_def)

lemma split_on_Join:
  assumes "bs \<noteq> []" "\<forall>b\<in>set bs. c \<notin> set b"
  shows "split_on c (Join bs [c]) = bs"
  using assms
proof (induction bs)
  case (Cons b bs)
  then show ?case
    by (cases bs) (simp_all add: split_on_free Join_Cons split_on_append_sep)
qed simp

lemma TrimSpace_comma_free: "CHR '','' \<notin> set s \<Longrightarrow> CHR '','' \<notin> set (TrimSpace s)"
proof -
  obtain p where p: "s = p @ strip_lead space_runes s" using strip_lead_suffix by blast
  obtain q where q: "rev (strip_lead space_runes s) =
      q @ strip_lead (map rev space_runes) (rev (strip_lead space_runes s))"
    using strip_lead_suffix by blast
  assume "CHR '','' \<notin> set s"
  then have "CHR '','' \<notin> set (strip_lead space_runes s)" using p by (metis UnI2 set_append)
  then have "CHR '','' \<notin> set (rev (strip_lead space_runes s))" by simp
  then have "CHR '','' \<notin> set (strip_lead (map rev space_runes) (rev (strip_lead space_runes s)))"
    using q by (metis UnI2 set_append)
  then show ?thesis by (simp add: TrimSpace_def)
qed

lemma getenv_nonempty: "fallback \<noteq> [] \<Longrightarrow> getenv env key fallback \<noteq> []"
  by (simp add: getenv_def)

lemma Load_ok:
  "Load dotenv read_file decode env0 = Inr c \<Longrightarrow> \<exists>cfg. c = override_env (dotenv env0) cfg
     \<and> 0 < cf_Port c \<and> cf_Port c \<le> 65535
     \<and> (cfg = Default \<or> (\<exists>p y. read_file p = Some y \<and> cfg = decode y Default))"
  by (auto simp: Load_def Let_def validate_def split: option.splits sum.splits if_splits)

text \<open>The variables that the deployment sets, each with the field it is for.\<close>

definition string_vars :: "(string \<times> (Config \<Rightarrow> string)) list" where
  "string_vars =
     [(''SERVICE_NAME'', cf_ServiceName), (''LOG_LEVEL'', cf_LogLevel), (''REDIS_URL'', cf_RedisURL),
      (''REDIS_ADDR'', cf_RedisAddr), (''REDIS_PASSWORD'', cf_RedisPassword),
      (''STORAGE_BACKEND'', cf_StorageBackend), (''MINIO_BUCKET'', cf_MinioBucket),
      (''MINIO_ENDPOINT'', cf_MinioEndpoint), (''MINIO_ACCESS_KEY'', cf_MinioAccessKey),
      (''MINIO_SECRET_KEY'', cf_MinioSecretKey), (''S3_BUCKET'', cf_S3Bucket),
      (''S3_REGION'', cf_S3Region), (''S3_ENDPOINT'', cf_S3Endpoint),
      (''AWS_ACCESS_KEY_ID'', cf_S3AccessKeyID), (''AWS_SECRET_ACCESS_KEY'', cf_S3SecretAccessKey),
      (''CLOUDINARY_CLOUD_NAME'', cf_CloudinaryCloudName),
      (''CLOUDINARY_API_KEY'', cf_CloudinaryAPIKey),
      (''CLOUDINARY_API_SECRET'', cf_CloudinaryAPISecret), (''MONGO_URI'', cf_MongoURI),
      (''MONGO_DB'', cf_MongoDB), (''POSTGRES_DSN'', cf_PostgresDSN),
      (''POSTGRES_HOST'', cf_PostgresHost), (''POSTGRES_USER'', cf_PostgresUser),
      (''POSTGRES_PASSWORD'', cf_PostgresPass), (''POSTGRES_DB'', cf_PostgresDB),
      (''POSTGRES_SSLMODE'', cf_PostgresSSL), (''KAFKA_BROKERS'', cf_KafkaBrokersRaw),
      (''KAFKA_TOPIC'', cf_KafkaTopic), (''KAFKA_GROUP_ID'', cf_KafkaGroupID),
      (''JWT_PUBLIC_KEY_PATH'', cf_JWTPublicKeyPath), (''JWT_AUDIENCE'', cf_JWTAudience),
      (''JWT_ISSUER'', cf_JWTIssuer)]"

definition int_vars :: "(string \<times> (Config \<Rightarrow> int)) list" where
  "int_vars =
     [(''PORT'', cf_Port), (''POSTGRES_PORT'', cf_PostgresPort),
      (''MAX_CONNS_PER_POD'', cf_MaxConnsPerPod)]"

definition flag_vars :: "(string \<times> (Config \<Rightarrow> bool)) list" where
  "flag_vars =
     [(''MINIO_USE_SSL'', cf_MinioUseSSL), (''S3_FORCE_PATH_STYLE'', cf_S3ForcePathStyle),
      (''JWT_DISABLED'', cf_JWTDisabled)]"

lemmas vars_defs = string_vars_def int_vars_def flag_vars_def

text \<open>There is a variable for every field, and no variable is for two.\<close>

lemma vars_all:
  assumes "\<forall>(v, f)\<in>set string_vars. f c = f d" "\<forall>(v, f)\<in>set int_vars. f c = f d" "\<forall>(v, f)\<in>set flag_vars. f c = f d"
  shows "c = (d :: Config)"
  using assms unfolding vars_defs by (cases c, cases d) simp

lemma vars_distinct: "distinct (map fst string_vars @ map fst int_vars @ map fst flag_vars)"
  by (simp add: vars_defs)

lemma override_env_strings: "\<forall>(v, f)\<in>set string_vars. f (override_env env cfg) = (if env v \<noteq> [] then env v else f cfg)"
  by (simp add: string_vars_def override_env_def getenv_def)

lemma override_env_ints:
  "\<forall>(v, f)\<in>set int_vars. f (override_env env cfg) =
     (if env v = [] then f cfg else case Atoi (env v) of None \<Rightarrow> f cfg | Some n \<Rightarrow> n)"
  by (simp add: int_vars_def override_env_def env_int_def)

lemma override_env_flags: "\<forall>(v, f)\<in>set flag_vars. f (override_env env cfg) = (env v = ''true'' \<or> f cfg)"
  by (simp add: flag_vars_def override_env_def env_flag_def)

section \<open>Properties\<close>

text \<open>The hand-written comma splitter computes the split at commas with every piece trimmed, and
  the broker list is that split without its empty pieces: a list of clean broker addresses written
  with commas is read back as it was, and a broker address never is empty, holds a comma or is
  surrounded by white space.\<close>

lemma KafkaBrokers_split:
  assumes "bs \<noteq> []" "\<forall>b\<in>set bs. b \<noteq> [] \<and> TrimSpace b = b \<and> CHR '','' \<notin> set b"
  shows "splitComma s = map TrimSpace (split_on (CHR '','') s)
    \<and> KafkaBrokers env (c\<lparr>cf_KafkaBrokersRaw := Join bs '',''\<rparr>) = bs
    \<and> (\<forall>b\<in>set (KafkaBrokers env c). b \<noteq> [] \<and> CHR '','' \<notin> set b \<and> TrimSpace b = b)"
proof -
  have ne: "Join bs '','' \<noteq> []"
    using assms by (cases bs; cases "tl bs") (auto simp: Join_Cons)
  have "map TrimSpace bs = bs" using assms(2) by (simp add: map_idI)
  moreover have "filter (\<lambda>b. b \<noteq> []) bs = bs" using assms(2) by (simp add: filter_id_conv)
  ultimately have "KafkaBrokers env (c\<lparr>cf_KafkaBrokersRaw := Join bs '',''\<rparr>) = bs"
    using ne split_on_Join[OF assms(1), of "CHR '',''"] assms(2)
    by (simp add: KafkaBrokers_def splitComma_eq Let_def)
  moreover have "\<forall>b\<in>set (KafkaBrokers env c). b \<noteq> [] \<and> CHR '','' \<notin> set b \<and> TrimSpace b = b"
    using split_on_sep_free TrimSpace_comma_free
    by (auto simp: KafkaBrokers_def splitComma_eq Let_def split: if_splits)
  ultimately show ?thesis by (simp add: splitComma_eq)
qed

text \<open>C35. A loaded configuration has a port a listener can be opened on. Each of its string fields is the
  value of its environment variable if that is set and otherwise what the file says, or the default
  without a file; a number likewise, but a value that does not parse is ignored; a flag is on if
  its variable is \<open>true\<close> or the file has it on, so that the environment can switch it on and not off; this for all
  the variables of the service, which cover all fields. Without a file Postgres is always configured,
  because its host has a default.\<close>

theorem Load_precedence:
  assumes "Load dotenv read_file decode env0 = Inr c" "env = dotenv env0"
    and "cfg = (case read_file (getenv env ''CONFIG_FILE'' ''config/config.yaml'') of None \<Rightarrow> Default | Some y \<Rightarrow> decode y Default)"
  shows "0 < cf_Port c \<and> cf_Port c \<le> 65535
    \<and> (\<forall>(v, f)\<in>set string_vars. f c = (if env v \<noteq> [] then env v else f cfg))
    \<and> (\<forall>(v, f)\<in>set int_vars. f c = (if env v = [] then f cfg else case Atoi (env v) of None \<Rightarrow> f cfg | Some n \<Rightarrow> n))
    \<and> (\<forall>(v, f)\<in>set flag_vars. f c = (env v = ''true'' \<or> f cfg))
    \<and> (cfg = Default \<longrightarrow> PostgresDSNBuilt c \<noteq> [])"
proof -
  have c: "c = override_env env cfg" "validate c = Inr ()"
    using assms by (auto simp: Load_def Let_def validate_def split: option.splits if_splits)
  have "cfg = Default \<longrightarrow> cf_PostgresHost c \<noteq> []"
    unfolding c(1) by (auto simp: override_env_def Default_def getenv_def)
  then have "cfg = Default \<longrightarrow> PostgresDSNBuilt c \<noteq> []" by (simp add: PostgresDSNBuilt_def Let_def)
  moreover have "0 < cf_Port c \<and> cf_Port c \<le> 65535" using c(2) by (auto simp: validate_def split: if_splits)
  ultimately show ?thesis
    using override_env_strings[of env cfg] override_env_ints[of env cfg] override_env_flags[of env cfg] unfolding c(1) by blast
qed

theorem Load_precedence_witness:
  "\<exists>c. Load id (\<lambda>_. None :: unit option) (\<lambda>_ c. c)
        (\<lambda>k. if k = ''PORT'' then ''8080'' else if k = ''REDIS_ADDR'' then ''redis:6379'' else []) = Inr c
     \<and> cf_Port c = 8080 \<and> cf_RedisAddr c = ''redis:6379'' \<and> cf_MongoDB c = ''zpc_chat'' \<and> PostgresDSNBuilt c \<noteq> []"
proof -
  let ?env = "\<lambda>k. if k = ''PORT'' then ''8080'' else if k = ''REDIS_ADDR'' then ''redis:6379'' else []"
  have atoi: "Atoi ''8080'' = Some 8080"
    by (simp add: Atoi_def ParseInt_def is_digit_def read_nat_def digit_val_def int64_max_def int64_min_def)
  obtain c where c: "Load id (\<lambda>_. None :: unit option) (\<lambda>_ c. c) ?env = Inr c"
    using atoi by (simp add: Load_def validate_def override_env_def env_int_def getenv_def Let_def)
  have vars: "(''PORT'', cf_Port) \<in> set int_vars" "(''REDIS_ADDR'', cf_RedisAddr) \<in> set string_vars"
    "(''MONGO_DB'', cf_MongoDB) \<in> set string_vars"
    by (simp_all add: vars_defs)
  note loaded = Load_precedence[OF c refl refl]
  have "cf_Port c = 8080" using loaded vars(1) atoi by fastforce
  moreover have "cf_RedisAddr c = ''redis:6379''" using loaded vars(2) by fastforce
  moreover have "cf_MongoDB c = ''zpc_chat''" using loaded vars(3) by (fastforce simp: Default_def)
  ultimately show ?thesis using loaded c by auto
qed

end
