(* ===== verification/Auth.thy ===== *)
theory Auth
  imports Prelude
begin

text \<open>
  \<open>app/interceptors/auth.go\<close>: extraction and verification of the bearer token and the two
  interceptors; and the way the generated code of \<open>app/pb/chat_grpc.pb.go\<close> runs a unary
  handler behind an interceptor.

  \<open>jwt.Parse\<close> is third-party code and a parameter. It calls back into the service's key
  function with the token's header; \<open>jwt_library\<close> states what its documentation promises
  about a token it accepts. A handler is a function of the context and the request that
  passes a state along, so that "the handler did not run" is visible in the state.
\<close>

section \<open>Definitions\<close>

text \<open>Incoming metadata (header names are lower case) and the value stored under
  \<open>ContextKeyUserID\<close>.\<close>

record rpc_context =
  ctx_md :: "(string \<rightharpoonup> string list) option"
  ctx_user :: "string option"

definition UserIDFromContext :: "rpc_context \<Rightarrow> string" where
  "UserIDFromContext ctx = (case ctx_user ctx of Some u \<Rightarrow> u | None \<Rightarrow> [])"

record 'k AuthInterceptor =
  ai_publicKey :: 'k
  ai_audience :: string
  ai_issuer :: string

text \<open>\<open>read_file\<close>, \<open>pem_ok\<close> and \<open>parse_key\<close> are \<open>os.ReadFile\<close>, \<open>pem.Decode\<close> and
  \<open>jwt.ParseRSAPublicKeyFromPEM\<close>.\<close>

definition NewAuthInterceptor ::
  "(string \<Rightarrow> 'f go_result) \<Rightarrow> ('f \<Rightarrow> bool) \<Rightarrow> ('f \<Rightarrow> 'k go_result) \<Rightarrow> string \<Rightarrow> string \<Rightarrow> string
   \<Rightarrow> 'k AuthInterceptor go_result" where
  "NewAuthInterceptor read_file pem_ok parse_key keyPath audience issuer =
     (case read_file keyPath of
        Inl e \<Rightarrow> Inl e
      | Inr raw \<Rightarrow>
          if \<not> pem_ok raw then Inl ''failed to decode PEM block from public key file''
          else case parse_key raw of
                 Inl e \<Rightarrow> Inl e
               | Inr pub \<Rightarrow> Inr \<lparr>ai_publicKey = pub, ai_audience = audience, ai_issuer = issuer\<rparr>)"

definition exempt :: "string \<Rightarrow> bool" where
  "exempt fullMethod \<longleftrightarrow>
     HasPrefix fullMethod ''/grpc.health'' \<or> HasPrefix fullMethod ''/grpc.reflection''"

text \<open>What the key function sees of a token: the family of its signing method and its
  \<open>alg\<close> header.\<close>

datatype signing_method = SigningMethodRSA | OtherMethod

record jwt_header =
  jh_Method :: signing_method
  jh_alg :: string

datatype claim = ClaimString string | ClaimOther

text \<open>\<open>tk_Claims\<close> is \<^term>\<open>None\<close> when the claims are not a \<open>MapClaims\<close>.\<close>

record jwt_token =
  tk_Claims :: "(string \<rightharpoonup> claim) option"
  tk_Valid :: bool

type_synonym 'k jwt_parse =
  "(jwt_header \<Rightarrow> 'k go_result) \<Rightarrow> string \<Rightarrow> string \<Rightarrow> string list \<Rightarrow> string \<Rightarrow> jwt_token go_result"

definition key_func :: "'k AuthInterceptor \<Rightarrow> jwt_header \<Rightarrow> 'k go_result" where
  "key_func a t =
     (if jh_Method t \<noteq> SigningMethodRSA then Inl (''unexpected signing method: '' @ jh_alg t)
      else Inr (ai_publicKey a))"

definition verify :: "'k jwt_parse \<Rightarrow> 'k AuthInterceptor \<Rightarrow> string \<Rightarrow> string rpc_result" where
  "verify parse a tokenStr =
     (case parse (key_func a) (ai_audience a) (ai_issuer a) [''RS256''] tokenStr of
        Inl e \<Rightarrow> rpc_err Unauthenticated (''invalid token: '' @ e)
      | Inr token \<Rightarrow>
          (case tk_Claims token of
             None \<Rightarrow> rpc_err Unauthenticated ''invalid token claims''
           | Some claims \<Rightarrow>
               if \<not> tk_Valid token then rpc_err Unauthenticated ''invalid token claims''
               else Inr (case claims ''sub'' of Some (ClaimString s) \<Rightarrow> s | _ \<Rightarrow> [])))"

definition extractToken :: "rpc_context \<Rightarrow> string rpc_result" where
  "extractToken ctx =
     (case ctx_md ctx of
        None \<Rightarrow> rpc_err Unauthenticated ''missing metadata''
      | Some md \<Rightarrow>
          (case md ''authorization'' of
             None \<Rightarrow> rpc_err Unauthenticated ''missing authorization header''
           | Some [] \<Rightarrow> rpc_err Unauthenticated ''missing authorization header''
           | Some (v # vs) \<Rightarrow>
               (let raw = TrimPrefix (TrimPrefix v ''Bearer '') ''bearer ''
                in if raw = [] then rpc_err Unauthenticated ''empty token'' else Inr raw)))"

type_synonym ('q, 'r, 's) unary_handler = "rpc_context \<Rightarrow> 'q \<Rightarrow> 's \<Rightarrow> 'r rpc_result \<times> 's"
type_synonym 's stream_handler = "rpc_context \<Rightarrow> 's \<Rightarrow> unit rpc_result \<times> 's"

definition UnaryServerInterceptor ::
  "'k jwt_parse \<Rightarrow> 'k AuthInterceptor \<Rightarrow> rpc_context \<Rightarrow> 'q \<Rightarrow> string \<Rightarrow> ('q, 'r, 's) unary_handler \<Rightarrow> 's
   \<Rightarrow> 'r rpc_result \<times> 's" where
  "UnaryServerInterceptor parse a ctx req fullMethod handler s =
     (if exempt fullMethod then handler ctx req s
      else case extractToken ctx of
             Inl e \<Rightarrow> (Inl e, s)
           | Inr tokenStr \<Rightarrow>
               (case verify parse a tokenStr of
                  Inl e \<Rightarrow> (Inl e, s)
                | Inr userID \<Rightarrow> handler (ctx\<lparr>ctx_user := Some userID\<rparr>) req s))"

text \<open>The wrapped stream differs from the original in its context only.\<close>

definition StreamServerInterceptor ::
  "'k jwt_parse \<Rightarrow> 'k AuthInterceptor \<Rightarrow> rpc_context \<Rightarrow> string \<Rightarrow> 's stream_handler \<Rightarrow> 's
   \<Rightarrow> unit rpc_result \<times> 's" where
  "StreamServerInterceptor parse a ctx fullMethod handler s =
     (if exempt fullMethod then handler ctx s
      else case extractToken ctx of
             Inl e \<Rightarrow> (Inl e, s)
           | Inr tokenStr \<Rightarrow>
               (case verify parse a tokenStr of
                  Inl e \<Rightarrow> (Inl e, s)
                | Inr userID \<Rightarrow> handler (ctx\<lparr>ctx_user := Some userID\<rparr>) s))"

section \<open>The generated dispatch\<close>

text \<open>The body every \<open>_ChatService_..._Handler\<close> has: decode the request, then call the method
  directly or through the interceptor. \<open>decode\<close> is the transport's decoder.\<close>

type_synonym ('q, 'r, 's) unary_interceptor =
  "rpc_context \<Rightarrow> 'q \<Rightarrow> string \<Rightarrow> ('q, 'r, 's) unary_handler \<Rightarrow> 's \<Rightarrow> 'r rpc_result \<times> 's"

definition ChatService_Handler ::
  "string \<Rightarrow> ('q, 'r, 's) unary_handler \<Rightarrow> ('q, 'r, 's) unary_interceptor option \<Rightarrow> rpc_context
   \<Rightarrow> 'q rpc_result \<Rightarrow> 's \<Rightarrow> 'r rpc_result \<times> 's" where
  "ChatService_Handler fullMethod call interceptor ctx decode s =
     (case decode of
        Inl e \<Rightarrow> (Inl e, s)
      | Inr req \<Rightarrow>
          (case interceptor of
             None \<Rightarrow> call ctx req s
           | Some i \<Rightarrow> i ctx req fullMethod call s))"

text \<open>The method table of \<open>ChatService_ServiceDesc\<close> and its one bidirectional stream.\<close>

definition ChatService_methods :: "string list" where
  "ChatService_methods =
     map (\<lambda>m. ''/chat.v1.ChatService/'' @ m)
       [''CreateRoom'', ''GetConversation'', ''GetMessages'', ''SendMessage'', ''SearchMessages'',
        ''DeleteMessage'', ''EditMessage'', ''MarkMessageRead'', ''GetUnreadCount'', ''RequestUpload'',
        ''GetDownloadUrl'', ''GetPresence'', ''GetUserRooms'', ''CreateGroup'', ''AddGroupMember'',
        ''RemoveGroupMember'', ''LeaveGroup'', ''PromoteAdmin'', ''TransferOwnership'', ''DeleteGroup'']"

definition ChatService_Chat_FullMethodName :: string where
  "ChatService_Chat_FullMethodName = ''/chat.v1.ChatService/Chat''"

section \<open>The documented behaviour of the JWT library\<close>

text \<open>\<open>authentic key alg token claims\<close>: the token carries these claims under a signature with
  method \<open>alg\<close> that the key verifies, it has not expired. \<open>aud_of\<close> and \<open>iss_of\<close> read the
  registered claims. \<open>granted\<close>: the user is the subject of an authentic RS256 token for the
  interceptor's audience and issuer.\<close>

definition granted ::
  "('k \<Rightarrow> string \<Rightarrow> string \<Rightarrow> (string \<rightharpoonup> claim) \<Rightarrow> bool) \<Rightarrow> ((string \<rightharpoonup> claim) \<Rightarrow> string set)
   \<Rightarrow> ((string \<rightharpoonup> claim) \<Rightarrow> string) \<Rightarrow> 'k AuthInterceptor \<Rightarrow> string \<Rightarrow> string \<Rightarrow> bool" where
  "granted authentic aud_of iss_of a token user \<longleftrightarrow>
     (\<exists>claims. authentic (ai_publicKey a) ''RS256'' token claims \<and> ai_audience a \<in> aud_of claims
        \<and> iss_of claims = ai_issuer a
        \<and> user = (case claims ''sub'' of Some (ClaimString s) \<Rightarrow> s | _ \<Rightarrow> []))"

locale jwt_library =
  fixes parse :: "'k jwt_parse"
    and authentic :: "'k \<Rightarrow> string \<Rightarrow> string \<Rightarrow> (string \<rightharpoonup> claim) \<Rightarrow> bool"
    and aud_of :: "(string \<rightharpoonup> claim) \<Rightarrow> string set"
    and iss_of :: "(string \<rightharpoonup> claim) \<Rightarrow> string"
  assumes parse_accepts: "parse kf aud iss methods token = Inr t \<Longrightarrow>
    tk_Valid t \<and> (\<exists>h k claims. kf h = Inr k \<and> jh_alg h \<in> set methods \<and> tk_Claims t = Some claims
      \<and> authentic k (jh_alg h) token claims \<and> aud \<in> aud_of claims \<and> iss_of claims = iss)"
begin

lemma verify_granted:
  assumes "verify parse a token = Inr user"
  shows "granted authentic aud_of iss_of a token user"
proof -
  obtain t where t: "parse (key_func a) (ai_audience a) (ai_issuer a) [''RS256''] token = Inr t"
    using assms by (auto simp: verify_def rpc_err_def split: sum.splits)
  note acc = parse_accepts[OF t]
  then obtain h k claims where h: "key_func a h = Inr k" "jh_alg h \<in> set [''RS256'']"
    "tk_Claims t = Some claims" "authentic k (jh_alg h) token claims"
    "ai_audience a \<in> aud_of claims" "iss_of claims = ai_issuer a" by blast
  moreover have "k = ai_publicKey a" using h(1) by (auto simp: key_func_def split: if_splits)
  moreover have "user = (case claims ''sub'' of Some (ClaimString s) \<Rightarrow> s | _ \<Rightarrow> [])"
    using assms t acc h(3) by (simp add: verify_def)
  ultimately show ?thesis by (auto simp: granted_def)
qed

lemma unary_gate:
  assumes "UnaryServerInterceptor parse a ctx req m handler s = (res, s')" "\<not> exempt m"
  shows "(s' = s \<and> (\<exists>msg. res = Inl (Unauthenticated, msg)))
    \<or> (\<exists>token user. extractToken ctx = Inr token \<and> granted authentic aud_of iss_of a token user
         \<and> handler (ctx\<lparr>ctx_user := Some user\<rparr>) req s = (res, s'))"
  using assms verify_granted
  by (auto simp: UnaryServerInterceptor_def extractToken_def verify_def rpc_err_def Let_def
      split: sum.splits option.splits list.splits if_splits)

lemma stream_gate:
  assumes "StreamServerInterceptor parse a ctx m handler s = (res, s')" "\<not> exempt m"
  shows "(s' = s \<and> (\<exists>msg. res = Inl (Unauthenticated, msg)))
    \<or> (\<exists>token user. extractToken ctx = Inr token \<and> granted authentic aud_of iss_of a token user
         \<and> handler (ctx\<lparr>ctx_user := Some user\<rparr>) s = (res, s'))"
  using assms verify_granted
  by (auto simp: StreamServerInterceptor_def extractToken_def verify_def rpc_err_def Let_def
      split: sum.splits option.splits list.splits if_splits)

end

text \<open>A library over a table of issued tokens: who signed a token, with which method, and its
  claims. It satisfies the contract, for every table.\<close>

record 'k issued_token =
  it_key :: 'k
  it_header :: jwt_header
  it_claims :: "string \<rightharpoonup> claim"

definition claim_string :: "string \<Rightarrow> (string \<rightharpoonup> claim) \<Rightarrow> string" where
  "claim_string name claims = (case claims name of Some (ClaimString s) \<Rightarrow> s | _ \<Rightarrow> [])"

definition ref_authentic ::
  "(string \<rightharpoonup> 'k issued_token) \<Rightarrow> 'k \<Rightarrow> string \<Rightarrow> string \<Rightarrow> (string \<rightharpoonup> claim) \<Rightarrow> bool" where
  "ref_authentic tokens k alg token claims =
     (case tokens token of None \<Rightarrow> False
      | Some i \<Rightarrow> it_key i = k \<and> jh_alg (it_header i) = alg \<and> it_claims i = claims)"

definition ref_parse :: "(string \<rightharpoonup> 'k issued_token) \<Rightarrow> 'k jwt_parse" where
  "ref_parse tokens kf aud iss methods token =
     (case tokens token of
        None \<Rightarrow> Inl ''token is malformed''
      | Some i \<Rightarrow>
          if jh_alg (it_header i) \<notin> set methods then Inl ''signing method is invalid''
          else case kf (it_header i) of
                 Inl e \<Rightarrow> Inl e
               | Inr k \<Rightarrow>
                   if k = it_key i \<and> claim_string ''aud'' (it_claims i) = aud
                      \<and> claim_string ''iss'' (it_claims i) = iss
                   then Inr \<lparr>tk_Claims = Some (it_claims i), tk_Valid = True\<rparr>
                   else Inl ''token is unverifiable or has invalid claims'')"

interpretation ref_jwt: jwt_library "ref_parse tokens" "ref_authentic tokens"
  "\<lambda>claims. {claim_string ''aud'' claims}" "claim_string ''iss''"
  by unfold_locales
    (auto simp: ref_parse_def ref_authentic_def split: option.splits if_splits sum.splits)

section \<open>Lemmas\<close>

lemma service_methods_not_exempt: "m \<in> set ChatService_methods \<Longrightarrow> \<not> exempt m"
  by (auto simp: ChatService_methods_def exempt_def HasPrefix_def)

lemma chat_not_exempt: "\<not> exempt ChatService_Chat_FullMethodName"
  by (simp add: ChatService_Chat_FullMethodName_def exempt_def HasPrefix_def)

section \<open>Properties\<close>

text \<open>C27. With the interceptor in place, a call of any method of the chat service either is refused as
  unauthenticated with nothing done, or its handler runs with the subject of an authentic RS256
  token for the configured audience and issuer in its context; the same holds for the stream.\<close>

theorem auth_gate:
  assumes lib: "jwt_library parse authentic aud_of iss_of" and m: "m \<in> set ChatService_methods"
    and u: "ChatService_Handler m call (Some (UnaryServerInterceptor parse a)) ctx (Inr req) s = (res, s')"
    and st: "StreamServerInterceptor parse a ctx ChatService_Chat_FullMethodName chat s = (res2, s2)"
  shows "((s' = s \<and> (\<exists>msg. res = Inl (Unauthenticated, msg)))
      \<or> (\<exists>token user. extractToken ctx = Inr token \<and> granted authentic aud_of iss_of a token user
           \<and> call (ctx\<lparr>ctx_user := Some user\<rparr>) req s = (res, s')))
    \<and> ((s2 = s \<and> (\<exists>msg. res2 = Inl (Unauthenticated, msg)))
      \<or> (\<exists>token user. extractToken ctx = Inr token \<and> granted authentic aud_of iss_of a token user
           \<and> chat (ctx\<lparr>ctx_user := Some user\<rparr>) s = (res2, s2)))"
proof -
  have "UnaryServerInterceptor parse a ctx req m call s = (res, s')"
    using u by (simp add: ChatService_Handler_def)
  from jwt_library.unary_gate[OF lib this service_methods_not_exempt[OF m]]
    jwt_library.stream_gate[OF lib st chat_not_exempt]
  show ?thesis by simp
qed

definition demo_ctx :: rpc_context where
  "demo_ctx = \<lparr>ctx_md = Some [''authorization'' \<mapsto> [''Bearer abc'']], ctx_user = None\<rparr>"

theorem auth_gate_witness:
  "\<exists>msg. ChatService_Handler ''/chat.v1.ChatService/SendMessage'' (\<lambda>ctx req s. (Inr (), s + (1::nat)))
     (Some (UnaryServerInterceptor (ref_parse Map.empty)
        \<lparr>ai_publicKey = (), ai_audience = ''graphql-api'', ai_issuer = ''ZPC''\<rparr>)) demo_ctx (Inr ()) 0
   = (Inl (Unauthenticated, msg), 0)"
proof -
  let ?a = "\<lparr>ai_publicKey = (), ai_audience = ''graphql-api'', ai_issuer = ''ZPC''\<rparr>"
  let ?call = "\<lambda>ctx req s. (Inr () :: unit rpc_result, s + (1::nat))"
  obtain res s' where u: "ChatService_Handler ''/chat.v1.ChatService/SendMessage'' ?call
      (Some (UnaryServerInterceptor (ref_parse Map.empty) ?a)) demo_ctx (Inr ()) 0 = (res, s')" by fastforce
  obtain res2 s2 where st: "StreamServerInterceptor (ref_parse Map.empty) ?a demo_ctx
      ChatService_Chat_FullMethodName (\<lambda>ctx s. (Inr (), s)) (0::nat) = (res2, s2)" by fastforce
  have m: "''/chat.v1.ChatService/SendMessage'' \<in> set ChatService_methods" by (simp add: ChatService_methods_def)
  from auth_gate[OF ref_jwt.jwt_library_axioms m u st] show ?thesis
    unfolding u by (auto simp: granted_def ref_authentic_def)
qed

end
