(* ===== verification/Pb.thy ===== *)
theory Pb
  imports Prelude
begin

text \<open>
  The protobuf messages of \<open>app/pb/chat.pb.go\<close>: the enums, the structs the service reads and
  builds, and the JSON form of a \<open>ServerMessage\<close> that travels over the broker.

  A proto3 enum is an open \<open>int32\<close>: any number can arrive on the wire, so the enums are
  integers with named constants and not closed datatypes. A Go composite literal that leaves
  fields out sets them to zero values; here that is an update of the zero record.
\<close>

section \<open>Enums\<close>

type_synonym MessageType = int
type_synonym RoomType = int
type_synonym EventType = int
type_synonym MessageStatus = int

abbreviation (input) MESSAGE_TYPE_TEXT :: MessageType where "MESSAGE_TYPE_TEXT \<equiv> 0"
abbreviation (input) MESSAGE_TYPE_IMAGE :: MessageType where "MESSAGE_TYPE_IMAGE \<equiv> 1"
abbreviation (input) MESSAGE_TYPE_VIDEO :: MessageType where "MESSAGE_TYPE_VIDEO \<equiv> 2"
abbreviation (input) MESSAGE_TYPE_AUDIO :: MessageType where "MESSAGE_TYPE_AUDIO \<equiv> 3"
abbreviation (input) MESSAGE_TYPE_FILE :: MessageType where "MESSAGE_TYPE_FILE \<equiv> 4"

abbreviation (input) ROOM_TYPE_DM :: RoomType where "ROOM_TYPE_DM \<equiv> 0"
abbreviation (input) ROOM_TYPE_GROUP :: RoomType where "ROOM_TYPE_GROUP \<equiv> 1"

abbreviation (input) EVENT_TYPE_MESSAGE :: EventType where "EVENT_TYPE_MESSAGE \<equiv> 0"
abbreviation (input) EVENT_TYPE_TYPING_START :: EventType where "EVENT_TYPE_TYPING_START \<equiv> 1"
abbreviation (input) EVENT_TYPE_TYPING_STOP :: EventType where "EVENT_TYPE_TYPING_STOP \<equiv> 2"
abbreviation (input) EVENT_TYPE_READ_RECEIPT :: EventType where "EVENT_TYPE_READ_RECEIPT \<equiv> 3"
abbreviation (input) EVENT_TYPE_REACTION :: EventType where "EVENT_TYPE_REACTION \<equiv> 4"
abbreviation (input) EVENT_TYPE_DELETE :: EventType where "EVENT_TYPE_DELETE \<equiv> 5"
abbreviation (input) EVENT_TYPE_PRESENCE :: EventType where "EVENT_TYPE_PRESENCE \<equiv> 6"
abbreviation (input) EVENT_TYPE_EDIT :: EventType where "EVENT_TYPE_EDIT \<equiv> 7"

abbreviation (input) MESSAGE_STATUS_SENDING :: MessageStatus where "MESSAGE_STATUS_SENDING \<equiv> 0"
abbreviation (input) MESSAGE_STATUS_SENT :: MessageStatus where "MESSAGE_STATUS_SENT \<equiv> 1"
abbreviation (input) MESSAGE_STATUS_DELIVERED :: MessageStatus where "MESSAGE_STATUS_DELIVERED \<equiv> 2"
abbreviation (input) MESSAGE_STATUS_READ :: MessageStatus where "MESSAGE_STATUS_READ \<equiv> 3"

text \<open>The generated name tables of \<open>MessageType\<close>.\<close>

definition MessageType_value :: "string \<rightharpoonup> int" where
  "MessageType_value = map_of
     [(''MESSAGE_TYPE_TEXT'', 0), (''MESSAGE_TYPE_IMAGE'', 1), (''MESSAGE_TYPE_VIDEO'', 2),
      (''MESSAGE_TYPE_AUDIO'', 3), (''MESSAGE_TYPE_FILE'', 4)]"

definition MessageType_name :: "int \<rightharpoonup> string" where
  "MessageType_name = map_of
     [(0, ''MESSAGE_TYPE_TEXT''), (1, ''MESSAGE_TYPE_IMAGE''), (2, ''MESSAGE_TYPE_VIDEO''),
      (3, ''MESSAGE_TYPE_AUDIO''), (4, ''MESSAGE_TYPE_FILE'')]"

text \<open>The method \<open>String\<close>: the value's name, or its number when it has none.\<close>

definition MessageType_String :: "MessageType \<Rightarrow> string" where
  "MessageType_String t = (case MessageType_name t of Some n \<Rightarrow> n | None \<Rightarrow> FormatInt t)"

section \<open>Messages\<close>

record ClientMessage =
  cm_RoomId :: string
  cm_UserId :: string
  cm_MessageId :: string
  cm_Text :: string
  cm_SentAtUnixMs :: int
  cm_Type :: MessageType
  cm_MediaKey :: string
  cm_MediaName :: string
  cm_MediaSizeBytes :: int
  cm_MediaMimeType :: string
  cm_EventType :: EventType
  cm_ReplyToMessageId :: string
  cm_ReactionEmoji :: string

definition ClientMessage_zero :: ClientMessage where
  "ClientMessage_zero =
     \<lparr>cm_RoomId = [], cm_UserId = [], cm_MessageId = [], cm_Text = [], cm_SentAtUnixMs = 0,
      cm_Type = 0, cm_MediaKey = [], cm_MediaName = [], cm_MediaSizeBytes = 0,
      cm_MediaMimeType = [], cm_EventType = 0, cm_ReplyToMessageId = [], cm_ReactionEmoji = []\<rparr>"

record ServerMessage =
  sm_RoomId :: string
  sm_UserId :: string
  sm_MessageId :: string
  sm_Text :: string
  sm_SentAtUnixMs :: int
  sm_DeliveredAtUnixMs :: int
  sm_Type :: MessageType
  sm_MediaKey :: string
  sm_MediaName :: string
  sm_MediaSizeBytes :: int
  sm_MediaMimeType :: string
  sm_MediaUrl :: string
  sm_EventType :: EventType
  sm_ReplyToMessageId :: string
  sm_ReactionEmoji :: string
  sm_IsDeleted :: bool
  sm_EditedAtUnixMs :: int
  sm_Status :: MessageStatus
  sm_IsOnline :: bool
  sm_LastSeenUnixMs :: int

definition ServerMessage_zero :: ServerMessage where
  "ServerMessage_zero =
     \<lparr>sm_RoomId = [], sm_UserId = [], sm_MessageId = [], sm_Text = [], sm_SentAtUnixMs = 0,
      sm_DeliveredAtUnixMs = 0, sm_Type = 0, sm_MediaKey = [], sm_MediaName = [],
      sm_MediaSizeBytes = 0, sm_MediaMimeType = [], sm_MediaUrl = [], sm_EventType = 0,
      sm_ReplyToMessageId = [], sm_ReactionEmoji = [], sm_IsDeleted = False,
      sm_EditedAtUnixMs = 0, sm_Status = 0, sm_IsOnline = False, sm_LastSeenUnixMs = 0\<rparr>"

record GetMessagesRequest =
  gmr_RoomId :: string
  gmr_UserId :: string
  gmr_Limit :: int
  gmr_BeforeUnixMs :: int

record GetMessagesResponse =
  gmr_Messages :: "ServerMessage list"
  gmr_HasMore :: bool

record UploadRequest =
  ur_UserId :: string
  ur_RoomId :: string
  ur_FileName :: string
  ur_MimeType :: string
  ur_FileSizeBytes :: int

record UploadResponse =
  ur_MediaKey :: string
  ur_UploadUrl :: string
  ur_ExpiresAtUnixMs :: int

record GetDownloadUrlResponse =
  du_Url :: string
  du_ExpiresAtUnixMs :: int

record CreateRoomRequest =
  crr_CreatedBy :: string
  crr_Name :: string
  crr_Type :: RoomType
  crr_MemberIds :: "string list"

record CreateRoomResponse =
  crr_RoomId :: string
  crr_RoomName :: string

record PresenceInfo =
  pi_UserId :: string
  pi_IsOnline :: bool
  pi_LastSeenUnixMs :: int

record UserRoom =
  ur_RoomID :: string
  ur_RoomType :: RoomType
  ur_Name :: string
  ur_LastMessage :: string
  ur_LastMessageAt :: int
  ur_HasUnread :: bool
  ur_MemberIds :: "string list"

record ConversationDetail =
  cd_ConversationId :: string
  cd_Type :: RoomType
  cd_Participants :: "string list"
  cd_GroupName :: string
  cd_GroupPhoto :: string
  cd_Description :: string
  cd_MemberCount :: int
  cd_LastMessage :: string
  cd_LastMessageId :: string
  cd_LastMessageAt :: int
  cd_CreatedBy :: string
  cd_CreatedAt :: int

record GroupMember =
  gmem_Id :: string
  gmem_ConversationId :: string
  gmem_UserId :: string
  gmem_Role :: string
  gmem_JoinedAt :: int
  gmem_Status :: string

record SendMessageRequest =
  smr_ConversationId :: string
  smr_SenderId :: string
  smr_Content :: string
  smr_MessageType :: MessageType
  smr_MediaKey :: string
  smr_MediaName :: string
  smr_MediaSizeBytes :: int
  smr_MediaMimeType :: string
  smr_ReplyToMessageId :: string

record EditMessageRequest =
  emr_MessageId :: string
  emr_UserId :: string
  emr_ConversationId :: string
  emr_NewContent :: string

record DeleteMessageRequest =
  dmr_MessageId :: string
  dmr_UserId :: string
  dmr_ConversationId :: string

record CreateGroupRequest =
  cgr_CreatedBy :: string
  cgr_GroupName :: string
  cgr_GroupPhoto :: string
  cgr_Description :: string
  cgr_MemberIds :: "string list"

record AddGroupMemberRequest =
  agm_ConversationId :: string
  agm_UserId :: string
  agm_OperatorId :: string
  agm_Role :: string

section \<open>The JSON form of a ServerMessage\<close>

text \<open>\<open>json.Marshal\<close> of the generated struct writes one member per exported field, in the
  order of the struct, under the tag's name, and omits zero values (\<open>omitempty\<close>).
  A JSON object is a list of members; a payload that does not parse as an object is
  \<^term>\<open>NotJson\<close>.\<close>

datatype jval = JString string | JInt int | JBool bool
type_synonym json = "(string \<times> jval) list"
datatype payload = Json json | NotJson

definition jstr :: "string \<Rightarrow> string \<Rightarrow> json" where
  "jstr tag v = (if v = [] then [] else [(tag, JString v)])"

definition jint :: "string \<Rightarrow> int \<Rightarrow> json" where
  "jint tag v = (if v = 0 then [] else [(tag, JInt v)])"

definition jbool :: "string \<Rightarrow> bool \<Rightarrow> json" where
  "jbool tag v = (if v then [(tag, JBool True)] else [])"

definition json_Marshal :: "ServerMessage \<Rightarrow> payload" where
  "json_Marshal m = Json
     (jstr ''room_id'' (sm_RoomId m) @ jstr ''user_id'' (sm_UserId m)
      @ jstr ''message_id'' (sm_MessageId m) @ jstr ''text'' (sm_Text m)
      @ jint ''sent_at_unix_ms'' (sm_SentAtUnixMs m)
      @ jint ''delivered_at_unix_ms'' (sm_DeliveredAtUnixMs m)
      @ jint ''type'' (sm_Type m) @ jstr ''media_key'' (sm_MediaKey m)
      @ jstr ''media_name'' (sm_MediaName m) @ jint ''media_size_bytes'' (sm_MediaSizeBytes m)
      @ jstr ''media_mime_type'' (sm_MediaMimeType m) @ jstr ''media_url'' (sm_MediaUrl m)
      @ jint ''event_type'' (sm_EventType m)
      @ jstr ''reply_to_message_id'' (sm_ReplyToMessageId m)
      @ jstr ''reaction_emoji'' (sm_ReactionEmoji m) @ jbool ''is_deleted'' (sm_IsDeleted m)
      @ jint ''edited_at_unix_ms'' (sm_EditedAtUnixMs m) @ jint ''status'' (sm_Status m)
      @ jbool ''is_online'' (sm_IsOnline m) @ jint ''last_seen_unix_ms'' (sm_LastSeenUnixMs m))"

definition in_int32 :: "int \<Rightarrow> bool" where
  "in_int32 n = (- 2147483648 \<le> n \<and> n \<le> 2147483647)"

text \<open>\<open>json.Unmarshal\<close> member by member: unknown names are ignored, a value of the wrong
  kind or out of the field's range is an error. Names are compared exactly and there is no null,
  which is enough for what \<open>json.Marshal\<close> writes; the decoder of Go would also accept names in
  another case and skip a null.\<close>

definition set_str :: "(string \<Rightarrow> ServerMessage) \<Rightarrow> jval \<Rightarrow> ServerMessage option" where
  "set_str upd v = (case v of JString s \<Rightarrow> Some (upd s) | _ \<Rightarrow> None)"

definition set_i64 :: "(int \<Rightarrow> ServerMessage) \<Rightarrow> jval \<Rightarrow> ServerMessage option" where
  "set_i64 upd v = (case v of JInt n \<Rightarrow> (if in_int64 n then Some (upd n) else None) | _ \<Rightarrow> None)"

definition set_i32 :: "(int \<Rightarrow> ServerMessage) \<Rightarrow> jval \<Rightarrow> ServerMessage option" where
  "set_i32 upd v = (case v of JInt n \<Rightarrow> (if in_int32 n then Some (upd n) else None) | _ \<Rightarrow> None)"

definition set_bool :: "(bool \<Rightarrow> ServerMessage) \<Rightarrow> jval \<Rightarrow> ServerMessage option" where
  "set_bool upd v = (case v of JBool b \<Rightarrow> Some (upd b) | _ \<Rightarrow> None)"

definition json_member :: "ServerMessage \<Rightarrow> string \<Rightarrow> jval \<Rightarrow> ServerMessage option" where
  "json_member m k v =
     (if k = ''room_id'' then set_str (\<lambda>x. m\<lparr>sm_RoomId := x\<rparr>) v
      else if k = ''user_id'' then set_str (\<lambda>x. m\<lparr>sm_UserId := x\<rparr>) v
      else if k = ''message_id'' then set_str (\<lambda>x. m\<lparr>sm_MessageId := x\<rparr>) v
      else if k = ''text'' then set_str (\<lambda>x. m\<lparr>sm_Text := x\<rparr>) v
      else if k = ''sent_at_unix_ms'' then set_i64 (\<lambda>x. m\<lparr>sm_SentAtUnixMs := x\<rparr>) v
      else if k = ''delivered_at_unix_ms'' then set_i64 (\<lambda>x. m\<lparr>sm_DeliveredAtUnixMs := x\<rparr>) v
      else if k = ''type'' then set_i32 (\<lambda>x. m\<lparr>sm_Type := x\<rparr>) v
      else if k = ''media_key'' then set_str (\<lambda>x. m\<lparr>sm_MediaKey := x\<rparr>) v
      else if k = ''media_name'' then set_str (\<lambda>x. m\<lparr>sm_MediaName := x\<rparr>) v
      else if k = ''media_size_bytes'' then set_i64 (\<lambda>x. m\<lparr>sm_MediaSizeBytes := x\<rparr>) v
      else if k = ''media_mime_type'' then set_str (\<lambda>x. m\<lparr>sm_MediaMimeType := x\<rparr>) v
      else if k = ''media_url'' then set_str (\<lambda>x. m\<lparr>sm_MediaUrl := x\<rparr>) v
      else if k = ''event_type'' then set_i32 (\<lambda>x. m\<lparr>sm_EventType := x\<rparr>) v
      else if k = ''reply_to_message_id'' then set_str (\<lambda>x. m\<lparr>sm_ReplyToMessageId := x\<rparr>) v
      else if k = ''reaction_emoji'' then set_str (\<lambda>x. m\<lparr>sm_ReactionEmoji := x\<rparr>) v
      else if k = ''is_deleted'' then set_bool (\<lambda>x. m\<lparr>sm_IsDeleted := x\<rparr>) v
      else if k = ''edited_at_unix_ms'' then set_i64 (\<lambda>x. m\<lparr>sm_EditedAtUnixMs := x\<rparr>) v
      else if k = ''status'' then set_i32 (\<lambda>x. m\<lparr>sm_Status := x\<rparr>) v
      else if k = ''is_online'' then set_bool (\<lambda>x. m\<lparr>sm_IsOnline := x\<rparr>) v
      else if k = ''last_seen_unix_ms'' then set_i64 (\<lambda>x. m\<lparr>sm_LastSeenUnixMs := x\<rparr>) v
      else Some m)"

fun json_members :: "ServerMessage \<Rightarrow> json \<Rightarrow> ServerMessage option" where
  "json_members m [] = Some m"
| "json_members m ((k, v) # kvs) =
     (case json_member m k v of None \<Rightarrow> None | Some m' \<Rightarrow> json_members m' kvs)"

definition json_Unmarshal :: "payload \<Rightarrow> ServerMessage option" where
  "json_Unmarshal raw =
     (case raw of NotJson \<Rightarrow> None | Json kvs \<Rightarrow> json_members ServerMessage_zero kvs)"

text \<open>The typing invariant of a message: its integers fit the Go fields.\<close>

definition ServerMessage_ok :: "ServerMessage \<Rightarrow> bool" where
  "ServerMessage_ok m \<longleftrightarrow>
     in_int64 (sm_SentAtUnixMs m) \<and> in_int64 (sm_DeliveredAtUnixMs m)
     \<and> in_int64 (sm_MediaSizeBytes m) \<and> in_int64 (sm_EditedAtUnixMs m)
     \<and> in_int64 (sm_LastSeenUnixMs m) \<and> in_int32 (sm_Type m) \<and> in_int32 (sm_EventType m)
     \<and> in_int32 (sm_Status m)"

section \<open>Lemmas\<close>

text \<open>Reading one written-or-omitted member back sets the field that was zero before, and the
  rest of the object is read from there.\<close>

lemmas json_set_simps = set_str_def set_i64_def set_i32_def set_bool_def
  jstr_def jint_def jbool_def

lemma json_read_str:
  fixes m :: ServerMessage
  shows "sm_RoomId m = [] \<Longrightarrow>
      json_members m (jstr ''room_id'' s @ rest) = json_members (m\<lparr>sm_RoomId := s\<rparr>) rest"
    and "sm_UserId m = [] \<Longrightarrow>
      json_members m (jstr ''user_id'' s @ rest) = json_members (m\<lparr>sm_UserId := s\<rparr>) rest"
    and "sm_MessageId m = [] \<Longrightarrow>
      json_members m (jstr ''message_id'' s @ rest) = json_members (m\<lparr>sm_MessageId := s\<rparr>) rest"
    and "sm_Text m = [] \<Longrightarrow>
      json_members m (jstr ''text'' s @ rest) = json_members (m\<lparr>sm_Text := s\<rparr>) rest"
    and "sm_MediaKey m = [] \<Longrightarrow>
      json_members m (jstr ''media_key'' s @ rest) = json_members (m\<lparr>sm_MediaKey := s\<rparr>) rest"
    and "sm_MediaName m = [] \<Longrightarrow>
      json_members m (jstr ''media_name'' s @ rest) = json_members (m\<lparr>sm_MediaName := s\<rparr>) rest"
    and "sm_MediaMimeType m = [] \<Longrightarrow>
      json_members m (jstr ''media_mime_type'' s @ rest) = json_members (m\<lparr>sm_MediaMimeType := s\<rparr>) rest"
    and "sm_MediaUrl m = [] \<Longrightarrow>
      json_members m (jstr ''media_url'' s @ rest) = json_members (m\<lparr>sm_MediaUrl := s\<rparr>) rest"
    and "sm_ReplyToMessageId m = [] \<Longrightarrow>
      json_members m (jstr ''reply_to_message_id'' s @ rest) = json_members (m\<lparr>sm_ReplyToMessageId := s\<rparr>) rest"
    and "sm_ReactionEmoji m = [] \<Longrightarrow>
      json_members m (jstr ''reaction_emoji'' s @ rest) = json_members (m\<lparr>sm_ReactionEmoji := s\<rparr>) rest"
  by (cases m, simp add: json_member_def json_set_simps)+

lemma json_read_i64:
  fixes m :: ServerMessage
  shows "in_int64 n \<Longrightarrow> sm_SentAtUnixMs m = 0 \<Longrightarrow>
      json_members m (jint ''sent_at_unix_ms'' n @ rest) = json_members (m\<lparr>sm_SentAtUnixMs := n\<rparr>) rest"
    and "in_int64 n \<Longrightarrow> sm_DeliveredAtUnixMs m = 0 \<Longrightarrow>
      json_members m (jint ''delivered_at_unix_ms'' n @ rest) = json_members (m\<lparr>sm_DeliveredAtUnixMs := n\<rparr>) rest"
    and "in_int64 n \<Longrightarrow> sm_MediaSizeBytes m = 0 \<Longrightarrow>
      json_members m (jint ''media_size_bytes'' n @ rest) = json_members (m\<lparr>sm_MediaSizeBytes := n\<rparr>) rest"
    and "in_int64 n \<Longrightarrow> sm_EditedAtUnixMs m = 0 \<Longrightarrow>
      json_members m (jint ''edited_at_unix_ms'' n @ rest) = json_members (m\<lparr>sm_EditedAtUnixMs := n\<rparr>) rest"
    and "in_int64 n \<Longrightarrow> sm_LastSeenUnixMs m = 0 \<Longrightarrow>
      json_members m (jint ''last_seen_unix_ms'' n @ rest) = json_members (m\<lparr>sm_LastSeenUnixMs := n\<rparr>) rest"
  by (cases m, simp add: json_member_def json_set_simps)+

lemma json_read_i32:
  fixes m :: ServerMessage
  shows "in_int32 n \<Longrightarrow> sm_Type m = 0 \<Longrightarrow>
      json_members m (jint ''type'' n @ rest) = json_members (m\<lparr>sm_Type := n\<rparr>) rest"
    and "in_int32 n \<Longrightarrow> sm_EventType m = 0 \<Longrightarrow>
      json_members m (jint ''event_type'' n @ rest) = json_members (m\<lparr>sm_EventType := n\<rparr>) rest"
    and "in_int32 n \<Longrightarrow> sm_Status m = 0 \<Longrightarrow>
      json_members m (jint ''status'' n @ rest) = json_members (m\<lparr>sm_Status := n\<rparr>) rest"
  by (cases m, simp add: json_member_def json_set_simps)+

lemma json_read_bool:
  fixes m :: ServerMessage
  shows "\<not> sm_IsDeleted m \<Longrightarrow>
      json_members m (jbool ''is_deleted'' b @ rest) = json_members (m\<lparr>sm_IsDeleted := b\<rparr>) rest"
    and "\<not> sm_IsOnline m \<Longrightarrow>
      json_members m (jbool ''is_online'' b @ rest) = json_members (m\<lparr>sm_IsOnline := b\<rparr>) rest"
  by (cases m, simp add: json_member_def json_set_simps)+

lemmas json_read_last = json_read_i64(5)[where rest = "[]", unfolded append_Nil2]

lemmas json_read = json_read_str json_read_i64 json_read_i32 json_read_bool

lemma json_Unmarshal_Marshal:
  assumes "ServerMessage_ok m"
  shows "json_Unmarshal (json_Marshal m) = Some m"
  using assms unfolding json_Unmarshal_def json_Marshal_def ServerMessage_ok_def
  by (simp add: json_read json_read_last ServerMessage_zero_def)

lemma MessageType_String_prefix:
  "t \<in> {0..4} \<Longrightarrow> \<exists>n. MessageType_String t = ''MESSAGE_TYPE_'' @ n"
proof -
  assume "t \<in> {0..4}"
  then have "t = 0 \<or> t = 1 \<or> t = 2 \<or> t = 3 \<or> t = 4" by auto
  then show ?thesis
    by (elim disjE) (simp_all add: MessageType_String_def MessageType_name_def)
qed

end
