(* ===== verification/Broker.thy ===== *)
theory Broker
  imports Pb
begin

text \<open>
  Package \<open>app/broker\<close>: buffered Go channels, the \<open>Noop\<close>, Redis and Kafka brokers.

  A channel is its buffer, its capacity and whether it is closed. A send on a closed channel
  and a second close are run-time panics; the operations return \<^term>\<open>None\<close> there. The Redis
  client and the Kafka writer and reader are third-party code: what the service calls on them
  is a parameter. The subscriber registry of \<open>KafkaBroker\<close> is the service's own and is
  modelled with its step-by-step interleaving of \<open>consume\<close> and \<open>cancel\<close>.
\<close>

section \<open>Channels\<close>

record 'a chan =
  ch_buf :: "'a list"
  ch_cap :: nat
  ch_closed :: bool

definition make_chan :: "nat \<Rightarrow> 'a chan" where
  "make_chan n = \<lparr>ch_buf = [], ch_cap = n, ch_closed = False\<rparr>"

text \<open>\<open>select { case ch <- v: default: }\<close>: a full buffer drops the value.\<close>

definition try_send :: "'a \<Rightarrow> 'a chan \<Rightarrow> 'a chan option" where
  "try_send v ch =
     (if ch_closed ch then None
      else if length (ch_buf ch) < ch_cap ch then Some (ch\<lparr>ch_buf := ch_buf ch @ [v]\<rparr>)
      else Some ch)"

definition close_chan :: "'a chan \<Rightarrow> 'a chan option" where
  "close_chan ch = (if ch_closed ch then None else Some (ch\<lparr>ch_closed := True\<rparr>))"

text \<open>\<open>for v := range ch\<close>: the next value, the end of the loop, or blocked.\<close>

datatype 'a received = Received 'a | RangeEnds | Blocks

definition range_next :: "'a chan \<Rightarrow> 'a received \<times> 'a chan" where
  "range_next ch =
     (case ch_buf ch of
        v # vs \<Rightarrow> (Received v, ch\<lparr>ch_buf := vs\<rparr>)
      | [] \<Rightarrow> (if ch_closed ch then RangeEnds else Blocks, ch))"

definition chan_ok :: "'a chan \<Rightarrow> bool" where
  "chan_ok ch \<longleftrightarrow> length (ch_buf ch) \<le> ch_cap ch"

section \<open>Redis\<close>

text \<open>A Redis client is a connection configuration; \<open>parse_url\<close> stands for \<open>redis.ParseURL\<close>.\<close>

record redis_options =
  ro_Addr :: string
  ro_Password :: string

definition NewRedisClient ::
  "(string \<Rightarrow> redis_options option) \<Rightarrow> string \<Rightarrow> string \<Rightarrow> string \<Rightarrow> redis_options option" where
  "NewRedisClient parse_url url addr password =
     (if url \<noteq> [] then parse_url url
      else if addr = [] then None
      else Some \<lparr>ro_Addr = addr, ro_Password = password\<rparr>)"

text \<open>The broker handed to the hub. A nil \<open>*RedisBroker\<close> is not one of these values: \<open>main\<close>
  checks for nil before it assigns the interface.\<close>

datatype broker_kind = NoopBroker | RedisBroker redis_options | KafkaBrokerKind

definition NewRedisBrokerFromClient :: "redis_options option \<Rightarrow> broker_kind option" where
  "NewRedisBrokerFromClient client = map_option RedisBroker client"

definition NewRedisBroker ::
  "(string \<Rightarrow> redis_options option) \<Rightarrow> string \<Rightarrow> string \<Rightarrow> broker_kind option" where
  "NewRedisBroker parse_url addr password = NewRedisBrokerFromClient (NewRedisClient parse_url [] addr password)"

definition channel_name :: "string \<Rightarrow> string" where
  "channel_name roomID = ''room:'' @ roomID"

text \<open>\<open>publish\<close> is the outcome of the client's PUBLISH on the channel.\<close>

definition Redis_Publish ::
  "(string \<Rightarrow> payload \<Rightarrow> unit go_result) \<Rightarrow> redis_options option \<Rightarrow> string \<Rightarrow> payload \<Rightarrow> unit go_result" where
  "Redis_Publish publish client roomID data =
     (case client of None \<Rightarrow> Inr () | Some _ \<Rightarrow> publish (channel_name roomID) data)"

text \<open>The channel of a subscription, and one pass of the goroutine that fills it: a receive error
  (also the end of the context it was made under) closes the channel, a payload is sent and waits
  while the buffer is full.\<close>

definition Redis_Subscribe_chan :: "payload chan" where
  "Redis_Subscribe_chan = make_chan 128"

text \<open>What \<open>Subscribe\<close> of the Redis broker sets up: its channel, whether the pump goroutine is
  started, and what the returned cancel function does. Without a client there is no pump and the
  cancel function closes the channel itself; otherwise it closes the subscription, and the pump
  closes the channel when its next receive fails.\<close>

datatype redis_cancel = CloseChannel | ClosePubSub string

definition Redis_Subscribe :: "redis_options option \<Rightarrow> string \<Rightarrow> payload chan \<times> bool \<times> redis_cancel" where
  "Redis_Subscribe client roomID =
     (case client of
        None \<Rightarrow> (Redis_Subscribe_chan, False, CloseChannel)
      | Some _ \<Rightarrow> (Redis_Subscribe_chan, True, ClosePubSub (channel_name roomID)))"

datatype pump = PumpExit "payload chan option" | PumpWaits | PumpNext "payload chan"

definition Redis_pump :: "payload option go_result \<Rightarrow> payload chan \<Rightarrow> pump" where
  "Redis_pump received ch =
     (case received of
        Inl _ \<Rightarrow> PumpExit (close_chan ch)
      | Inr None \<Rightarrow> PumpNext ch
      | Inr (Some data) \<Rightarrow>
          if length (ch_buf ch) < ch_cap ch then PumpNext (ch\<lparr>ch_buf := ch_buf ch @ [data]\<rparr>) else PumpWaits)"

section \<open>Noop\<close>

definition Noop_Publish :: "string \<Rightarrow> payload \<Rightarrow> unit go_result" where
  "Noop_Publish roomID data = Inr ()"

definition Noop_cancel :: "payload chan \<Rightarrow> payload chan option" where
  "Noop_cancel ch = close_chan ch"

definition Noop_Subscribe_chan :: "payload chan" where
  "Noop_Subscribe_chan = make_chan 0"

section \<open>Kafka\<close>

record KafkaConfig =
  kc_Brokers :: "string list"
  kc_Topic :: string
  kc_GroupID :: string
  kc_Partition :: int

record kafka_message =
  km_Key :: string
  km_Value :: payload

text \<open>\<open>kb_subs\<close> is the registry under the mutex, \<open>kb_chans\<close> the channels by address, and
  \<open>kb_written\<close> the messages handed to the asynchronous writer.\<close>

record KafkaBroker =
  kb_config :: KafkaConfig
  kb_subs :: "string \<rightharpoonup> nat list"
  kb_chans :: "nat \<rightharpoonup> payload chan"
  kb_next :: nat
  kb_written :: "kafka_message list"

definition NewKafkaBroker :: "KafkaConfig \<Rightarrow> KafkaBroker go_result" where
  "NewKafkaBroker cfg =
     (if kc_Brokers cfg = [] then Inl ''kafka: at least one broker address is required''
      else let cfg1 = (if kc_Topic cfg = [] then cfg\<lparr>kc_Topic := ''chat-messages''\<rparr> else cfg);
               cfg2 = (if kc_GroupID cfg1 = [] then cfg1\<lparr>kc_GroupID := ''chat-service''\<rparr> else cfg1)
           in Inr \<lparr>kb_config = cfg2, kb_subs = Map.empty, kb_chans = Map.empty, kb_next = 0,
                   kb_written = []\<rparr>)"

text \<open>\<open>write\<close> is the outcome of \<open>WriteMessages\<close> of kafka-go.\<close>

definition Kafka_Publish ::
  "(kafka_message \<Rightarrow> unit go_result) \<Rightarrow> string \<Rightarrow> payload \<Rightarrow> KafkaBroker
   \<Rightarrow> unit go_result \<times> KafkaBroker" where
  "Kafka_Publish write roomID data b =
     (let msg = \<lparr>km_Key = roomID, km_Value = data\<rparr>
      in case write msg of
           Inl e \<Rightarrow> (Inl e, b)
         | Inr _ \<Rightarrow> (Inr (), b\<lparr>kb_written := kb_written b @ [msg]\<rparr>))"

definition kafka_list :: "KafkaBroker \<Rightarrow> string \<Rightarrow> nat list" where
  "kafka_list b roomID = (case kb_subs b roomID of None \<Rightarrow> [] | Some l \<Rightarrow> l)"

definition Kafka_Subscribe :: "string \<Rightarrow> KafkaBroker \<Rightarrow> nat \<times> KafkaBroker" where
  "Kafka_Subscribe roomID b =
     (let ch = kb_next b
      in (ch, b\<lparr>kb_chans := (kb_chans b)(ch \<mapsto> make_chan 256),
               kb_subs := (kb_subs b)(roomID \<mapsto> kafka_list b roomID @ [ch]),
               kb_next := Suc ch\<rparr>))"

text \<open>The cancel function of a subscription: drop the first occurrence of the channel,
  delete an empty list, close the channel.\<close>

definition Kafka_cancel :: "string \<Rightarrow> nat \<Rightarrow> KafkaBroker \<Rightarrow> KafkaBroker option" where
  "Kafka_cancel roomID ch b =
     (let l = remove1 ch (kafka_list b roomID);
          subs = (if l = [] then (kb_subs b)(roomID := None) else (kb_subs b)(roomID \<mapsto> l))
      in case kb_chans b ch of
           None \<Rightarrow> None
         | Some c \<Rightarrow>
             (case close_chan c of
                None \<Rightarrow> None
              | Some c' \<Rightarrow> Some (b\<lparr>kb_subs := subs, kb_chans := (kb_chans b)(ch \<mapsto> c')\<rparr>)))"

text \<open>\<open>consume\<close> takes a snapshot of the channel list under the read lock and dispatches after
  releasing it: two steps between which a cancel can run.\<close>

definition consume_snapshot :: "kafka_message \<Rightarrow> KafkaBroker \<Rightarrow> nat list" where
  "consume_snapshot msg b = kafka_list b (km_Key msg)"

fun consume_dispatch :: "payload \<Rightarrow> nat list \<Rightarrow> KafkaBroker \<Rightarrow> KafkaBroker option" where
  "consume_dispatch data [] b = Some b"
| "consume_dispatch data (ch # chs) b =
     (case kb_chans b ch of
        None \<Rightarrow> None
      | Some c \<Rightarrow>
          (case try_send data c of
             None \<Rightarrow> None
           | Some c' \<Rightarrow> consume_dispatch data chs (b\<lparr>kb_chans := (kb_chans b)(ch \<mapsto> c')\<rparr>)))"

text \<open>The snapshot is a slice that shares the registry's backing array, and
  \<open>append(list[:i], list[i+1:]...)\<close> shifts that array in place: after a cancel the snapshot of
  unchanged length holds the remaining channels and its last element once more.\<close>

definition aliased_snapshot :: "nat \<Rightarrow> nat list \<Rightarrow> nat list" where
  "aliased_snapshot ch snap = (if ch \<in> set snap then remove1 ch snap @ [last snap] else snap)"

text \<open>The loop body of \<open>consume\<close> with nothing in between; the commit of the offset changes
  no state of the service.\<close>

definition consume_one :: "kafka_message \<Rightarrow> KafkaBroker \<Rightarrow> KafkaBroker option" where
  "consume_one msg b = consume_dispatch (km_Value msg) (consume_snapshot msg b) b"

text \<open>The loop of \<open>consume\<close> over the outcomes of \<open>FetchMessage\<close>: it returns when the context is
  cancelled, backs off and goes on after any other error, and dispatches a message. The first
  component says whether the loop has returned; the rest of the outcomes is then unread.\<close>

datatype fetch = FetchCancelled | FetchError string | Fetched kafka_message

fun consume :: "fetch list \<Rightarrow> KafkaBroker \<Rightarrow> (bool \<times> KafkaBroker) option" where
  "consume [] b = Some (False, b)"
| "consume (FetchCancelled # _) b = Some (True, b)"
| "consume (FetchError _ # fs) b = consume fs b"
| "consume (Fetched msg # fs) b =
     (case consume_one msg b of None \<Rightarrow> None | Some b' \<Rightarrow> consume fs b')"

text \<open>\<open>Close\<close> of a possibly nil broker; \<open>close_writer\<close> is the outcome of the writer's own
  \<open>Close\<close>. The consumer is not touched.\<close>

definition Kafka_Close :: "(KafkaConfig \<Rightarrow> unit go_result) \<Rightarrow> KafkaBroker option \<Rightarrow> unit go_result" where
  "Kafka_Close close_writer b =
     (case b of None \<Rightarrow> Inr () | Some k \<Rightarrow> close_writer (kb_config k))"

text \<open>Registry invariant: every registered channel exists, is open and is registered once,
  and no list is empty.\<close>

definition kafka_inv :: "KafkaBroker \<Rightarrow> bool" where
  "kafka_inv b \<longleftrightarrow>
     (\<forall>room l. kb_subs b room = Some l \<longrightarrow> l \<noteq> [] \<and> distinct l
        \<and> (\<forall>ch\<in>set l. \<exists>c. kb_chans b ch = Some c \<and> \<not> ch_closed c \<and> ch < kb_next b))
     \<and> (\<forall>r1 r2 ch. r1 \<noteq> r2 \<longrightarrow> ch \<in> set (kafka_list b r1) \<longrightarrow> ch \<notin> set (kafka_list b r2))"

section \<open>Lemmas\<close>

lemma make_chan_simps [simp]:
  "ch_buf (make_chan n) = []" "ch_cap (make_chan n) = n" "ch_closed (make_chan n) = False"
  by (simp_all add: make_chan_def)

lemma try_send_open: "\<not> ch_closed ch \<Longrightarrow> \<exists>ch'. try_send v ch = Some ch'"
  by (simp add: try_send_def)

lemma try_send_chan_ok: "try_send v ch = Some ch' \<Longrightarrow> chan_ok ch \<Longrightarrow> chan_ok ch'"
  by (auto simp: try_send_def chan_ok_def split: if_splits)

lemma try_send_frame:
  "try_send v ch = Some ch' \<Longrightarrow> ch_cap ch' = ch_cap ch \<and> \<not> ch_closed ch'"
  by (auto simp: try_send_def split: if_splits)

lemma kafka_inv_open:
  assumes "kafka_inv b" "ch \<in> set (kafka_list b room)"
  shows "\<exists>c. kb_chans b ch = Some c \<and> \<not> ch_closed c \<and> ch < kb_next b"
proof -
  obtain l where "kb_subs b room = Some l" "ch \<in> set l"
    using assms(2) by (cases "kb_subs b room") (auto simp: kafka_list_def)
  with assms(1) show ?thesis unfolding kafka_inv_def by blast
qed

lemma consume_dispatch_frame:
  "consume_dispatch data chs b = Some b' \<Longrightarrow>
   kb_subs b' = kb_subs b \<and> kb_next b' = kb_next b \<and> kb_written b' = kb_written b
   \<and> (\<forall>ch. ch \<notin> set chs \<longrightarrow> kb_chans b' ch = kb_chans b ch)"
proof (induction chs arbitrary: b)
  case (Cons ch chs)
  then obtain c c' where "kb_chans b ch = Some c" "try_send data c = Some c'"
    "consume_dispatch data chs (b\<lparr>kb_chans := (kb_chans b)(ch \<mapsto> c')\<rparr>) = Some b'"
    by (auto split: option.splits)
  with Cons.IH show ?case by fastforce
qed simp

lemma consume_dispatch_delivers:
  assumes "distinct chs" "\<forall>ch\<in>set chs. \<exists>c. kb_chans b ch = Some c \<and> \<not> ch_closed c"
  shows "\<exists>b'. consume_dispatch data chs b = Some b' \<and>
    (\<forall>ch\<in>set chs. kb_chans b' ch = try_send data (the (kb_chans b ch)))"
  using assms
proof (induction chs arbitrary: b)
  case (Cons ch chs)
  then obtain c where c: "kb_chans b ch = Some c" "\<not> ch_closed c" by auto
  obtain c' where c': "try_send data c = Some c'" using try_send_open[OF c(2)] by blast
  let ?b = "b\<lparr>kb_chans := (kb_chans b)(ch \<mapsto> c')\<rparr>"
  have "\<forall>x\<in>set chs. \<exists>c. kb_chans ?b x = Some c \<and> \<not> ch_closed c"
    using Cons.prems by auto
  with Cons.IH[of ?b] Cons.prems obtain b' where b': "consume_dispatch data chs ?b = Some b'"
    "\<forall>x\<in>set chs. kb_chans b' x = try_send data (the (kb_chans ?b x))" by auto
  then have "kb_chans b' ch = Some c'"
    using consume_dispatch_frame[OF b'(1)] Cons.prems(1) by simp
  moreover have "\<forall>x\<in>set chs. kb_chans b' x = try_send data (the (kb_chans b x))"
    using b'(2) Cons.prems(1) by fastforce
  moreover have "consume_dispatch data (ch # chs) b = Some b'"
    using c(1) c' b'(1) by simp
  ultimately show ?case using c(1) c' by (intro exI[of _ b']) simp
qed simp

lemma kafka_list_distinct: "kafka_inv b \<Longrightarrow> distinct (kafka_list b room)"
  by (auto simp: kafka_inv_def kafka_list_def split: option.splits)

lemma kafka_list_Subscribe:
  "kafka_list (snd (Kafka_Subscribe room b)) r =
     (if r = room then kafka_list b room @ [kb_next b] else kafka_list b r)"
  by (simp add: Kafka_Subscribe_def kafka_list_def Let_def)

lemma Kafka_Subscribe_inv:
  assumes inv: "kafka_inv b"
  shows "kafka_inv (snd (Kafka_Subscribe room b))"
proof -
  let ?b = "snd (Kafka_Subscribe room b)"
  have fresh: "kb_next b \<notin> set (kafka_list b r)" for r
    using kafka_inv_open[OF inv] by fastforce
  have nxt: "kb_next ?b = Suc (kb_next b)"
    and chans: "kb_chans ?b = (kb_chans b)(kb_next b \<mapsto> make_chan 256)"
    by (simp_all add: Kafka_Subscribe_def Let_def)
  have "l \<noteq> [] \<and> distinct l \<and> (\<forall>ch\<in>set l. \<exists>c. kb_chans ?b ch = Some c \<and> \<not> ch_closed c \<and> ch < kb_next ?b)"
    if l: "kb_subs ?b r = Some l" for r l
  proof -
    have kl: "l = kafka_list ?b r" using l by (simp add: kafka_list_def)
    have ne: "l \<noteq> []"
      using l inv by (auto simp: Kafka_Subscribe_def Let_def kafka_inv_def split: if_splits)
    have "\<exists>c. kb_chans ?b ch = Some c \<and> \<not> ch_closed c \<and> ch < kb_next ?b" if "ch \<in> set l" for ch
      using that kafka_inv_open[OF inv, of ch room] kafka_inv_open[OF inv, of ch r] fresh
      unfolding kl kafka_list_Subscribe nxt chans by (fastforce split: if_splits)
    moreover have "distinct l"
      unfolding kl kafka_list_Subscribe using kafka_list_distinct[OF inv] fresh by simp
    ultimately show ?thesis using ne by blast
  qed
  moreover have "ch \<notin> set (kafka_list ?b r2)"
    if "r1 \<noteq> r2" "ch \<in> set (kafka_list ?b r1)" for r1 r2 ch
    using that inv fresh unfolding kafka_list_Subscribe kafka_inv_def
    by (auto split: if_splits)
  ultimately show ?thesis unfolding kafka_inv_def by blast
qed

lemma kafka_list_cancel:
  "Kafka_cancel room ch b = Some b' \<Longrightarrow>
   kafka_list b' r = (if r = room then remove1 ch (kafka_list b room) else kafka_list b r)"
  by (auto simp: Kafka_cancel_def kafka_list_def Let_def split: option.splits if_splits)

lemma Kafka_cancel_inv:
  assumes inv: "kafka_inv b" and ch: "ch \<in> set (kafka_list b room)"
    and eq: "Kafka_cancel room ch b = Some b'"
  shows "kafka_inv b'"
proof -
  have others: "kb_chans b' x = kb_chans b x" if "x \<noteq> ch" for x
    using eq that by (auto simp: Kafka_cancel_def Let_def split: option.splits)
  have ne: "kb_subs b q \<noteq> Some []" for q
    using inv unfolding kafka_inv_def by blast
  have nxt: "kb_next b' = kb_next b"
    using eq by (auto simp: Kafka_cancel_def Let_def split: option.splits)
  have gone: "ch \<notin> set (kafka_list b' r)" for r
    using ch inv kafka_list_distinct[OF inv]
    unfolding kafka_list_cancel[OF eq] kafka_inv_def by auto
  have sub: "set (kafka_list b' r) \<subseteq> set (kafka_list b r)" for r
    unfolding kafka_list_cancel[OF eq] using set_remove1_subset[of ch "kafka_list b room"] by auto
  have "l \<noteq> [] \<and> distinct l \<and> (\<forall>x\<in>set l. \<exists>c. kb_chans b' x = Some c \<and> \<not> ch_closed c \<and> x < kb_next b')"
    if l: "kb_subs b' r = Some l" for r l
  proof -
    have kl: "l = kafka_list b' r" using l by (simp add: kafka_list_def)
    have "\<exists>c. kb_chans b' x = Some c \<and> \<not> ch_closed c \<and> x < kb_next b'" if "x \<in> set l" for x
    proof -
      have "x \<in> set (kafka_list b r)" "x \<noteq> ch" using that sub[of r] gone[of r] kl by auto
      then show ?thesis using kafka_inv_open[OF inv, of x r] others[of x] nxt by simp
    qed
    moreover have "distinct l"
      unfolding kl kafka_list_cancel[OF eq] using kafka_list_distinct[OF inv] by simp
    moreover have "l \<noteq> []"
      using l eq ne by (auto simp: Kafka_cancel_def Let_def split: option.splits if_splits)
    ultimately show ?thesis by blast
  qed
  moreover have "x \<notin> set (kafka_list b' r2)"
    if "r1 \<noteq> r2" "x \<in> set (kafka_list b' r1)" for r1 r2 x
    using that sub inv unfolding kafka_inv_def by blast
  ultimately show ?thesis unfolding kafka_inv_def by blast
qed

lemma Kafka_cancel_succeeds:
  "kafka_inv b \<Longrightarrow> ch \<in> set (kafka_list b room) \<Longrightarrow> \<exists>b'. Kafka_cancel room ch b = Some b'"
  using kafka_inv_open[of b ch room]
  by (auto simp: Kafka_cancel_def close_chan_def Let_def)

lemma consume_dispatch_closed:
  assumes "ch \<in> set chs" "kb_chans b ch = Some c" "ch_closed c"
  shows "consume_dispatch data chs b = None"
  using assms
proof (induction chs arbitrary: b)
  case (Cons x chs)
  show ?case
  proof (cases "x = ch")
    case True
    then show ?thesis using Cons.prems by (simp add: try_send_def)
  next
    case False
    then show ?thesis using Cons by (auto split: option.split)
  qed
qed simp

text \<open>A message read from Kafka goes to the channels of its room's subscribers, to each of them
  once, dropped for a subscriber whose buffer is full; no other channel and no registry entry
  changes, and the dispatch cannot panic while no cancel runs in between.\<close>

lemma consume_one_delivers:
  assumes inv: "kafka_inv b"
  shows "\<exists>b'. consume_one msg b = Some b' \<and> kafka_inv b'
    \<and> (\<forall>ch. kb_chans b' ch = (if ch \<in> set (kafka_list b (km_Key msg))
         then try_send (km_Value msg) (the (kb_chans b ch)) else kb_chans b ch))
    \<and> kb_subs b' = kb_subs b"
proof -
  let ?l = "kafka_list b (km_Key msg)"
  have "distinct ?l" "\<forall>ch\<in>set ?l. \<exists>c. kb_chans b ch = Some c \<and> \<not> ch_closed c"
    using kafka_list_distinct[OF inv] kafka_inv_open[OF inv] by blast+
  then obtain b' where b': "consume_dispatch (km_Value msg) ?l b = Some b'"
    "\<forall>ch\<in>set ?l. kb_chans b' ch = try_send (km_Value msg) (the (kb_chans b ch))"
    using consume_dispatch_delivers by blast
  note fr = consume_dispatch_frame[OF b'(1)]
  have lists: "kafka_list b' r = kafka_list b r" for r using fr by (simp add: kafka_list_def)
  have "\<exists>c. kb_chans b' ch = Some c \<and> \<not> ch_closed c \<and> ch < kb_next b'" if ch: "ch \<in> set (kafka_list b r)" for ch r
  proof (cases "ch \<in> set ?l")
    case True
    obtain c where c: "kb_chans b ch = Some c" "\<not> ch_closed c" "ch < kb_next b" using kafka_inv_open[OF inv ch] by blast
    obtain c' where c': "try_send (km_Value msg) c = Some c'" using try_send_open[OF c(2)] by blast
    then show ?thesis using b'(2) True c fr try_send_frame[OF c'] by auto
  next
    case False
    then show ?thesis using kafka_inv_open[OF inv ch] fr by auto
  qed
  note opened = this
  have "l \<noteq> [] \<and> distinct l \<and> (\<forall>ch\<in>set l. \<exists>c. kb_chans b' ch = Some c \<and> \<not> ch_closed c \<and> ch < kb_next b')"
    if l: "kb_subs b' room = Some l" for room l
  proof -
    have sub: "kb_subs b room = Some l" using l fr by simp
    then have "kafka_list b room = l" by (simp add: kafka_list_def)
    then show ?thesis using opened[of _ room] inv sub unfolding kafka_inv_def by blast
  qed
  then have "kafka_inv b'" using inv unfolding kafka_inv_def lists by blast
  then show ?thesis using b' fr by (intro exI[of _ b']) (auto simp: consume_one_def consume_snapshot_def)
qed

section \<open>Properties\<close>

text \<open>Subscribing and cancelling keep the registry well formed: lists without duplicates or
  empty entries, only open channels, each registered for one room; a cancel of a registered channel
  removes that channel and succeeds.\<close>

lemma kafka_registry_inv:
  assumes "kafka_inv b" "ch \<in> set (kafka_list b room)"
  shows "kafka_inv (snd (Kafka_Subscribe room' b))
    \<and> (\<exists>b'. Kafka_cancel room ch b = Some b' \<and> kafka_inv b'
         \<and> set (kafka_list b' room) = set (kafka_list b room) - {ch})"
proof -
  obtain b' where b': "Kafka_cancel room ch b = Some b'" using Kafka_cancel_succeeds[OF assms] by blast
  then show ?thesis
    using Kafka_Subscribe_inv[OF assms(1)] Kafka_cancel_inv[OF assms b'] kafka_list_cancel[OF b', of room]
      kafka_list_distinct[OF assms(1), of room] by auto
qed

text \<open>A cancel that runs after the consumer has taken its snapshot and before it has sent makes
  the consumer send on the closed channel, which panics, when the cancelled channel is the last of
  its room.\<close>

lemma consume_panics_after_cancel:
  assumes "kafka_inv b" "consume_snapshot msg b = snap" "snap \<noteq> []" "ch = last snap"
    "Kafka_cancel (km_Key msg) ch b = Some b'"
  shows "consume_dispatch (km_Value msg) (aliased_snapshot ch snap) b' = None"
proof -
  have "ch \<in> set snap" using assms(3,4) by simp
  then have "ch \<in> set (aliased_snapshot ch snap)" using assms(4) by (simp add: aliased_snapshot_def)
  moreover obtain c where "kb_chans b' ch = Some c" "ch_closed c"
    using assms(5) by (auto simp: Kafka_cancel_def Let_def close_chan_def split: option.splits if_splits)
  ultimately show ?thesis by (rule consume_dispatch_closed)
qed

end
