(* ===== verification/Hub.thy ===== *)
theory Hub
  imports Broker
begin

unbundle bit_operations_syntax

text \<open>
  \<open>app/chat/hub.go\<close>: the hub of one pod, its 64 sharded room tables, registration of
  clients and local fan-out.

  Clients are pointers (\<open>cptr\<close>) into a heap of client objects; the hub's tables hold
  pointers. The calls the hub makes on its broker are recorded in order in \<open>h_calls\<close>.
  The regions under a shard's mutex are atomic; the atomic counter is updated outside them, so
  the step relation \<open>hub_step\<close> separates the two. A Go panic is \<^term>\<open>None\<close>.
\<close>

section \<open>Sharding\<close>

definition numShards :: nat where
  "numShards = 64"

text \<open>FNV-1a over the bytes of the room id, on \<open>uint32\<close>.\<close>

definition fnv1a :: "string \<Rightarrow> 32 word" where
  "fnv1a s = foldl (\<lambda>hash c. (hash XOR of_char c) * 16777619) 2166136261 s"

definition shard_index :: "string \<Rightarrow> nat" where
  "shard_index roomID = unat (fnv1a roomID mod 64)"

type_synonym cptr = nat

text \<open>\<open>r_sub\<close> names the subscription whose cancel function the room holds.\<close>

record room =
  r_clients :: "cptr list"
  r_sub :: nat

type_synonym shards = "(string \<rightharpoonup> room) list"

definition shards_empty :: shards where
  "shards_empty = replicate numShards Map.empty"

definition shard_lookup :: "shards \<Rightarrow> string \<Rightarrow> room option" where
  "shard_lookup sh roomID = (sh ! shard_index roomID) roomID"

definition shard_update :: "string \<Rightarrow> room \<Rightarrow> shards \<Rightarrow> shards" where
  "shard_update roomID r sh =
     sh[shard_index roomID := (sh ! shard_index roomID)(roomID \<mapsto> r)]"

definition shard_delete :: "string \<Rightarrow> shards \<Rightarrow> shards" where
  "shard_delete roomID sh =
     sh[shard_index roomID := (sh ! shard_index roomID)(roomID := None)]"

definition shards_ok :: "shards \<Rightarrow> bool" where
  "shards_ok sh \<longleftrightarrow> length sh = numShards"

section \<open>Hub state\<close>

record Client =
  c_UserID :: string
  c_RoomID :: string
  c_Send :: "ServerMessage chan"

definition NewClient :: "string \<Rightarrow> string \<Rightarrow> Client" where
  "NewClient userID roomID = \<lparr>c_UserID = userID, c_RoomID = roomID, c_Send = make_chan 256\<rparr>"

text \<open>A subscription is made under the context of the stream that calls \<open>Register\<close>.\<close>

datatype broker_call =
    CallSubscribe nat string nat \<comment> \<open>context, room, subscription\<close>
  | CallCancel nat
  | CallPublish string payload

record Hub =
  h_shards :: shards
  h_connCnt :: int
  h_maxConns :: int
  h_heap :: "cptr \<rightharpoonup> Client"
  h_nextsub :: nat
  h_calls :: "broker_call list"

definition NewHubWithLimit :: "int \<Rightarrow> Hub" where
  "NewHubWithLimit maxConns =
     \<lparr>h_shards = shards_empty, h_connCnt = 0, h_maxConns = maxConns, h_heap = Map.empty,
      h_nextsub = 0, h_calls = []\<rparr>"

definition NewHub :: Hub where
  "NewHub = NewHubWithLimit 0"

definition ConnCount :: "Hub \<Rightarrow> int" where
  "ConnCount h = h_connCnt h"

definition AtCapacity :: "Hub \<Rightarrow> bool" where
  "AtCapacity h \<longleftrightarrow> h_maxConns h > 0 \<and> h_connCnt h \<ge> h_maxConns h"

definition connCnt_Add :: "int \<Rightarrow> Hub \<Rightarrow> Hub" where
  "connCnt_Add n h = h\<lparr>h_connCnt := h_connCnt h + n\<rparr>"

section \<open>Operations\<close>

text \<open>The region of \<open>Register\<close> under the shard's lock.\<close>

definition register_locked :: "nat \<Rightarrow> cptr \<Rightarrow> Client \<Rightarrow> Hub \<Rightarrow> Hub" where
  "register_locked ctx p c h =
     (case shard_lookup (h_shards h) (c_RoomID c) of
        None \<Rightarrow>
          (let sub = h_nextsub h
           in h\<lparr>h_shards := shard_update (c_RoomID c) \<lparr>r_clients = [p], r_sub = sub\<rparr> (h_shards h),
               h_nextsub := Suc sub,
               h_calls := h_calls h @ [CallSubscribe ctx (c_RoomID c) sub]\<rparr>)
      | Some r \<Rightarrow>
          h\<lparr>h_shards := shard_update (c_RoomID c)
               (r\<lparr>r_clients := List.insert p (r_clients r)\<rparr>) (h_shards h)\<rparr>)"

definition Register :: "nat \<Rightarrow> cptr \<Rightarrow> Client \<Rightarrow> Hub \<Rightarrow> Hub" where
  "Register ctx p c h = connCnt_Add 1 (register_locked ctx p c h)"

text \<open>The region of \<open>Unregister\<close> under the shard's lock; closing a closed channel panics.\<close>

definition unregister_locked :: "cptr \<Rightarrow> Client \<Rightarrow> Hub \<Rightarrow> Hub option" where
  "unregister_locked p c h =
     (case shard_lookup (h_shards h) (c_RoomID c) of
        None \<Rightarrow> Some h
      | Some r \<Rightarrow>
          (case close_chan (c_Send c) of
             None \<Rightarrow> None
           | Some ch \<Rightarrow>
               (let r' = r\<lparr>r_clients := remove1 p (r_clients r)\<rparr>;
                    h' = h\<lparr>h_heap := (h_heap h)(p \<mapsto> c\<lparr>c_Send := ch\<rparr>)\<rparr>
                in Some (if r_clients r' = []
                         then h'\<lparr>h_shards := shard_delete (c_RoomID c) (h_shards h),
                                 h_calls := h_calls h @ [CallCancel (r_sub r)]\<rparr>
                         else h'\<lparr>h_shards := shard_update (c_RoomID c) r' (h_shards h)\<rparr>))))"

definition Unregister :: "cptr \<Rightarrow> Client \<Rightarrow> Hub \<Rightarrow> Hub option" where
  "Unregister p c h = map_option (connCnt_Add (- 1)) (unregister_locked p c h)"

text \<open>The loop of \<open>Broadcast\<close> over the clients of the room. The program holds the read lock of
  the shard, so no client joins or leaves the room meanwhile, but two broadcasts of the room may
  take their turns client by client; here each runs as a whole. Every client is offered the same
  messages either way, in an order that may then differ from client to client.\<close>

fun deliver :: "ServerMessage \<Rightarrow> cptr list \<Rightarrow> (cptr \<rightharpoonup> Client) \<Rightarrow> (cptr \<rightharpoonup> Client) option" where
  "deliver msg [] H = Some H"
| "deliver msg (p # ps) H =
     (case H p of
        None \<Rightarrow> None
      | Some c \<Rightarrow>
          (case try_send msg (c_Send c) of
             None \<Rightarrow> None
           | Some ch \<Rightarrow> deliver msg ps (H(p \<mapsto> c\<lparr>c_Send := ch\<rparr>))))"

definition Broadcast :: "ServerMessage \<Rightarrow> bool \<Rightarrow> Hub \<Rightarrow> Hub option" where
  "Broadcast msg publish h =
     (case (case shard_lookup (h_shards h) (sm_RoomId msg) of
              None \<Rightarrow> Some (h_heap h)
            | Some r \<Rightarrow> deliver msg (r_clients r) (h_heap h)) of
        None \<Rightarrow> None
      | Some H \<Rightarrow>
          Some (h\<lparr>h_heap := H,
                 h_calls := h_calls h @
                   (if publish then [CallPublish (sm_RoomId msg) (json_Marshal msg)] else [])\<rparr>))"

text \<open>One iteration of \<open>forwardFromBroker\<close>; \<open>now\<close> is the clock in milliseconds.\<close>

definition forwardFromBroker :: "int \<Rightarrow> payload \<Rightarrow> Hub \<Rightarrow> Hub option" where
  "forwardFromBroker now raw h =
     (case json_Unmarshal raw of
        None \<Rightarrow> Some h
      | Some m \<Rightarrow>
          Broadcast (if sm_DeliveredAtUnixMs m = 0 then m\<lparr>sm_DeliveredAtUnixMs := now\<rparr> else m)
            False h)"

section \<open>Specification\<close>

definition in_room :: "Hub \<Rightarrow> string \<Rightarrow> cptr \<Rightarrow> bool" where
  "in_room h roomID p \<longleftrightarrow>
     (\<exists>r. shard_lookup (h_shards h) roomID = Some r \<and> p \<in> set (r_clients r))"

definition registered :: "Hub \<Rightarrow> cptr set" where
  "registered h = {p. \<exists>roomID. in_room h roomID p}"

text \<open>What a broadcast does to one client of the room: the message is queued unless the
  client's buffer is full.\<close>

definition offer :: "ServerMessage \<Rightarrow> Client \<Rightarrow> Client" where
  "offer msg c =
     (if length (ch_buf (c_Send c)) < ch_cap (c_Send c)
      then c\<lparr>c_Send := (c_Send c)\<lparr>ch_buf := ch_buf (c_Send c) @ [msg]\<rparr>\<rparr> else c)"

definition client_ok :: "string \<Rightarrow> Client \<Rightarrow> bool" where
  "client_ok roomID c \<longleftrightarrow>
     c_RoomID c = roomID \<and> \<not> ch_closed (c_Send c) \<and> chan_ok (c_Send c) \<and> ch_cap (c_Send c) = 256"

text \<open>The hub invariant: the table has its 64 shards; a room that is present has at least one
  client, each once; every client of a room exists, belongs to that room and has an open
  channel; finitely many clients are registered.\<close>

definition hub_inv :: "Hub \<Rightarrow> bool" where
  "hub_inv h \<longleftrightarrow>
     shards_ok (h_shards h) \<and> finite (registered h)
     \<and> (\<forall>roomID r. shard_lookup (h_shards h) roomID = Some r \<longrightarrow>
          r_clients r \<noteq> [] \<and> distinct (r_clients r)
          \<and> (\<forall>p\<in>set (r_clients r). \<exists>c. h_heap h p = Some c \<and> client_ok roomID c))"

section \<open>Steps of a pod\<close>

text \<open>The hub together with the calls that have left the locked region and not yet updated
  the connection counter. \<open>connect\<close> and \<open>disconnect\<close> are the locked regions; \<open>drain\<close> is
  the sender goroutine of one stream taking its next message.\<close>

record hub_sys =
  hs_hub :: Hub
  hs_adds :: nat
  hs_subs :: nat

definition alloc :: "cptr \<Rightarrow> Client \<Rightarrow> Hub \<Rightarrow> Hub" where
  "alloc p c h = h\<lparr>h_heap := (h_heap h)(p \<mapsto> c)\<rparr>"

inductive hub_step :: "hub_sys \<Rightarrow> hub_sys \<Rightarrow> bool" where
  connect: "h_heap (hs_hub s) p = None \<Longrightarrow> c = NewClient u r \<Longrightarrow>
    hub_step s (s\<lparr>hs_hub := register_locked ctx p c (alloc p c (hs_hub s)),
                  hs_adds := Suc (hs_adds s)\<rparr>)"
| count_up: "hs_adds s = Suc n \<Longrightarrow>
    hub_step s (s\<lparr>hs_hub := connCnt_Add 1 (hs_hub s), hs_adds := n\<rparr>)"
| disconnect: "p \<in> registered (hs_hub s) \<Longrightarrow> h_heap (hs_hub s) p = Some c \<Longrightarrow>
    unregister_locked p c (hs_hub s) = Some h \<Longrightarrow>
    hub_step s (s\<lparr>hs_hub := h, hs_subs := Suc (hs_subs s)\<rparr>)"
| count_down: "hs_subs s = Suc n \<Longrightarrow>
    hub_step s (s\<lparr>hs_hub := connCnt_Add (- 1) (hs_hub s), hs_subs := n\<rparr>)"
| broadcast: "Broadcast msg publish (hs_hub s) = Some h \<Longrightarrow> hub_step s (s\<lparr>hs_hub := h\<rparr>)"
| forward: "forwardFromBroker now raw (hs_hub s) = Some h \<Longrightarrow> hub_step s (s\<lparr>hs_hub := h\<rparr>)"
| drain: "h_heap (hs_hub s) p = Some c \<Longrightarrow> range_next (c_Send c) = (Received m, ch) \<Longrightarrow>
    hub_step s (s\<lparr>hs_hub := alloc p (c\<lparr>c_Send := ch\<rparr>) (hs_hub s)\<rparr>)"

inductive hub_reachable :: "hub_sys \<Rightarrow> bool" where
  start: "hub_reachable \<lparr>hs_hub = NewHubWithLimit n, hs_adds = 0, hs_subs = 0\<rparr>"
| step: "hub_reachable s \<Longrightarrow> hub_step s t \<Longrightarrow> hub_reachable t"

definition sys_inv :: "hub_sys \<Rightarrow> bool" where
  "sys_inv s \<longleftrightarrow> hub_inv (hs_hub s)
     \<and> h_connCnt (hs_hub s) = int (card (registered (hs_hub s))) - int (hs_adds s) + int (hs_subs s)"

section \<open>The interface of a room table\<close>

locale room_map =
  fixes empty :: "'t"
    and lookup :: "'t \<Rightarrow> string \<Rightarrow> 'r option"
    and update :: "string \<Rightarrow> 'r \<Rightarrow> 't \<Rightarrow> 't"
    and delete :: "string \<Rightarrow> 't \<Rightarrow> 't"
    and invar :: "'t \<Rightarrow> bool"
  assumes invar_empty: "invar empty"
    and lookup_empty: "lookup empty k = None"
    and invar_update: "invar t \<Longrightarrow> invar (update k v t)"
    and lookup_update: "invar t \<Longrightarrow> lookup (update k v t) j = (if j = k then Some v else lookup t j)"
    and invar_delete: "invar t \<Longrightarrow> invar (delete k t)"
    and lookup_delete: "invar t \<Longrightarrow> lookup (delete k t) j = (if j = k then None else lookup t j)"
begin

lemma lookup_update_update:
  "invar t \<Longrightarrow> lookup (update k v (update k w t)) = lookup (update k v t)"
  by (rule ext) (simp add: lookup_update invar_update)

lemma lookup_delete_update:
  "invar t \<Longrightarrow> lookup t k = None \<Longrightarrow> lookup (delete k (update k v t)) = lookup t"
  by (rule ext) (simp add: lookup_update lookup_delete invar_update)

lemma update_all:
  assumes "invar t" "\<forall>j w. lookup t j = Some w \<longrightarrow> P j w" "P k v"
  shows "\<forall>j w. lookup (update k v t) j = Some w \<longrightarrow> P j w"
  using assms by (simp add: lookup_update)

lemma delete_all:
  assumes "invar t" "\<forall>j w. lookup t j = Some w \<longrightarrow> P j w"
  shows "\<forall>j w. lookup (delete k t) j = Some w \<longrightarrow> P j w"
  using assms by (simp add: lookup_delete)

end

lemma shard_index_bound: "shard_index s < numShards"
  by (simp add: shard_index_def numShards_def unat_mod)

interpretation shard_table: room_map shards_empty shard_lookup shard_update shard_delete shards_ok
proof
  show "shards_ok shards_empty"
    by (simp add: shards_ok_def shards_empty_def)
  show "shard_lookup shards_empty k = None" for k
    by (simp add: shard_lookup_def shards_empty_def shard_index_bound)
next
  fix t k v j
  assume t: "shards_ok t"
  then have i: "shard_index k < length t"
    by (simp add: shards_ok_def shard_index_bound)
  show "shards_ok (shard_update k v t)" "shards_ok (shard_delete k t)"
    using t by (simp_all add: shards_ok_def shard_update_def shard_delete_def)
  show "shard_lookup (shard_update k v t) j = (if j = k then Some v else shard_lookup t j)"
    "shard_lookup (shard_delete k t) j = (if j = k then None else shard_lookup t j)"
    using i by (auto simp: shard_lookup_def shard_update_def shard_delete_def nth_list_update)
qed

lemmas table_simps = shard_table.lookup_update shard_table.lookup_delete
  shard_table.invar_update shard_table.invar_delete

section \<open>Lemmas\<close>

lemma fnv1a_mask: "fnv1a s mod 64 = fnv1a s AND 63"
  using take_bit_eq_mod[of 6 "fnv1a s"] take_bit_eq_mask[of 6 "fnv1a s"]
  by (simp add: mask_eq_exp_minus_1)

lemma hub_inv_new: "hub_inv (NewHubWithLimit n)"
  by (simp add: hub_inv_def NewHubWithLimit_def shard_table.invar_empty shard_table.lookup_empty
      registered_def in_room_def)

lemma hub_inv_room:
  assumes "hub_inv h" "in_room h roomID p"
  shows "\<exists>c. h_heap h p = Some c \<and> client_ok roomID c"
  using assms unfolding hub_inv_def in_room_def by blast

lemma in_room_unique:
  "hub_inv h \<Longrightarrow> in_room h r1 p \<Longrightarrow> in_room h r2 p \<Longrightarrow> r1 = r2"
  using hub_inv_room[of h r1 p] hub_inv_room[of h r2 p] by (auto simp: client_ok_def)

lemma registered_client:
  assumes "hub_inv h" "p \<in> registered h"
  obtains c where "h_heap h p = Some c" "client_ok (c_RoomID c) c" "in_room h (c_RoomID c) p"
proof -
  from assms(2) obtain r where r: "in_room h r p" by (auto simp: registered_def)
  with hub_inv_room[OF assms(1) r] show ?thesis using that by (auto simp: client_ok_def)
qed

text \<open>Sending to the clients of a room one after the other is the simultaneous update of
  all of them: the iteration order of the Go map does not matter.\<close>

lemma deliver_spec:
  assumes "distinct ps" "\<forall>p\<in>set ps. \<exists>c. H p = Some c \<and> \<not> ch_closed (c_Send c)"
  shows "deliver msg ps H =
    Some (\<lambda>p. if p \<in> set ps then map_option (offer msg) (H p) else H p)"
  using assms
proof (induction ps arbitrary: H)
  case (Cons p ps)
  then obtain c where c: "H p = Some c" "\<not> ch_closed (c_Send c)" by auto
  then obtain ch where ch: "try_send msg (c_Send c) = Some ch" "c\<lparr>c_Send := ch\<rparr> = offer msg c"
    by (cases "length (ch_buf (c_Send c)) < ch_cap (c_Send c)")
      (simp_all add: try_send_def offer_def)
  let ?H = "H(p \<mapsto> offer msg c)"
  have "deliver msg ps ?H = Some (\<lambda>q. if q \<in> set ps then map_option (offer msg) (?H q) else ?H q)"
    using Cons.prems by (intro Cons.IH) auto
  moreover have "(\<lambda>q. if q \<in> set ps then map_option (offer msg) (?H q) else ?H q)
      = (\<lambda>q. if q \<in> set (p # ps) then map_option (offer msg) (H q) else H q)"
    using c Cons.prems(1) by (auto simp: fun_eq_iff)
  ultimately show ?case using c ch by simp
qed simp

lemma Broadcast_spec:
  assumes "hub_inv h"
  shows "Broadcast msg publish h =
    Some (h\<lparr>h_heap := (\<lambda>p. if in_room h (sm_RoomId msg) p then map_option (offer msg) (h_heap h p)
                             else h_heap h p),
           h_calls := h_calls h @
             (if publish then [CallPublish (sm_RoomId msg) (json_Marshal msg)] else [])\<rparr>)"
proof (cases "shard_lookup (h_shards h) (sm_RoomId msg)")
  case None
  then have "\<not> in_room h (sm_RoomId msg) p" for p by (simp add: in_room_def)
  with None show ?thesis by (simp add: Broadcast_def)
next
  case (Some r)
  then have "distinct (r_clients r)"
    "\<forall>p\<in>set (r_clients r). \<exists>c. h_heap h p = Some c \<and> \<not> ch_closed (c_Send c)"
    using assms by (fastforce simp: hub_inv_def client_ok_def)+
  then have "deliver msg (r_clients r) (h_heap h) =
      Some (\<lambda>p. if p \<in> set (r_clients r) then map_option (offer msg) (h_heap h p) else h_heap h p)"
    by (rule deliver_spec)
  moreover have "in_room h (sm_RoomId msg) p \<longleftrightarrow> p \<in> set (r_clients r)" for p
    using Some by (simp add: in_room_def)
  ultimately show ?thesis using Some by (simp add: Broadcast_def)
qed

lemma offer_simps [simp]:
  "c_RoomID (offer msg c) = c_RoomID c" "c_UserID (offer msg c) = c_UserID c"
  "ch_closed (c_Send (offer msg c)) = ch_closed (c_Send c)"
  "ch_cap (c_Send (offer msg c)) = ch_cap (c_Send c)"
  by (simp_all add: offer_def)

lemma client_ok_offer [simp]: "client_ok r c \<Longrightarrow> client_ok r (offer msg c)"
  by (auto simp: client_ok_def chan_ok_def offer_def)

text \<open>Steps that keep the tables and every registered client's shape keep the invariant.\<close>

lemma hub_inv_heap:
  assumes "hub_inv h" "h_shards h' = h_shards h"
    and "\<And>p r c. in_room h r p \<Longrightarrow> h_heap h p = Some c \<Longrightarrow> client_ok r c \<Longrightarrow>
           \<exists>c'. h_heap h' p = Some c' \<and> client_ok r c'"
  shows "hub_inv h'"
proof -
  have "in_room h' = in_room h" using assms(2) by (auto simp: in_room_def fun_eq_iff)
  then have reg: "registered h' = registered h" by (simp add: registered_def)
  show ?thesis
    unfolding hub_inv_def reg assms(2)
  proof (intro conjI allI impI)
    show "shards_ok (h_shards h)" "finite (registered h)"
      using assms(1) by (simp_all add: hub_inv_def)
  next
    fix roomID r assume r: "shard_lookup (h_shards h) roomID = Some r"
    show "r_clients r \<noteq> []" "distinct (r_clients r)"
      using assms(1) r by (auto simp: hub_inv_def)
    show "\<forall>p\<in>set (r_clients r). \<exists>c. h_heap h' p = Some c \<and> client_ok roomID c"
    proof
      fix p assume "p \<in> set (r_clients r)"
      then have "in_room h roomID p" using r by (simp add: in_room_def)
      then show "\<exists>c. h_heap h' p = Some c \<and> client_ok roomID c"
        using assms(3) hub_inv_room[OF assms(1)] by blast
    qed
  qed
qed

lemma Broadcast_frame:
  assumes "hub_inv h" "Broadcast msg publish h = Some h'"
  shows "h_shards h' = h_shards h" "h_connCnt h' = h_connCnt h" "h_maxConns h' = h_maxConns h"
    "h_heap h' p = (if in_room h (sm_RoomId msg) p then map_option (offer msg) (h_heap h p)
                    else h_heap h p)"
    "h_calls h' = h_calls h @
       (if publish then [CallPublish (sm_RoomId msg) (json_Marshal msg)] else [])"
  using assms(2) unfolding Broadcast_spec[OF assms(1)] by auto

lemma Broadcast_inv:
  assumes "hub_inv h" "Broadcast msg publish h = Some h'"
  shows "hub_inv h'" "registered h' = registered h"
proof -
  note frame = Broadcast_frame[OF assms]
  show "registered h' = registered h"
    using frame(1) by (simp add: registered_def in_room_def)
  show "hub_inv h'"
    by (rule hub_inv_heap[OF assms(1) frame(1)]) (auto simp: frame(4))
qed

lemma Broadcast_in_room:
  assumes "hub_inv h" "Broadcast msg publish h = Some h'"
  shows "in_room h' = in_room h"
  using Broadcast_frame(1)[OF assms] by (simp add: in_room_def fun_eq_iff)

lemma forwardFromBroker_inv:
  assumes "hub_inv h" "forwardFromBroker now raw h = Some h'"
  shows "hub_inv h'" "registered h' = registered h" "h_connCnt h' = h_connCnt h"
  using assms Broadcast_inv[OF assms(1)] Broadcast_frame(2)[OF assms(1)]
  by (auto simp: forwardFromBroker_def split: option.splits)

lemma hub_inv_shards [simp]: "hub_inv h \<Longrightarrow> shards_ok (h_shards h)"
  by (simp add: hub_inv_def)

lemma in_room_register:
  assumes "hub_inv h"
  shows "in_room (register_locked ctx p c h) r q \<longleftrightarrow> in_room h r q \<or> (r = c_RoomID c \<and> q = p)"
  using assms
  by (auto simp: in_room_def register_locked_def table_simps Let_def split: option.splits if_splits)

lemma register_locked_heap [simp]: "h_heap (register_locked ctx p c h) = h_heap h"
  by (simp add: register_locked_def Let_def split: option.splits)

lemma registered_register:
  "hub_inv h \<Longrightarrow> registered (register_locked ctx p c h) = insert p (registered h)"
  by (auto simp: registered_def in_room_register)

lemma register_locked_inv:
  assumes inv: "hub_inv h" and c: "h_heap h p = Some c" "client_ok (c_RoomID c) c"
  shows "hub_inv (register_locked ctx p c h)"
proof -
  let ?h = "register_locked ctx p c h"
  let ?P = "\<lambda>roomID r. r_clients r \<noteq> [] \<and> distinct (r_clients r)
    \<and> (\<forall>p\<in>set (r_clients r). \<exists>c. h_heap h p = Some c \<and> client_ok roomID c)"
  have all: "\<forall>roomID r. shard_lookup (h_shards h) roomID = Some r \<longrightarrow> ?P roomID r"
    using inv unfolding hub_inv_def by blast
  have "\<exists>r. h_shards ?h = shard_update (c_RoomID c) r (h_shards h) \<and> ?P (c_RoomID c) r"
  proof (cases "shard_lookup (h_shards h) (c_RoomID c)")
    case None
    then show ?thesis using c by (auto simp: register_locked_def Let_def)
  next
    case (Some r)
    moreover have "?P (c_RoomID c) (r\<lparr>r_clients := List.insert p (r_clients r)\<rparr>)"
      using all Some c by (auto simp: List.insert_def)
    ultimately show ?thesis
      by (intro exI[of _ "r\<lparr>r_clients := List.insert p (r_clients r)\<rparr>"])
        (simp add: register_locked_def)
  qed
  then obtain r where r: "h_shards ?h = shard_update (c_RoomID c) r (h_shards h)" "?P (c_RoomID c) r"
    by blast
  have "\<forall>j w. shard_lookup (h_shards ?h) j = Some w \<longrightarrow> ?P j w"
    unfolding r(1) by (rule shard_table.update_all[OF hub_inv_shards[OF inv] all r(2)])
  moreover have "shards_ok (h_shards ?h)"
    unfolding r(1) using inv by (simp add: shard_table.invar_update)
  moreover have "finite (registered ?h)"
    using inv by (simp add: registered_register hub_inv_def)
  ultimately show ?thesis unfolding hub_inv_def by simp
qed

lemma register_locked_count [simp]:
  "h_connCnt (register_locked ctx p c h) = h_connCnt h"
  by (simp add: register_locked_def Let_def split: option.splits)

lemma unregister_locked_ok:
  assumes inv: "hub_inv h" and p: "in_room h (c_RoomID c) p" "h_heap h p = Some c"
  obtains h' where "unregister_locked p c h = Some h'"
    "\<And>r q. in_room h' r q \<longleftrightarrow> in_room h r q \<and> q \<noteq> p" "shards_ok (h_shards h')"
    "\<And>q. q \<noteq> p \<Longrightarrow> h_heap h' q = h_heap h q" "h_connCnt h' = h_connCnt h"
    "\<And>j w. shard_lookup (h_shards h') j = Some w \<Longrightarrow> r_clients w \<noteq> [] \<and> distinct (r_clients w)"
proof -
  obtain r where r: "shard_lookup (h_shards h) (c_RoomID c) = Some r" "p \<in> set (r_clients r)"
    using p(1) by (auto simp: in_room_def)
  have ok: "client_ok (c_RoomID c) c" using hub_inv_room[OF inv p(1)] p(2) by auto
  then obtain ch where ch: "close_chan (c_Send c) = Some ch"
    by (auto simp: client_ok_def close_chan_def)
  let ?l = "remove1 p (r_clients r)"
  obtain h' where h': "unregister_locked p c h = Some h'" using r ch
    by (simp add: unregister_locked_def Let_def)
  have d: "\<And>j w. shard_lookup (h_shards h) j = Some w \<Longrightarrow> r_clients w \<noteq> [] \<and> distinct (r_clients w)"
    using inv by (auto simp: hub_inv_def)
  have lk: "shard_lookup (h_shards h') j =
      (if j = c_RoomID c then (if ?l = [] then None else Some (r\<lparr>r_clients := ?l\<rparr>))
       else shard_lookup (h_shards h) j)" for j
    using h' r ch inv by (auto simp: unregister_locked_def table_simps split: if_splits)
  have "in_room h' q x \<longleftrightarrow> in_room h q x \<and> x \<noteq> p" for q x
  proof (cases "q = c_RoomID c")
    case True
    have "in_room h' q x \<longleftrightarrow> x \<in> set ?l"
      unfolding in_room_def lk using True by auto
    then show ?thesis using r d[OF r(1)] True by (simp add: in_room_def)
  next
    case False
    then have "in_room h' q x \<longleftrightarrow> in_room h q x" by (simp add: in_room_def lk)
    then show ?thesis using in_room_unique[OF inv p(1), of q] False by blast
  qed
  moreover have "shards_ok (h_shards h')" "\<And>q. q \<noteq> p \<Longrightarrow> h_heap h' q = h_heap h q"
    "h_connCnt h' = h_connCnt h"
    using h' r ch inv by (auto simp: unregister_locked_def Let_def table_simps)
  moreover have "\<And>j w. shard_lookup (h_shards h') j = Some w \<Longrightarrow> r_clients w \<noteq> [] \<and> distinct (r_clients w)"
    using d r unfolding lk by (auto split: if_splits)
  ultimately show ?thesis using that h' by blast
qed

lemma unregister_locked_inv:
  assumes inv: "hub_inv h" and p: "in_room h (c_RoomID c) p" "h_heap h p = Some c"
    and eq: "unregister_locked p c h = Some h'"
  shows "hub_inv h'" "registered h' = registered h - {p}" "h_connCnt h' = h_connCnt h"
proof -
  obtain k where k: "unregister_locked p c h = Some k"
    "\<And>r q. in_room k r q \<longleftrightarrow> in_room h r q \<and> q \<noteq> p" "shards_ok (h_shards k)"
    "\<And>q. q \<noteq> p \<Longrightarrow> h_heap k q = h_heap h q" "h_connCnt k = h_connCnt h"
    "\<And>j w. shard_lookup (h_shards k) j = Some w \<Longrightarrow> r_clients w \<noteq> [] \<and> distinct (r_clients w)"
    by (rule unregister_locked_ok[OF inv p]) blast
  then have "k = h'" using eq by simp
  note k = k[unfolded \<open>k = h'\<close>]
  show reg: "registered h' = registered h - {p}" "h_connCnt h' = h_connCnt h"
    using k(2,5) by (auto simp: registered_def)
  have "\<exists>x. h_heap h' q = Some x \<and> client_ok j x"
    if "shard_lookup (h_shards h') j = Some w" "q \<in> set (r_clients w)" for j w q
  proof -
    have "in_room h' j q" using that by (auto simp: in_room_def)
    then have "in_room h j q" "q \<noteq> p" using k(2) by auto
    then show ?thesis using hub_inv_room[OF inv] k(4) by simp
  qed
  then show "hub_inv h'"
    using k(3,6) reg inv unfolding hub_inv_def by auto
qed

lemma hub_inv_count [simp]: "hub_inv (connCnt_Add n h) = hub_inv h"
  by (simp add: connCnt_Add_def hub_inv_def registered_def in_room_def)

lemma registered_count [simp]: "registered (connCnt_Add n h) = registered h"
  by (simp add: connCnt_Add_def registered_def in_room_def)

lemma connCnt_connCnt_Add [simp]: "h_connCnt (connCnt_Add n h) = h_connCnt h + n"
  by (simp add: connCnt_Add_def)

lemma registered_alloc [simp]: "registered (alloc p c h) = registered h"
  by (simp add: alloc_def registered_def in_room_def)

lemma alloc_simps [simp]:
  "h_heap (alloc p c h) = (h_heap h)(p \<mapsto> c)" "h_connCnt (alloc p c h) = h_connCnt h"
  "h_shards (alloc p c h) = h_shards h" "h_calls (alloc p c h) = h_calls h"
  by (simp_all add: alloc_def)

lemma client_ok_new [simp]: "client_ok r (NewClient u r)"
  by (simp add: client_ok_def NewClient_def chan_ok_def)

lemma NewClient_simps [simp]: "c_RoomID (NewClient u r) = r" "c_UserID (NewClient u r) = u"
  by (simp_all add: NewClient_def)

lemma unregistered_fresh: "hub_inv h \<Longrightarrow> h_heap h p = None \<Longrightarrow> p \<notin> registered h"
  by (metis option.distinct(1) registered_client)

lemma hub_inv_alloc:
  assumes "hub_inv h" "\<And>r. in_room h r p \<Longrightarrow> client_ok r c"
  shows "hub_inv (alloc p c h)"
  by (rule hub_inv_heap[OF assms(1)]) (auto simp: assms(2))

lemma sys_inv_step:
  assumes "hub_step s t" "sys_inv s"
  shows "sys_inv t"
  using assms
proof (induction rule: hub_step.induct)
  case (connect s p c u r ctx)
  let ?h = "hs_hub s"
  have inv: "hub_inv ?h" using connect by (simp add: sys_inv_def)
  have fresh: "p \<notin> registered ?h" using unregistered_fresh[OF inv connect(1)] .
  then have "hub_inv (alloc p c ?h)"
    by (intro hub_inv_alloc[OF inv]) (auto simp: registered_def)
  then have "hub_inv (register_locked ctx p c (alloc p c ?h))"
    "registered (register_locked ctx p c (alloc p c ?h)) = insert p (registered ?h)"
    using connect(2) by (simp_all add: register_locked_inv registered_register)
  moreover have "finite (registered ?h)" using inv by (simp add: hub_inv_def)
  ultimately show ?case using connect fresh by (simp add: sys_inv_def)
next
  case (disconnect p s c h)
  then have inv: "hub_inv (hs_hub s)" by (simp add: sys_inv_def)
  obtain c' where "h_heap (hs_hub s) p = Some c'" "in_room (hs_hub s) (c_RoomID c') p"
    using registered_client[OF inv disconnect(1)] by blast
  then have room: "in_room (hs_hub s) (c_RoomID c) p" using disconnect(2) by simp
  note un = unregister_locked_inv[OF inv room disconnect(2,3)]
  have "finite (registered (hs_hub s))" using inv by (simp add: hub_inv_def)
  then have "card (registered (hs_hub s)) = Suc (card (registered h))"
    using card_Suc_Diff1[OF _ disconnect(1)] un(2) by simp
  then show ?case using disconnect un by (simp add: sys_inv_def)
next
  case (broadcast msg publish s h)
  then show ?case
    using Broadcast_inv[of "hs_hub s" msg publish h] Broadcast_frame(2)[of "hs_hub s" msg publish h]
    by (simp add: sys_inv_def)
next
  case (forward now raw s h)
  then show ?case
    using forwardFromBroker_inv[of "hs_hub s" now raw h] by (simp add: sys_inv_def)
next
  case (drain s p c m ch)
  have "hub_inv (alloc p (c\<lparr>c_Send := ch\<rparr>) (hs_hub s))"
  proof (rule hub_inv_alloc)
    show inv: "hub_inv (hs_hub s)" using drain by (simp add: sys_inv_def)
    fix r assume "in_room (hs_hub s) r p"
    then have "client_ok r c" using hub_inv_room[OF inv] drain(1) by fastforce
    then show "client_ok r (c\<lparr>c_Send := ch\<rparr>)"
      using drain(2) by (auto simp: client_ok_def chan_ok_def range_next_def split: list.splits)
  qed
  then show ?case using drain by (simp add: sys_inv_def)
qed (simp_all add: sys_inv_def)

lemma reachable_sys_inv: "hub_reachable s \<Longrightarrow> sys_inv s"
proof (induction rule: hub_reachable.induct)
  case (start n)
  show ?case
    by (simp add: sys_inv_def hub_inv_new)
      (simp add: NewHubWithLimit_def registered_def in_room_def shard_table.lookup_empty)
next
  case (step s t)
  then show ?case using sys_inv_step by blast
qed

section \<open>Properties\<close>

text \<open>The sharded table refines one map from room ids to rooms: the lookup function of the
  table is the abstract map, and creating the table, storing a room and deleting a room are the
  map operations on it. The shard of every id is one of the 64, and taking the remainder of the
  FNV-1a hash is the mask of its six low bits.\<close>

lemma shards_refine_map:
  assumes "shards_ok sh"
  shows "shard_lookup shards_empty = Map.empty
    \<and> shard_lookup (shard_update k r sh) = (shard_lookup sh)(k \<mapsto> r)
    \<and> shard_lookup (shard_delete k sh) = (shard_lookup sh)(k := None)
    \<and> shards_ok (shard_update k r sh) \<and> shards_ok (shard_delete k sh)
    \<and> shard_index k < numShards \<and> shard_index k = unat (fnv1a k AND 63)"
  using assms shard_index_bound[of k]
  by (auto simp: fun_eq_iff table_simps shard_table.lookup_empty shard_index_def fnv1a_mask)

definition demo_message :: ServerMessage where
  "demo_message = ServerMessage_zero\<lparr>sm_RoomId := ''r'', sm_Text := ''hi'', sm_DeliveredAtUnixMs := 1\<rparr>"

definition demo_hub :: Hub where
  "demo_hub = register_locked 0 0 (NewClient ''u'' ''r'') (alloc 0 (NewClient ''u'' ''r'') (NewHubWithLimit 0))"

lemma demo_hub_facts:
  "hub_inv demo_hub" "in_room demo_hub ''r'' 0" "h_heap demo_hub 0 = Some (NewClient ''u'' ''r'')"
proof -
  have al: "hub_inv (alloc 0 (NewClient ''u'' ''r'') (NewHubWithLimit 0))"
    by (rule hub_inv_alloc[OF hub_inv_new]) (simp add: in_room_def NewHubWithLimit_def shard_table.lookup_empty)
  show "hub_inv demo_hub" unfolding demo_hub_def by (rule register_locked_inv[OF al]) simp_all
  show "in_room demo_hub ''r'' 0" unfolding demo_hub_def in_room_register[OF al] by simp
  show "h_heap demo_hub 0 = Some (NewClient ''u'' ''r'')" by (simp add: demo_hub_def)
qed

lemma demo_message_facts:
  "ServerMessage_ok demo_message" "sm_DeliveredAtUnixMs demo_message \<noteq> 0" "sm_RoomId demo_message = ''r''"
  by (simp_all add: demo_message_def ServerMessage_ok_def ServerMessage_zero_def in_int64_def in_int32_def
      int64_min_def int64_max_def)

text \<open>C4. In every reachable state of a pod, whatever the interleaving of connects, disconnects,
  broadcasts, broker deliveries, sender goroutines and counter updates: every room in the table has
  a client, each client once, in its own room and with an open channel; the connection counter
  is the number of registered clients up to the calls that have not yet updated it; and no
  broadcast and no disconnect of a registered client can panic.\<close>

theorem hub_reachable_safe:
  assumes "hub_reachable s"
  shows "hub_inv (hs_hub s)
    \<and> h_connCnt (hs_hub s) = int (card (registered (hs_hub s))) - int (hs_adds s) + int (hs_subs s)
    \<and> (\<forall>msg publish. Broadcast msg publish (hs_hub s) \<noteq> None)
    \<and> (\<forall>p c. p \<in> registered (hs_hub s) \<longrightarrow> h_heap (hs_hub s) p = Some c \<longrightarrow>
         unregister_locked p c (hs_hub s) \<noteq> None)"
proof -
  have inv: "hub_inv (hs_hub s)"
    "h_connCnt (hs_hub s) = int (card (registered (hs_hub s))) - int (hs_adds s) + int (hs_subs s)"
    using reachable_sys_inv[OF assms] by (simp_all add: sys_inv_def)
  have "unregister_locked p c (hs_hub s) \<noteq> None"
    if p: "p \<in> registered (hs_hub s)" "h_heap (hs_hub s) p = Some c" for p c
  proof -
    obtain c' where "h_heap (hs_hub s) p = Some c'" "in_room (hs_hub s) (c_RoomID c') p"
      using registered_client[OF inv(1) p(1)] by blast
    then have "in_room (hs_hub s) (c_RoomID c) p" using p(2) by simp
    then show ?thesis by (rule unregister_locked_ok[OF inv(1) _ p(2)]) simp
  qed
  then show ?thesis using inv by (auto simp: Broadcast_spec[OF inv(1)])
qed

lemma demo_hub_reachable:
  "hub_reachable \<lparr>hs_hub = demo_hub, hs_adds = 1, hs_subs = 0\<rparr>"
proof -
  let ?s = "\<lparr>hs_hub = NewHubWithLimit 0, hs_adds = 0, hs_subs = 0\<rparr>"
  have "h_heap (hs_hub ?s) 0 = None" by (simp add: NewHubWithLimit_def)
  from hub_step.connect[where ctx = 0 and u = "''u''" and r = "''r''", OF this refl]
  have "hub_step ?s \<lparr>hs_hub = demo_hub, hs_adds = 1, hs_subs = 0\<rparr>" by (simp add: demo_hub_def)
  then show ?thesis using hub_reachable.step[OF hub_reachable.start] by blast
qed

theorem hub_reachable_safe_witness:
  "h_connCnt demo_hub = int (card (registered demo_hub)) - 1
    \<and> Broadcast demo_message True demo_hub \<noteq> None
    \<and> unregister_locked 0 (NewClient ''u'' ''r'') demo_hub \<noteq> None"
  using hub_reachable_safe[OF demo_hub_reachable] demo_hub_facts(2,3)
  by (auto simp: registered_def)

text \<open>A broadcast touches nothing but the outgoing buffers of the clients registered in the
  message's room: each of them is offered the message, a full buffer drops it, every other client,
  the tables and the counter stay as they are, and exactly one publish reaches the broker when it
  is asked for.\<close>

lemma Broadcast_exact:
  assumes "hub_inv h"
  shows "\<exists>h'. Broadcast msg publish h = Some h' \<and> hub_inv h' \<and> registered h' = registered h
    \<and> (\<forall>p. h_heap h' p = (if in_room h (sm_RoomId msg) p then map_option (offer msg) (h_heap h p) else h_heap h p))
    \<and> h_shards h' = h_shards h \<and> h_connCnt h' = h_connCnt h
    \<and> h_calls h' = h_calls h @ (if publish then [CallPublish (sm_RoomId msg) (json_Marshal msg)] else [])"
proof -
  obtain h' where h': "Broadcast msg publish h = Some h'" unfolding Broadcast_spec[OF assms] by blast
  note frame = Broadcast_frame[OF assms h'] and inv = Broadcast_inv[OF assms h']
  show ?thesis using h' frame(1,2,5) frame(4) inv by (intro exI[of _ h']) blast
qed

text \<open>What one pod publishes, another pod that receives it broadcasts to its own clients of the
  room: decoding the payload gives the message back, with the delivery time filled in when it was
  not set, and the copy is not published again.\<close>

lemma forward_published:
  assumes "ServerMessage_ok m"
  shows "forwardFromBroker now (json_Marshal m) h =
    Broadcast (if sm_DeliveredAtUnixMs m = 0 then m\<lparr>sm_DeliveredAtUnixMs := now\<rparr> else m) False h"
  using json_Unmarshal_Marshal[OF assms] by (simp add: forwardFromBroker_def)

text \<open>A client that joins a room already in the table neither subscribes to the broker nor
  replaces the room's subscription, which stays the one made under the context of the stream
  that came first.\<close>

lemma subscription_of_first_stream:
  assumes "hub_inv h" "shard_lookup (h_shards h) (c_RoomID c) = Some r"
  shows "h_calls (Register ctx p c h) = h_calls h
    \<and> (\<exists>r'. shard_lookup (h_shards (Register ctx p c h)) (c_RoomID c) = Some r' \<and> r_sub r' = r_sub r)"
  using assms by (simp add: Register_def connCnt_Add_def register_locked_def table_simps)

end
