(* ===== verification/Redis_Kv.thy ===== *)
theory Redis_Kv
  imports Prelude
begin

text \<open>
  The Redis commands the service calls (SET, DEL, EXISTS, GET, EXPIRE), as an interface. The
  client library and the server are not part of the repository: the components that use them
  take a record of operations as an argument, and \<open>redis_kv\<close> states the documented behaviour
  they rely on. A command may fail, in which case it changes nothing; \<open>live\<close> is the set of
  keys that have not expired, with the value and the remaining time to live in nanoseconds
  (\<^term>\<open>None\<close>: no expiry), and \<open>elapse\<close> is the passing of time on the server.

  \<open>ref_redis\<close> is the in-memory implementation of the interface; it shows that the laws can
  hold together.
\<close>

record ('r, 'v) redis_ops =
  rd_set :: "string \<Rightarrow> 'v \<Rightarrow> int \<Rightarrow> 'r \<Rightarrow> unit go_result \<times> 'r"
  rd_del :: "string \<Rightarrow> 'r \<Rightarrow> unit go_result \<times> 'r"
  rd_exists :: "string \<Rightarrow> 'r \<Rightarrow> nat go_result"
  rd_get :: "string \<Rightarrow> 'r \<Rightarrow> 'v option go_result"
  rd_expire :: "string \<Rightarrow> int \<Rightarrow> 'r \<Rightarrow> unit go_result \<times> 'r"

type_synonym 'v keyspace = "string \<rightharpoonup> 'v \<times> int option"

definition ttl_of :: "int \<Rightarrow> int option" where
  "ttl_of ttl = (if ttl = 0 then None else Some ttl)"

definition age :: "int \<Rightarrow> 'v \<times> int option \<Rightarrow> ('v \<times> int option) option" where
  "age d e = (case e of (v, None) \<Rightarrow> Some (v, None)
                      | (v, Some t) \<Rightarrow> if t \<le> d then None else Some (v, Some (t - d)))"

section \<open>The in-memory implementation\<close>

definition ref_set :: "string \<Rightarrow> 'v \<Rightarrow> int \<Rightarrow> 'v keyspace \<Rightarrow> unit go_result \<times> 'v keyspace" where
  "ref_set k v ttl r = (Inr (), r(k \<mapsto> (v, ttl_of ttl)))"

definition ref_del :: "string \<Rightarrow> 'v keyspace \<Rightarrow> unit go_result \<times> 'v keyspace" where
  "ref_del k r = (Inr (), r(k := None))"

definition ref_exists :: "string \<Rightarrow> 'v keyspace \<Rightarrow> nat go_result" where
  "ref_exists k r = Inr (if r k = None then 0 else 1)"

definition ref_get :: "string \<Rightarrow> 'v keyspace \<Rightarrow> 'v option go_result" where
  "ref_get k r = Inr (map_option fst (r k))"

definition ref_expire :: "string \<Rightarrow> int \<Rightarrow> 'v keyspace \<Rightarrow> unit go_result \<times> 'v keyspace" where
  "ref_expire k ttl r =
     (Inr (), case r k of None \<Rightarrow> r | Some (v, _) \<Rightarrow> r(k \<mapsto> (v, Some ttl)))"

definition ref_elapse :: "int \<Rightarrow> 'v keyspace \<Rightarrow> 'v keyspace" where
  "ref_elapse d r = (\<lambda>k. Option.bind (r k) (age d))"

definition ref_redis :: "('v keyspace, 'v) redis_ops" where
  "ref_redis = \<lparr>rd_set = ref_set, rd_del = ref_del, rd_exists = ref_exists, rd_get = ref_get,
                rd_expire = ref_expire\<rparr>"

section \<open>The documented behaviour\<close>

locale redis_kv =
  fixes ops :: "('r, 'v) redis_ops"
    and live :: "'r \<Rightarrow> 'v keyspace"
    and elapse :: "int \<Rightarrow> 'r \<Rightarrow> 'r"
  assumes set_ok: "rd_set ops k v ttl r = (Inr u, r') \<Longrightarrow> live r' = (live r)(k \<mapsto> (v, ttl_of ttl))"
    and set_err: "rd_set ops k v ttl r = (Inl e, r') \<Longrightarrow> live r' = live r"
    and del_ok: "rd_del ops k r = (Inr u, r') \<Longrightarrow> live r' = (live r)(k := None)"
    and del_err: "rd_del ops k r = (Inl e, r') \<Longrightarrow> live r' = live r"
    and exists_ok: "rd_exists ops k r = Inr n \<Longrightarrow> n = (if live r k = None then 0 else 1)"
    and get_ok: "rd_get ops k r = Inr w \<Longrightarrow> w = map_option fst (live r k)"
    and expire_ok: "rd_expire ops k ttl r = (Inr u, r') \<Longrightarrow>
      live r' = (case live r k of None \<Rightarrow> live r | Some (v, _) \<Rightarrow> (live r)(k \<mapsto> (v, Some ttl)))"
    and expire_err: "rd_expire ops k ttl r = (Inl e, r') \<Longrightarrow> live r' = live r"
    and elapse_live: "live (elapse d r) k = Option.bind (live r k) (age d)"
begin

lemma set_cases:
  obtains "live (snd (rd_set ops k v ttl r)) = (live r)(k \<mapsto> (v, ttl_of ttl))"
  | e where "fst (rd_set ops k v ttl r) = Inl e" "live (snd (rd_set ops k v ttl r)) = live r"
  using set_ok set_err by (metis old.sum.exhaust prod.collapse)

lemma set_frame: "j \<noteq> k \<Longrightarrow> live (snd (rd_set ops k v ttl r)) j = live r j"
  by (rule set_cases[of k v ttl r]) simp_all

lemma del_frame: "j \<noteq> k \<Longrightarrow> live (snd (rd_del ops k r)) j = live r j"
  using del_ok del_err by (metis fun_upd_other old.sum.exhaust prod.collapse)

lemma expire_frame: "j \<noteq> k \<Longrightarrow> live (snd (rd_expire ops k ttl r)) j = live r j"
proof (cases "rd_expire ops k ttl r")
  case (Pair a b)
  assume "j \<noteq> k"
  with Pair show ?thesis
    using expire_ok[of k ttl r _ b] expire_err[of k ttl r _ b]
    by (cases a; cases "live r k") auto
qed

end

text \<open>A server that answers every command.\<close>

locale redis_up = redis_kv +
  assumes set_up: "fst (rd_set ops k v ttl r) = Inr ()"
    and del_up: "fst (rd_del ops k r) = Inr ()"
    and exists_up: "\<exists>n. rd_exists ops k r = Inr n"
    and get_up: "\<exists>w. rd_get ops k r = Inr w"
    and expire_up: "fst (rd_expire ops k ttl r) = Inr ()"
begin

lemma live_set: "live (snd (rd_set ops k v ttl r)) = (live r)(k \<mapsto> (v, ttl_of ttl))"
  using set_ok set_up by (metis prod.collapse)

lemma live_del: "live (snd (rd_del ops k r)) = (live r)(k := None)"
  using del_ok del_up by (metis prod.collapse)

lemma exists_eq: "rd_exists ops k r = Inr (if live r k = None then 0 else 1)"
  using exists_ok exists_up by metis

lemma get_eq: "rd_get ops k r = Inr (map_option fst (live r k))"
  using get_ok get_up by metis

lemma live_expire: "live (snd (rd_expire ops k ttl r)) =
  (case live r k of None \<Rightarrow> live r | Some (v, _) \<Rightarrow> (live r)(k \<mapsto> (v, Some ttl)))"
  using expire_ok expire_up by (metis prod.collapse)

end

interpretation ref: redis_up ref_redis "\<lambda>r. r" ref_elapse
  by unfold_locales
    (auto simp: ref_redis_def ref_set_def ref_del_def ref_exists_def ref_get_def ref_expire_def
      ref_elapse_def)

end
