(* ===== verification/Presence.thy ===== *)
theory Presence
  imports Pb Redis_Kv
begin

text \<open>
  \<open>app/chat/presence.go\<close>: the presence store interface and its two implementations, the
  Redis-backed one (over the operations of \<open>Redis_Kv\<close>) and the in-process map.

  \<open>now\<close> is the clock in Unix milliseconds at the call. The contract \<open>presence_store\<close> is what
  the RPC layer relies on; both implementations satisfy it, the Redis one for every server
  that answers and obeys the documented behaviour.
\<close>

section \<open>Definitions\<close>

definition presenceTTL :: int where
  "presenceTTL = 60 * 1000000000"

definition presenceRefresh :: int where
  "presenceRefresh = 30 * 1000000000"

definition presenceKeyPrefix :: string where
  "presenceKeyPrefix = ''chat:presence:''"

definition lastSeenPrefix :: string where
  "lastSeenPrefix = ''chat:lastseen:''"

definition redis_SetOnline ::
  "('r, string) redis_ops \<Rightarrow> int \<Rightarrow> string \<Rightarrow> bool \<Rightarrow> 'r \<Rightarrow> 'r" where
  "redis_SetOnline R now userID online r =
     (if online then snd (rd_set R (presenceKeyPrefix @ userID) ''1'' presenceTTL r)
      else let r1 = snd (rd_del R (presenceKeyPrefix @ userID) r)
           in snd (rd_set R (lastSeenPrefix @ userID) (FormatInt now) 0 r1))"

definition redis_info :: "('r, string) redis_ops \<Rightarrow> 'r \<Rightarrow> string \<Rightarrow> PresenceInfo" where
  "redis_info R r uid =
     (let online = (case rd_exists R (presenceKeyPrefix @ uid) r of Inl _ \<Rightarrow> False | Inr n \<Rightarrow> n > 0);
          seen = (if online then 0
                  else case rd_get R (lastSeenPrefix @ uid) r of
                         Inr (Some ms) \<Rightarrow> fst (ParseInt ms)
                       | _ \<Rightarrow> 0)
      in \<lparr>pi_UserId = uid, pi_IsOnline = online, pi_LastSeenUnixMs = seen\<rparr>)"

definition redis_Get :: "('r, string) redis_ops \<Rightarrow> 'r \<Rightarrow> string list \<Rightarrow> PresenceInfo list" where
  "redis_Get R r userIDs = map (redis_info R r) userIDs"

text \<open>One tick of the heartbeat loop of \<open>StartHeartbeat\<close>; the loop ends with the stream.\<close>

definition heartbeat_tick :: "('r, string) redis_ops \<Rightarrow> string \<Rightarrow> 'r \<Rightarrow> 'r" where
  "heartbeat_tick R userID r = snd (rd_expire R (presenceKeyPrefix @ userID) presenceTTL r)"

text \<open>The loop while the stream is open: a tick every \<open>presenceRefresh\<close>; \<open>elapse\<close> is the
  passing of time on the server.\<close>

fun StartHeartbeat ::
  "('r, string) redis_ops \<Rightarrow> (int \<Rightarrow> 'r \<Rightarrow> 'r) \<Rightarrow> string \<Rightarrow> nat \<Rightarrow> 'r \<Rightarrow> 'r" where
  "StartHeartbeat R elapse userID 0 r = r"
| "StartHeartbeat R elapse userID (Suc n) r =
     StartHeartbeat R elapse userID n (heartbeat_tick R userID (elapse presenceRefresh r))"

type_synonym local_presence = "string \<rightharpoonup> PresenceInfo"

definition NewLocalPresenceStore :: local_presence where
  "NewLocalPresenceStore = Map.empty"

definition local_SetOnline :: "int \<Rightarrow> string \<Rightarrow> bool \<Rightarrow> local_presence \<Rightarrow> local_presence" where
  "local_SetOnline now userID online data =
     (let info = (case data userID of
                    None \<Rightarrow> \<lparr>pi_UserId = userID, pi_IsOnline = False, pi_LastSeenUnixMs = 0\<rparr>
                  | Some i \<Rightarrow> i);
          info1 = info\<lparr>pi_IsOnline := online\<rparr>;
          info2 = (if online then info1 else info1\<lparr>pi_LastSeenUnixMs := now\<rparr>)
      in data(userID \<mapsto> info2))"

definition local_info :: "local_presence \<Rightarrow> string \<Rightarrow> PresenceInfo" where
  "local_info data uid =
     (case data uid of
        Some i \<Rightarrow> i
      | None \<Rightarrow> \<lparr>pi_UserId = uid, pi_IsOnline = False, pi_LastSeenUnixMs = 0\<rparr>)"

definition local_Get :: "local_presence \<Rightarrow> string list \<Rightarrow> PresenceInfo list" where
  "local_Get data userIDs = map (local_info data) userIDs"

text \<open>Entries of the local map carry their key.\<close>

definition local_ok :: "local_presence \<Rightarrow> bool" where
  "local_ok data \<longleftrightarrow> (\<forall>u i. data u = Some i \<longrightarrow> pi_UserId i = u)"

section \<open>The contract of a presence store\<close>

locale presence_store =
  fixes set_online :: "int \<Rightarrow> string \<Rightarrow> bool \<Rightarrow> 's \<Rightarrow> 's"
    and get :: "'s \<Rightarrow> string list \<Rightarrow> PresenceInfo list"
    and invar :: "'s \<Rightarrow> bool"
  assumes invar_set: "invar s \<Longrightarrow> invar (set_online now u b s)"
    and get_users: "invar s \<Longrightarrow> map pi_UserId (get s us) = us"
    and get_append: "get s (us @ vs) = get s us @ get s vs"
    and get_online: "invar s \<Longrightarrow> pi_IsOnline (hd (get (set_online now u b s) [u])) = b"
    and get_last_seen: "invar s \<Longrightarrow> in_int64 now \<Longrightarrow>
      pi_LastSeenUnixMs (hd (get (set_online now u False s) [u])) = now"
    and get_other: "invar s \<Longrightarrow> v \<noteq> u \<Longrightarrow> get (set_online now u b s) [v] = get s [v]"
begin

lemma get_length: "invar s \<Longrightarrow> length (get s us) = length us"
  using get_users by (metis length_map)

lemma get_Cons: "get s (u # us) = get s [u] @ get s us"
  using get_append[of s "[u]" us] by simp

lemma get_others: "invar s \<Longrightarrow> u \<notin> set us \<Longrightarrow> get (set_online now u b s) us = get s us"
proof (induction us)
  case Nil
  show ?case using get_length[OF Nil(1)] get_length[OF invar_set[OF Nil(1)]]
    by (metis length_0_conv list.size(3))
next
  case (Cons v us)
  then have "get (set_online now u b s) [v] = get s [v]" by (intro get_other) auto
  with Cons show ?case
    using get_Cons[of s v us] get_Cons[of "set_online now u b s" v us] by simp
qed

text \<open>A disconnect wins over every earlier connect of the same user: the contract keeps no
  count of the user's streams.\<close>

lemma last_write_wins:
  "invar s \<Longrightarrow> pi_IsOnline (hd (get (set_online n2 u False (set_online n1 u True (set_online n0 u True s))) [u])) = False"
  using get_online[OF invar_set[OF invar_set]] by simp

end

section \<open>The implementations satisfy the contract\<close>

lemma local_ok_set: "local_ok d \<Longrightarrow> local_ok (local_SetOnline now u b d)"
  by (auto simp: local_ok_def local_SetOnline_def Let_def split: option.splits)

interpretation local_store: presence_store local_SetOnline local_Get local_ok
proof
  fix s :: local_presence and now :: int and u v :: string and b :: bool and us vs
  show "local_Get s (us @ vs) = local_Get s us @ local_Get s vs"
    by (simp add: local_Get_def)
  assume ok: "local_ok s"
  show "local_ok (local_SetOnline now u b s)" by (rule local_ok_set[OF ok])
  show "map pi_UserId (local_Get s us) = us"
    using ok by (induction us) (auto simp: local_Get_def local_info_def local_ok_def split: option.splits)
  show "pi_IsOnline (hd (local_Get (local_SetOnline now u b s) [u])) = b"
    by (simp add: local_Get_def local_info_def local_SetOnline_def Let_def)
  show "v \<noteq> u \<Longrightarrow> local_Get (local_SetOnline now u b s) [v] = local_Get s [v]"
    by (simp add: local_Get_def local_info_def local_SetOnline_def Let_def)
  show "pi_LastSeenUnixMs (hd (local_Get (local_SetOnline now u False s) [u])) = now"
    by (simp add: local_Get_def local_info_def local_SetOnline_def Let_def)
qed

lemma key_prefixes_differ: "presenceKeyPrefix @ u \<noteq> lastSeenPrefix @ v"
  by (simp add: presenceKeyPrefix_def lastSeenPrefix_def)

locale redis_presence = redis_up ops live elapse
  for ops :: "('r, string) redis_ops" and live and elapse
begin

lemma live_SetOnline_True:
  "live (redis_SetOnline ops now u True r) = (live r)(presenceKeyPrefix @ u \<mapsto> (''1'', Some presenceTTL))"
  by (simp add: redis_SetOnline_def live_set ttl_of_def presenceTTL_def)

lemma live_SetOnline_False:
  "live (redis_SetOnline ops now u False r) =
     (live r)(presenceKeyPrefix @ u := None, lastSeenPrefix @ u \<mapsto> (FormatInt now, None))"
  by (simp add: redis_SetOnline_def live_set live_del ttl_of_def)

lemma info_eq:
  "redis_info ops r u =
     \<lparr>pi_UserId = u, pi_IsOnline = (live r (presenceKeyPrefix @ u) \<noteq> None),
      pi_LastSeenUnixMs = (if live r (presenceKeyPrefix @ u) \<noteq> None then 0
        else case live r (lastSeenPrefix @ u) of None \<Rightarrow> 0 | Some (ms, _) \<Rightarrow> fst (ParseInt ms))\<rparr>"
  by (auto simp: redis_info_def exists_eq get_eq split: option.splits)

lemma heartbeat_live:
  "live (heartbeat_tick ops u r) = (case live r (presenceKeyPrefix @ u) of None \<Rightarrow> live r
     | Some (v, _) \<Rightarrow> (live r)(presenceKeyPrefix @ u \<mapsto> (v, Some presenceTTL)))"
  by (simp add: heartbeat_tick_def live_expire)

text \<open>Every tick finds the key with half of its time to live left and renews it.\<close>

lemma heartbeat_keeps:
  "live r (presenceKeyPrefix @ u) = Some (v, Some presenceTTL) \<Longrightarrow>
   live (StartHeartbeat ops elapse u n r) (presenceKeyPrefix @ u) = Some (v, Some presenceTTL)"
proof (induction n arbitrary: r)
  case (Suc n)
  have "live (elapse presenceRefresh r) (presenceKeyPrefix @ u) = Some (v, Some (presenceTTL - presenceRefresh))"
    using Suc.prems by (simp add: elapse_live age_def presenceTTL_def presenceRefresh_def)
  then have "live (heartbeat_tick ops u (elapse presenceRefresh r)) (presenceKeyPrefix @ u)
      = Some (v, Some presenceTTL)"
    by (simp add: heartbeat_live)
  then show ?case using Suc.IH by simp
qed simp

text \<open>A heartbeat does not bring a deleted key back.\<close>

lemma heartbeat_absent:
  "live r (presenceKeyPrefix @ u) = None \<Longrightarrow>
   live (StartHeartbeat ops elapse u n r) (presenceKeyPrefix @ u) = None"
  by (induction n arbitrary: r) (simp_all add: elapse_live heartbeat_live)

lemma store_contract: "presence_store (redis_SetOnline ops) (redis_Get ops) (\<lambda>_. True)"
proof
  fix s :: 'r and now :: int and u v :: string and b :: bool and us vs
  show "redis_Get ops s (us @ vs) = redis_Get ops s us @ redis_Get ops s vs"
    by (simp add: redis_Get_def)
  show "map pi_UserId (redis_Get ops s us) = us"
    by (induction us) (simp_all add: redis_Get_def info_eq)
  show "pi_IsOnline (hd (redis_Get ops (redis_SetOnline ops now u b s) [u])) = b"
    using key_prefixes_differ[of u u]
    by (cases b) (simp_all add: redis_Get_def info_eq live_SetOnline_True live_SetOnline_False)
  show "pi_LastSeenUnixMs (hd (redis_Get ops (redis_SetOnline ops now u False s) [u])) = now"
    if "in_int64 now"
    using that key_prefixes_differ[of u u]
    by (simp add: redis_Get_def info_eq live_SetOnline_False ParseInt_FormatInt)
  show "redis_Get ops (redis_SetOnline ops now u b s) [v] = redis_Get ops s [v]" if "v \<noteq> u"
    using that key_prefixes_differ key_prefixes_differ[symmetric]
    by (cases b) (simp_all add: redis_Get_def info_eq live_SetOnline_True live_SetOnline_False)
qed simp

end

sublocale redis_presence \<subseteq> rp: presence_store "redis_SetOnline ops" "redis_Get ops" "\<lambda>_. True"
  by (rule store_contract)

interpretation ref_presence: redis_presence ref_redis "\<lambda>r. r" ref_elapse
  by unfold_locales

section \<open>Properties\<close>

text \<open>C32. Over every Redis server that answers, as over the in-process map, a presence query lists the
  users in the order asked; after \<open>SetOnline\<close> the user has that state, with the time of a sign-off
  as last seen, and no other user's answer changes.\<close>

theorem presence_stores_agree:
  assumes "redis_presence ops live elapse" "local_ok d" "in_int64 now" "u \<notin> set us"
  shows "map pi_UserId (redis_Get ops r vs) = vs \<and> map pi_UserId (local_Get d vs) = vs
    \<and> pi_IsOnline (hd (redis_Get ops (redis_SetOnline ops now u b r) [u])) = b
    \<and> pi_IsOnline (hd (local_Get (local_SetOnline now u b d) [u])) = b
    \<and> pi_LastSeenUnixMs (hd (redis_Get ops (redis_SetOnline ops now u False r) [u])) = now
    \<and> pi_LastSeenUnixMs (hd (local_Get (local_SetOnline now u False d) [u])) = now
    \<and> redis_Get ops (redis_SetOnline ops now u b r) us = redis_Get ops r us
    \<and> local_Get (local_SetOnline now u b d) us = local_Get d us"
proof -
  note store = redis_presence.store_contract[OF assms(1)]
  show ?thesis
    using presence_store.get_users[OF store] local_store.get_users[OF assms(2)]
      presence_store.get_online[OF store] local_store.get_online[OF assms(2)]
      presence_store.get_last_seen[OF store _ assms(3)] local_store.get_last_seen[OF assms(2,3)]
      presence_store.get_others[OF store _ assms(4)] local_store.get_others[OF assms(2,4)] by simp
qed

theorem presence_stores_agree_witness:
  "pi_LastSeenUnixMs (hd (redis_Get ref_redis (redis_SetOnline ref_redis 1700 ''u'' False Map.empty) [''u''])) = 1700
   \<and> pi_LastSeenUnixMs (hd (local_Get (local_SetOnline 1700 ''u'' False NewLocalPresenceStore) [''u''])) = 1700"
proof -
  have "local_ok NewLocalPresenceStore" "in_int64 1700"
    by (simp_all add: local_ok_def NewLocalPresenceStore_def in_int64_def int64_min_def int64_max_def)
  then show ?thesis
    using presence_stores_agree[OF ref_presence.redis_presence_axioms,
        of NewLocalPresenceStore 1700 "''u''" "[''v'']" Map.empty "[]" True] by simp
qed

text \<open>C33. While a stream is open the heartbeat keeps the user online for any length of time: the key
  set at the connect is renewed every 30 seconds before its 60 seconds are over. It does not bring
  back a key that is gone: after the disconnect of one stream, the heartbeats of the user's other
  streams leave the user offline.\<close>

theorem heartbeat_keeps_online:
  assumes "redis_presence ops live elapse"
  shows "pi_IsOnline (redis_info ops (StartHeartbeat ops elapse u n (redis_SetOnline ops now u True r)) u)
    \<and> \<not> pi_IsOnline (redis_info ops (StartHeartbeat ops elapse u n (redis_SetOnline ops now u False r)) u)"
  using redis_presence.heartbeat_keeps[OF assms, of "redis_SetOnline ops now u True r" u "''1''" n]
    redis_presence.heartbeat_absent[OF assms, of "redis_SetOnline ops now u False r" u n]
    key_prefixes_differ[of u u]
  by (simp add: redis_presence.info_eq[OF assms] redis_presence.live_SetOnline_True[OF assms]
      redis_presence.live_SetOnline_False[OF assms])

theorem heartbeat_keeps_online_witness:
  "pi_IsOnline (redis_info ref_redis
     (StartHeartbeat ref_redis ref_elapse ''u'' 1000 (redis_SetOnline ref_redis 0 ''u'' True Map.empty)) ''u'')"
  using heartbeat_keeps_online[OF ref_presence.redis_presence_axioms, of "''u''" 1000 0 Map.empty] by simp

end
