(* ===== verification/Room_Store.thy ===== *)
theory Room_Store
  imports Redis_Kv
begin

text \<open>
  \<open>app/chat/room_store.go\<close>: room metadata in Redis when a client is configured, in process
  memory otherwise. \<open>now\<close> is the clock and \<open>uuid\<close> the result of \<open>uuid.NewString\<close> at the call.
  The Redis value of a room is the JSON object of its metadata.

  \<open>room_backend\<close> is the contract "what is saved is what a later get returns"; the get-or-create
  pattern of \<open>CreateDM\<close> is proved idempotent once, over that contract.
\<close>

section \<open>Definitions\<close>

definition RoomKindDM :: int where "RoomKindDM = 0"
definition RoomKindGroup :: int where "RoomKindGroup = 1"

record RoomMeta =
  rm_RoomID :: string
  rm_Name :: string
  rm_Kind :: int
  rm_CreatedBy :: string
  rm_CreatedAt :: gotime
  rm_MemberIDs :: "string list"

definition RoomMeta_zero :: RoomMeta where
  "RoomMeta_zero = \<lparr>rm_RoomID = [], rm_Name = [], rm_Kind = 0, rm_CreatedBy = [],
     rm_CreatedAt = zero_time, rm_MemberIDs = []\<rparr>"

datatype room_jval = RJString string | RJInt int | RJTime gotime | RJList "string list"
type_synonym room_json = "(string \<times> room_jval) list"

definition room_Marshal :: "RoomMeta \<Rightarrow> room_json" where
  "room_Marshal m =
     [(''room_id'', RJString (rm_RoomID m)), (''name'', RJString (rm_Name m)),
      (''kind'', RJInt (rm_Kind m)), (''created_by'', RJString (rm_CreatedBy m)),
      (''created_at'', RJTime (rm_CreatedAt m)), (''member_ids'', RJList (rm_MemberIDs m))]"

fun room_member :: "RoomMeta \<Rightarrow> string \<times> room_jval \<Rightarrow> RoomMeta option" where
  "room_member m (k, v) =
     (case v of
        RJString s \<Rightarrow>
          (if k = ''room_id'' then Some (m\<lparr>rm_RoomID := s\<rparr>)
           else if k = ''name'' then Some (m\<lparr>rm_Name := s\<rparr>)
           else if k = ''created_by'' then Some (m\<lparr>rm_CreatedBy := s\<rparr>)
           else if k \<in> {''kind'', ''created_at'', ''member_ids''} then None else Some m)
      | RJInt n \<Rightarrow>
          (if k = ''kind'' then Some (m\<lparr>rm_Kind := n\<rparr>)
           else if k \<in> {''room_id'', ''name'', ''created_by'', ''created_at'', ''member_ids''}
           then None else Some m)
      | RJTime t \<Rightarrow>
          (if k = ''created_at'' then Some (m\<lparr>rm_CreatedAt := t\<rparr>)
           else if k \<in> {''kind'', ''member_ids''} then None else Some m)
      | RJList l \<Rightarrow>
          (if k = ''member_ids'' then Some (m\<lparr>rm_MemberIDs := l\<rparr>)
           else if k \<in> {''room_id'', ''name'', ''created_by'', ''created_at'', ''kind''}
           then None else Some m))"

fun room_members :: "RoomMeta \<Rightarrow> room_json \<Rightarrow> RoomMeta option" where
  "room_members m [] = Some m"
| "room_members m (kv # kvs) =
     (case room_member m kv of None \<Rightarrow> None | Some m' \<Rightarrow> room_members m' kvs)"

definition room_Unmarshal :: "room_json \<Rightarrow> RoomMeta option" where
  "room_Unmarshal j = room_members RoomMeta_zero j"

record 'r RoomStore =
  rs_rdb :: "('r, room_json) redis_ops option"
  rs_redis :: 'r
  rs_mem :: "string \<rightharpoonup> RoomMeta"

definition NewRoomStore :: "('r, room_json) redis_ops option \<Rightarrow> 'r \<Rightarrow> 'r RoomStore" where
  "NewRoomStore rdb r = \<lparr>rs_rdb = rdb, rs_redis = r, rs_mem = Map.empty\<rparr>"

definition room_key :: "string \<Rightarrow> string" where
  "room_key roomID = ''chat:room:'' @ roomID"

definition RoomStore_Get :: "'r RoomStore \<Rightarrow> string \<Rightarrow> RoomMeta option go_result" where
  "RoomStore_Get s roomID =
     (case rs_rdb s of
        Some R \<Rightarrow>
          (case rd_get R (room_key roomID) (rs_redis s) of
             Inl e \<Rightarrow> Inl (''redis get room: '' @ e)
           | Inr None \<Rightarrow> Inr None
           | Inr (Some data) \<Rightarrow>
               (case room_Unmarshal data of
                  None \<Rightarrow> Inl ''unmarshal room: invalid value''
                | Some meta \<Rightarrow> Inr (Some meta)))
      | None \<Rightarrow> Inr (rs_mem s roomID))"

definition RoomStore_save :: "RoomMeta \<Rightarrow> 'r RoomStore \<Rightarrow> unit go_result \<times> 'r RoomStore" where
  "RoomStore_save meta s =
     (case rs_rdb s of
        Some R \<Rightarrow>
          (case rd_set R (room_key (rm_RoomID meta)) (room_Marshal meta) 0 (rs_redis s) of
             (res, r) \<Rightarrow> (res, s\<lparr>rs_redis := r\<rparr>))
      | None \<Rightarrow> (Inr (), s\<lparr>rs_mem := (rs_mem s)(rm_RoomID meta \<mapsto> meta)\<rparr>))"

text \<open>\<open>return meta, s.save(ctx, meta)\<close>: the metadata counts only when the save succeeded.\<close>

definition RoomStore_put :: "RoomMeta \<Rightarrow> 'r RoomStore \<Rightarrow> RoomMeta go_result \<times> 'r RoomStore" where
  "RoomStore_put meta s =
     (case RoomStore_save meta s of (Inl e, s') \<Rightarrow> (Inl e, s') | (Inr _, s') \<Rightarrow> (Inr meta, s'))"

definition RoomStore_CreateDM ::
  "gotime \<Rightarrow> string \<Rightarrow> string \<Rightarrow> string \<Rightarrow> 'r RoomStore \<Rightarrow> RoomMeta go_result \<times> 'r RoomStore" where
  "RoomStore_CreateDM now userA userB createdBy s =
     (if userA = [] \<or> userB = [] then (Inl ''both member IDs are required for a DM'', s)
      else let ids = sort_pair userA userB; roomID = ''dm:'' @ Join ids '':''
           in case RoomStore_Get s roomID of
                Inr (Some existing) \<Rightarrow> (Inr existing, s)
              | _ \<Rightarrow> RoomStore_put
                  \<lparr>rm_RoomID = roomID, rm_Name = [], rm_Kind = RoomKindDM, rm_CreatedBy = createdBy,
                   rm_CreatedAt = now, rm_MemberIDs = ids\<rparr> s)"

definition RoomStore_CreateGroup ::
  "string \<Rightarrow> gotime \<Rightarrow> string \<Rightarrow> string \<Rightarrow> string list \<Rightarrow> 'r RoomStore
   \<Rightarrow> RoomMeta go_result \<times> 'r RoomStore" where
  "RoomStore_CreateGroup uuid now name createdBy memberIDs s =
     (if name = [] then (Inl ''group name is required'', s)
      else if length memberIDs < 2 then (Inl ''a group requires at least 2 members'', s)
      else RoomStore_put
        \<lparr>rm_RoomID = ''group:'' @ uuid, rm_Name = name, rm_Kind = RoomKindGroup,
         rm_CreatedBy = createdBy, rm_CreatedAt = now, rm_MemberIDs = memberIDs\<rparr> s)"

section \<open>The contract of a room back end\<close>

text \<open>\<open>get\<close> after a successful \<open>save\<close>; the key of an entry is its id.\<close>

locale room_backend =
  fixes get :: "'s \<Rightarrow> string \<Rightarrow> 'm option go_result"
    and save :: "'m \<Rightarrow> 's \<Rightarrow> unit go_result \<times> 's"
    and key :: "'m \<Rightarrow> string"
    and invar :: "'s \<Rightarrow> bool"
  assumes invar_save: "invar s \<Longrightarrow> save m s = (res, s') \<Longrightarrow> invar s'"
    and get_save: "invar s \<Longrightarrow> save m s = (Inr (), s') \<Longrightarrow>
      get s' k = (if k = key m then Inr (Some m) else get s k)"
begin

text \<open>Get-or-create: once it has returned a value, every later call returns that value and
  leaves the store alone, whatever it would have created.\<close>

lemma get_or_create_stable:
  assumes create: "\<And>m s. create m s = (case get s (key m) of Inr (Some x) \<Rightarrow> (Inr x, s)
      | _ \<Rightarrow> (case save m s of (Inl e, s') \<Rightarrow> (Inl e, s') | (Inr _, s') \<Rightarrow> (Inr m, s')))"
    and "invar s" "create m1 s = (Inr x, s1)" "key m1 = key m2"
  shows "create m2 s1 = (Inr x, s1)"
proof -
  have "get s1 (key m1) = Inr (Some x)"
  proof (cases "\<exists>y. get s (key m1) = Inr (Some y)")
    case True
    then show ?thesis using assms(3) by (auto simp: create)
  next
    case False
    then have "(case save m1 s of (Inl e, s') \<Rightarrow> (Inl e, s') | (Inr _, s') \<Rightarrow> (Inr m1, s')) = (Inr x, s1)"
      using assms(3) by (auto simp: create split: sum.splits option.splits)
    then have "save m1 s = (Inr (), s1)" "x = m1"
      by (auto split: sum.splits prod.splits)
    then show ?thesis using get_save[OF assms(2)] by simp
  qed
  then show ?thesis using assms(4) by (simp add: create)
qed

end

section \<open>The two back ends satisfy it\<close>

lemma room_Unmarshal_Marshal [simp]: "room_Unmarshal (room_Marshal m) = Some m"
  by (simp add: room_Unmarshal_def room_Marshal_def RoomMeta_zero_def)

lemma room_key_inj [simp]: "room_key a = room_key b \<longleftrightarrow> a = b"
  by (simp add: room_key_def)

interpretation mem_rooms: room_backend RoomStore_Get RoomStore_save rm_RoomID "\<lambda>s. rs_rdb s = None"
  by unfold_locales (auto simp: RoomStore_Get_def RoomStore_save_def)

locale redis_rooms = redis_up ops live elapse
  for ops :: "('r, room_json) redis_ops" and live and elapse
begin

lemma rooms_contract:
  "room_backend RoomStore_Get RoomStore_save rm_RoomID (\<lambda>s. rs_rdb s = Some ops)"
proof
  fix s s' :: "'r RoomStore" and m res k
  assume s: "rs_rdb s = Some ops"
  show "rs_rdb s' = Some ops" if "RoomStore_save m s = (res, s')"
    using that s by (auto simp: RoomStore_save_def split: prod.splits)
  show "RoomStore_Get s' k = (if k = rm_RoomID m then Inr (Some m) else RoomStore_Get s k)"
    if "RoomStore_save m s = (Inr (), s')"
    using that s live_set[of "room_key (rm_RoomID m)" "room_Marshal m" 0 "rs_redis s"]
    by (auto simp: RoomStore_Get_def RoomStore_save_def get_eq split: prod.splits)
qed

end

sublocale redis_rooms \<subseteq> rr: room_backend RoomStore_Get RoomStore_save rm_RoomID "\<lambda>s. rs_rdb s = Some ops"
  by (rule rooms_contract)

interpretation ref_rooms: redis_rooms ref_redis "\<lambda>r. r" ref_elapse
  by unfold_locales

section \<open>Lemmas\<close>

lemma dm_key: "''dm:'' @ Join (sort_pair a b) '':'' = dm_id a b"
  by (auto simp: dm_id_def sort_pair_eq)

text \<open>\<open>CreateDM\<close> is the get-or-create pattern.\<close>

definition dm_meta :: "gotime \<Rightarrow> string \<Rightarrow> string \<Rightarrow> string \<Rightarrow> RoomMeta" where
  "dm_meta now userA userB createdBy =
     \<lparr>rm_RoomID = dm_id userA userB, rm_Name = [], rm_Kind = RoomKindDM, rm_CreatedBy = createdBy,
      rm_CreatedAt = now, rm_MemberIDs = sort_pair userA userB\<rparr>"

lemma CreateDM_pattern:
  assumes "userA \<noteq> []" "userB \<noteq> []" and m: "m = dm_meta now userA userB createdBy"
  shows "RoomStore_CreateDM now userA userB createdBy s =
    (case RoomStore_Get s (rm_RoomID m) of Inr (Some x) \<Rightarrow> (Inr x, s)
     | _ \<Rightarrow> (case RoomStore_save m s of (Inl e, s') \<Rightarrow> (Inl e, s') | (Inr _, s') \<Rightarrow> (Inr m, s')))"
  using assms(1,2) unfolding RoomStore_CreateDM_def Let_def dm_key m dm_meta_def RoomStore_put_def
  by (auto split: sum.splits option.splits)

section \<open>Properties\<close>

text \<open>\<open>CreateDM\<close> of the fallback store is get-or-create, on the in-process map and on every Redis
  server that answers: once it has returned a room for two users, every later call for the same two
  users in either order, by whomever and whenever, returns that very metadata and writes nothing.\<close>

lemma CreateDM_idempotent:
  fixes s :: "'r RoomStore"
  assumes "rs_rdb s = None \<or> (\<exists>live elapse ops. rs_rdb s = Some ops \<and> redis_rooms ops live elapse)"
    and "RoomStore_CreateDM now a b cby s = (Inr m, s1)"
  shows "RoomStore_CreateDM now' b a cby' s1 = (Inr m, s1)"
proof -
  have ne: "a \<noteq> []" "b \<noteq> []" using assms(2) by (auto simp: RoomStore_CreateDM_def split: if_splits)
  define create where "create = (\<lambda>m (s :: 'r RoomStore). case RoomStore_Get s (rm_RoomID m) of
      Inr (Some x) \<Rightarrow> (Inr x, s)
    | _ \<Rightarrow> (case RoomStore_save m s of (Inl e, s') \<Rightarrow> (Inl e, s') | (Inr _, s') \<Rightarrow> (Inr m, s')))"
  have first: "create (dm_meta now a b cby) s = (Inr m, s1)"
    using assms(2) unfolding create_def CreateDM_pattern[OF ne refl] .
  have key: "rm_RoomID (dm_meta now a b cby) = rm_RoomID (dm_meta now' b a cby')"
    by (simp add: dm_meta_def dm_id_commute)
  have "create (dm_meta now' b a cby') s1 = (Inr m, s1)"
  proof (cases "rs_rdb s = None")
    case True
    show ?thesis
      by (rule mem_rooms.get_or_create_stable[where create = create, OF _ True first key]) (simp add: create_def)
  next
    case False
    then obtain live elapse ops where R: "rs_rdb s = Some ops" "redis_rooms ops live elapse"
      using assms(1) by auto
    show ?thesis
      by (rule room_backend.get_or_create_stable[where create = create, OF redis_rooms.rooms_contract[OF R(2)] _ R(1) first key])
        (simp add: create_def)
  qed
  then show ?thesis unfolding create_def CreateDM_pattern[OF ne(2,1) refl] .
qed

end
