(* ===== verification/Room_Id.thy ===== *)
theory Room_Id
  imports Prelude
begin

text \<open>
  Room identifiers: \<open>normalizeRoomID\<close> of \<open>app/server/grpc_server.go\<close>, \<open>splitRoomID\<close> and
  \<open>roomIDAliases\<close> of \<open>app/repository/mongodb.go\<close>.

  A direct-message room of two users has one canonical id, \<open>dm:<lower>:<higher>\<close>
  (\<^const>\<open>dm_id\<close>), and three further spellings that clients and old documents use:
  \<open>dm:a:b\<close> unsorted, \<open>dm-a-b\<close> and \<open>CONV_<uuid>_<uuid>\<close>. The lemmas say which spellings
  are mapped to the canonical id, that the canonical ids of different pairs differ, and what
  the alias list used for history queries contains.
\<close>

section \<open>Definitions\<close>

text \<open>The three rewriting branches of \<open>normalizeRoomID\<close>, in the order of the code; a branch
  that does not return falls through.\<close>

definition normalize_hyphen :: "string \<Rightarrow> string option" where
  "normalize_hyphen roomID =
     (if HasPrefix roomID ''dm-'' then
        let parts = split_on (CHR ''-'') roomID
        in if 3 \<le> length parts \<and> parts ! 1 \<noteq> [] \<and> parts ! 2 \<noteq> [] then
             let userA = parts ! 1; userB = Join (drop 2 parts) ''-''
             in if userA \<noteq> [] \<and> userB \<noteq> [] then Some (dm_id userA userB) else None
           else None
      else None)"

definition normalize_colon :: "string \<Rightarrow> string option" where
  "normalize_colon roomID =
     (if HasPrefix roomID ''dm:'' then
        let parts = split_on (CHR '':'') roomID
        in if 3 \<le> length parts \<and> parts ! 1 \<noteq> [] \<and> parts ! 2 \<noteq> [] then
             let a = parts ! 1; b = Join (drop 2 parts) '':''
             in if a \<noteq> [] \<and> b \<noteq> [] then Some (dm_id a b) else None
           else None
      else None)"

definition normalize_conv :: "string \<Rightarrow> string option" where
  "normalize_conv roomID =
     (if HasPrefix roomID ''CONV_'' then
        let rest = TrimPrefix roomID ''CONV_''
        in if 73 \<le> length rest \<and> rest ! 36 = CHR ''_''
           then Some (dm_id (take 36 rest) (drop 37 rest))
           else None
      else None)"

definition normalizeRoomID :: "string \<Rightarrow> string" where
  "normalizeRoomID raw =
     (let roomID = TrimSpace raw
      in if roomID = [] then roomID
         else case normalize_hyphen roomID of Some r \<Rightarrow> r | None \<Rightarrow>
              (case normalize_colon roomID of Some r \<Rightarrow> r | None \<Rightarrow>
               (case normalize_conv roomID of Some r \<Rightarrow> r | None \<Rightarrow> roomID)))"

definition splitRoomID :: "string \<Rightarrow> string list" where
  "splitRoomID roomID =
     (if length roomID \<le> 3 then []
      else let rest = drop 3 roomID;
               isSep = (\<lambda>c. c = CHR '':'' \<or> c = CHR ''-'');
               sep = length (takeWhile (\<lambda>c. \<not> isSep c) rest)
           in if sep = length rest then [] else [take sep rest, drop (sep + 1) rest])"

text \<open>\<open>roomIDAliases\<close>: \<open>out\<close> and the key set \<open>seen\<close> of the code always hold the same ids.\<close>

definition conv_id :: "string \<Rightarrow> string \<Rightarrow> string" where
  "conv_id a b = ''CONV_'' @ a @ ''_'' @ b"

definition alias_add :: "string list \<Rightarrow> string \<Rightarrow> string list" where
  "alias_add out raw =
     (let i = TrimSpace raw in if i = [] \<or> i \<in> set out then out else out @ [i])"

definition canonicalDM :: "string list \<Rightarrow> string \<Rightarrow> string \<Rightarrow> string list" where
  "canonicalDM out a b =
     (if a = [] \<or> b = [] then out
      else let ids = sort_pair a b
           in foldl alias_add out
                [''dm:'' @ ids ! 0 @ '':'' @ ids ! 1, conv_id (ids ! 0) (ids ! 1),
                 conv_id a b, conv_id b a])"

definition roomIDAliases :: "string \<Rightarrow> string list" where
  "roomIDAliases raw =
     (let roomID = TrimSpace raw
      in if roomID = [] then []
         else if HasPrefix roomID ''dm:'' then
           let parts = split_on (CHR '':'') roomID
           in if 3 \<le> length parts
              then canonicalDM [roomID] (parts ! 1) (Join (drop 2 parts) '':'')
              else [roomID]
         else if HasPrefix roomID ''CONV_'' then
           let rest = TrimPrefix roomID ''CONV_''
           in if 73 \<le> length rest \<and> rest ! 36 = CHR ''_''
              then canonicalDM [roomID] (take 36 rest) (drop 37 rest)
              else [roomID]
         else [roomID])"

text \<open>User ids for which the id scheme is unambiguous: non-empty, without the separator of
  the canonical form, and not starting or ending with white space.\<close>

definition wf_uid :: "string \<Rightarrow> bool" where
  "wf_uid u \<longleftrightarrow> u \<noteq> [] \<and> CHR '':'' \<notin> set u \<and> solid (hd u) \<and> solid (last u)"

text \<open>The spellings of a direct-message id and when each of them is understood.\<close>

datatype spelling = Colon | Hyphen | Conv

fun spell :: "spelling \<Rightarrow> string \<Rightarrow> string \<Rightarrow> string" where
  "spell Colon a b = ''dm:'' @ a @ '':'' @ b"
| "spell Hyphen a b = ''dm-'' @ a @ ''-'' @ b"
| "spell Conv a b = conv_id a b"

fun spell_ok :: "spelling \<Rightarrow> string \<Rightarrow> string \<Rightarrow> bool" where
  "spell_ok Colon a b = True"
| "spell_ok Hyphen a b = (CHR ''-'' \<notin> set a \<and> hd b \<noteq> CHR ''-'')"
| "spell_ok Conv a b = (length a = 36 \<and> 36 \<le> length b)"

section \<open>Lemmas\<close>

lemma wf_uidD:
  assumes "wf_uid u"
  shows "u \<noteq> []" "CHR '':'' \<notin> set u" "solid (hd u)" "solid (last u)"
  using assms by (auto simp: wf_uid_def)

lemma solid_letters [simp]: "solid (CHR ''d'')" "solid (CHR ''C'')"
  by (simp_all add: solid_def)

lemma split_prefix_colon:
  "CHR '':'' \<notin> set a \<Longrightarrow>
   split_on (CHR '':'') (''dm:'' @ a @ '':'' @ b) = ''dm'' # a # split_on (CHR '':'') b"
  using split_on_append_sep[of "CHR '':''" "''dm''" "a @ '':'' @ b"]
    split_on_append_sep[of "CHR '':''" a b] by simp

lemma split_prefix_hyphen:
  "CHR ''-'' \<notin> set a \<Longrightarrow>
   split_on (CHR ''-'') (''dm-'' @ a @ ''-'' @ b) = ''dm'' # a # split_on (CHR ''-'') b"
  using split_on_append_sep[of "CHR ''-''" "''dm''" "a @ ''-'' @ b"]
    split_on_append_sep[of "CHR ''-''" a b] by simp

lemma split_on_hd: "b \<noteq> [] \<Longrightarrow> hd b \<noteq> c \<Longrightarrow> split_on c b ! 0 \<noteq> []"
  by (cases b) (auto split: list.splits)

lemma split_on_length: "Suc 0 \<le> length (split_on c b)"
  by (simp add: Suc_le_eq)

lemma normalize_colon_spell:
  assumes "a \<noteq> []" "CHR '':'' \<notin> set a" "b \<noteq> []" "hd b \<noteq> CHR '':''"
  shows "normalize_colon (''dm:'' @ a @ '':'' @ b) = Some (dm_id a b)"
proof -
  have "HasPrefix (''dm:'' @ a @ '':'' @ b) ''dm:''" by (rule HasPrefix_append)
  then show ?thesis
    using assms split_on_hd[of b "CHR '':''"] split_on_length[of "CHR '':''" b]
    unfolding normalize_colon_def split_prefix_colon[OF assms(2)] by (simp add: Let_def)
qed

lemma normalize_hyphen_spell:
  assumes "a \<noteq> []" "CHR ''-'' \<notin> set a" "b \<noteq> []" "hd b \<noteq> CHR ''-''"
  shows "normalize_hyphen (''dm-'' @ a @ ''-'' @ b) = Some (dm_id a b)"
proof -
  have "HasPrefix (''dm-'' @ a @ ''-'' @ b) ''dm-''" by (rule HasPrefix_append)
  then show ?thesis
    using assms split_on_hd[of b "CHR ''-''"] split_on_length[of "CHR ''-''" b]
    unfolding normalize_hyphen_def split_prefix_hyphen[OF assms(2)] by (simp add: Let_def)
qed

lemma normalize_conv_spell:
  assumes "length a = 36" "36 \<le> length b"
  shows "normalize_conv (conv_id a b) = Some (dm_id a b)"
proof -
  have "HasPrefix (conv_id a b) ''CONV_''" "TrimPrefix (conv_id a b) ''CONV_'' = a @ ''_'' @ b"
    unfolding conv_id_def by (rule HasPrefix_append, rule TrimPrefix_append)
  with assms show ?thesis
    by (simp add: normalize_conv_def nth_append)
qed

text \<open>A branch does not fire on the prefix of another.\<close>

lemma no_hyphen_branch:
  "normalize_hyphen (CHR ''d'' # CHR ''m'' # CHR '':'' # s) = None"
  "normalize_hyphen (CHR ''C'' # s) = None"
  by (simp_all add: normalize_hyphen_def HasPrefix_def)

lemma no_colon_branch: "normalize_colon (CHR ''C'' # s) = None"
  by (simp add: normalize_colon_def HasPrefix_def)

lemma TrimSpace_spell:
  assumes "wf_uid b"
  shows "TrimSpace (spell sp a b) = spell sp a b"
proof (rule TrimSpace_solid)
  show "spell sp a b \<noteq> []" "solid (hd (spell sp a b))"
    by (cases sp; simp add: conv_id_def)+
  show "solid (last (spell sp a b))"
    using wf_uidD[OF assms] by (cases sp) (simp_all add: conv_id_def)
qed

lemma spell_nonempty [simp]: "spell sp a b \<noteq> []"
  by (cases sp) (simp_all add: conv_id_def)

lemma normalizeRoomID_spell:
  assumes "wf_uid a" "wf_uid b" "spell_ok sp a b"
  shows "normalizeRoomID (spell sp a b) = dm_id a b"
proof -
  note wfa = wf_uidD[OF assms(1)] and wfb = wf_uidD[OF assms(2)]
  have trim: "TrimSpace (spell sp a b) = spell sp a b"
    by (rule TrimSpace_spell[OF assms(2)])
  show ?thesis
  proof (cases sp)
    case Colon
    have "hd b \<noteq> CHR '':''" using wfb by (metis list.set_sel(1))
    with Colon trim wfa wfb show ?thesis
      using normalize_colon_spell[of a b] no_hyphen_branch(1)[of "a @ '':'' @ b"]
      by (simp add: normalizeRoomID_def)
  next
    case Hyphen
    with trim wfa wfb assms(3) show ?thesis
      using normalize_hyphen_spell[of a b] by (simp add: normalizeRoomID_def)
  next
    case Conv
    with assms(3) have "normalize_conv (conv_id a b) = Some (dm_id a b)"
      by (simp add: normalize_conv_spell)
    then show ?thesis
      using Conv trim no_hyphen_branch(2) no_colon_branch
      by (simp add: normalizeRoomID_def conv_id_def)
  qed
qed

lemma dm_id_spell: "dm_id a b = spell Colon (min a b) (max a b)"
  by (auto simp: dm_id_def sort_pair_eq min_def max_def)

lemma wf_min_max: "wf_uid a \<Longrightarrow> wf_uid b \<Longrightarrow> wf_uid (min a b) \<and> wf_uid (max a b)"
  by (auto simp: min_def max_def)

lemma dm_id_min_max [simp]: "dm_id (min a b) (max a b) = dm_id a b"
  by (auto simp: min_def max_def dm_id_commute)

lemma normalizeRoomID_dm_id:
  assumes "wf_uid a" "wf_uid b"
  shows "normalizeRoomID (dm_id a b) = dm_id a b"
  using normalizeRoomID_spell[of "min a b" "max a b" Colon] wf_min_max[OF assms]
  by (metis dm_id_spell dm_id_min_max spell_ok.simps(1))

lemma dm_id_inj:
  assumes "CHR '':'' \<notin> set a" "CHR '':'' \<notin> set b" "CHR '':'' \<notin> set c" "CHR '':'' \<notin> set d"
    and eq: "dm_id a b = dm_id c d"
  shows "{a, b} = {c, d}"
proof -
  have split: "split_on (CHR '':'') (dm_id x y) = [''dm'', min x y, max x y]"
    if "CHR '':'' \<notin> set x" "CHR '':'' \<notin> set y" for x y
  proof -
    have "CHR '':'' \<notin> set (min x y)" "CHR '':'' \<notin> set (max x y)"
      using that by (auto simp: min_def max_def)
    then show ?thesis
      using split_prefix_colon[of "min x y" "max x y"]
      by (simp add: dm_id_spell split_on_free)
  qed
  then have "min a b = min c d" "max a b = max c d"
    using eq assms(1-4) by (metis list.inject)+
  then show ?thesis by (auto simp: min_def max_def split: if_splits)
qed

lemma normalizeRoomID_other:
  assumes "TrimSpace s = s"
    and "\<not> HasPrefix s ''dm-''" "\<not> HasPrefix s ''dm:''" "\<not> HasPrefix s ''CONV_''"
  shows "normalizeRoomID s = s"
  using assms
  by (simp add: normalizeRoomID_def normalize_hyphen_def normalize_colon_def normalize_conv_def)

section \<open>Aliases\<close>

lemma distinct_alias_add: "distinct out \<Longrightarrow> distinct (alias_add out i)"
  by (simp add: alias_add_def Let_def)

lemma distinct_foldl_alias_add: "distinct out \<Longrightarrow> distinct (foldl alias_add out ids)"
  by (induction ids arbitrary: out) (auto simp: distinct_alias_add)

lemma distinct_canonicalDM: "distinct out \<Longrightarrow> distinct (canonicalDM out a b)"
  unfolding canonicalDM_def Let_def using distinct_foldl_alias_add by presburger

lemma distinct_roomIDAliases: "distinct (roomIDAliases s)"
  by (simp add: roomIDAliases_def Let_def distinct_canonicalDM)

lemma set_alias_add: "set out \<subseteq> set (alias_add out i)"
  by (auto simp: alias_add_def Let_def)

lemma set_foldl_alias_add:
  "set (foldl alias_add out ids) = set out \<union> {j. j \<noteq> [] \<and> (\<exists>i\<in>set ids. j = TrimSpace i)}"
proof (induction ids arbitrary: out)
  case (Cons i ids)
  then show ?case by (auto simp: alias_add_def Let_def)
qed simp

lemma canonicalDM_eq:
  "a \<noteq> [] \<Longrightarrow> b \<noteq> [] \<Longrightarrow> canonicalDM out a b =
     foldl alias_add out [dm_id a b, conv_id (min a b) (max a b), conv_id a b, conv_id b a]"
  by (simp add: canonicalDM_def dm_id_def Let_def sort_pair_eq min_def max_def)

lemma roomIDAliases_dm_id:
  assumes "wf_uid a" "wf_uid b"
  shows "set (roomIDAliases (dm_id a b)) = {dm_id a b, conv_id a b, conv_id b a}"
proof -
  let ?lo = "min a b" and ?hi = "max a b"
  have wf: "wf_uid ?lo" "wf_uid ?hi" using wf_min_max[OF assms] by auto
  have d: "dm_id a b = ''dm:'' @ ?lo @ '':'' @ ?hi" by (simp add: dm_id_spell)
  have trim: "TrimSpace (dm_id a b) = dm_id a b"
    using TrimSpace_spell[OF wf(2), of Colon ?lo] by (simp add: dm_id_spell)
  have trimc: "TrimSpace (conv_id x y) = conv_id x y" if "wf_uid y" for x y
    using TrimSpace_spell[OF that, of Conv x] by simp
  have sp: "split_on (CHR '':'') (dm_id a b) = [''dm'', ?lo, ?hi]"
    unfolding d using split_prefix_colon[of ?lo ?hi] split_on_free wf_uidD(2)[OF wf(1)]
      wf_uidD(2)[OF wf(2)] by metis
  have mm: "min ?lo ?hi = ?lo" "max ?lo ?hi = ?hi"
    by (auto simp: min_def max_def)
  have dne: "dm_id a b \<noteq> []" and hp: "HasPrefix (dm_id a b) ''dm:''"
    unfolding d by (simp, rule HasPrefix_append)
  have cne: "conv_id x y \<noteq> []" for x y by (simp add: conv_id_def)
  have "roomIDAliases (dm_id a b) = canonicalDM [dm_id a b] ?lo ?hi"
    using trim sp dne hp by (simp add: roomIDAliases_def Let_def)
  also have "\<dots> = foldl alias_add [dm_id a b]
      [dm_id a b, conv_id ?lo ?hi, conv_id ?lo ?hi, conv_id ?hi ?lo]"
    using canonicalDM_eq[OF wf_uidD(1)[OF wf(1)] wf_uidD(1)[OF wf(2)]] mm by simp
  finally have eq: "roomIDAliases (dm_id a b) = \<dots>" .
  have "set (roomIDAliases (dm_id a b)) = {dm_id a b, conv_id ?lo ?hi, conv_id ?hi ?lo}"
    unfolding eq set_foldl_alias_add
    using dne cne trim trimc[OF wf(1)] trimc[OF wf(2)] by auto
  then show ?thesis by (auto simp: min_def max_def split: if_splits)
qed

section \<open>Properties\<close>

text \<open>C5. A spelling of a direct-message room that is understood is mapped to the one canonical id of the
  unordered pair, whichever user is named first, and the canonical id is mapped to itself, for user ids
  that are not empty, hold no colon and do not start or end with white space. The spelling with colons is
  always understood; the one with hyphens only if the first id holds no hyphen and the second does not
  start with one, so not for UUIDs (\<open>normalizeRoomID_hyphen_uuid\<close>); the old \<open>CONV_\<close> form only if the first
  id has 36 bytes, as a UUID has, and the second at least 36.\<close>

theorem normalizeRoomID_canonical:
  assumes "wf_uid a" "wf_uid b" "spell_ok sp a b"
  shows "normalizeRoomID (spell sp a b) = dm_id b a \<and> normalizeRoomID (dm_id b a) = dm_id a b"
  using normalizeRoomID_spell[OF assms] normalizeRoomID_dm_id[OF assms(2,1)] dm_id_commute[of a b] by simp

theorem normalizeRoomID_canonical_witness:
  "wf_uid ''bob'' \<and> wf_uid ''alice'' \<and> spell_ok Hyphen ''bob'' ''alice''
   \<and> normalizeRoomID ''dm-bob-alice'' = ''dm:alice:bob''"
  using normalizeRoomID_canonical[of "''bob''" "''alice''" Hyphen]
  by (simp add: wf_uid_def solid_def dm_id_def sort_pair_eq)

text \<open>C26. The room id decides the pair: two direct-message ids in spellings that are understood, of user ids
  that are not empty, hold no colon and do not start or end with white space, name the same two users if
  they normalise to the same room. The provisos on the spellings are those of the canonical form: colons
  always, hyphens only if the first id holds none and the second does not start with one, \<open>CONV_\<close> only with
  a first id of 36 bytes and a second of at least 36. (Outside them one string can spell two pairs, as
  \<open>dm-9a-1-b-2\<close> does.)\<close>

theorem normalizeRoomID_separates:
  assumes "wf_uid a" "wf_uid b" "wf_uid c" "wf_uid d" "spell_ok sp a b" "spell_ok sp' c d"
    and "normalizeRoomID (spell sp a b) = normalizeRoomID (spell sp' c d)"
  shows "{a, b} = {c, d}"
  using assms(7) unfolding normalizeRoomID_spell[OF assms(1,2,5)] normalizeRoomID_spell[OF assms(3,4,6)]
  by (intro dm_id_inj) (use assms(1-4) in \<open>auto simp: wf_uid_def\<close>)

theorem normalizeRoomID_separates_witness:
  "normalizeRoomID (spell Colon ''bob'' ''al'') = normalizeRoomID (spell Hyphen ''al'' ''bob'')
   \<and> {''bob'', ''al''} = {''al'', ''bob''}"
proof -
  have wf: "wf_uid ''bob''" "wf_uid ''al''" "spell_ok Colon ''bob'' ''al''" "spell_ok Hyphen ''al'' ''bob''"
    by (simp_all add: wf_uid_def solid_def)
  have eq: "normalizeRoomID (spell Colon ''bob'' ''al'') = normalizeRoomID (spell Hyphen ''al'' ''bob'')"
    using normalizeRoomID_spell[OF wf(1,2,3)] normalizeRoomID_spell[OF wf(2,1,4)] dm_id_commute by simp
  with normalizeRoomID_separates[OF wf(1,2,2,1,3,4) eq] show ?thesis by simp
qed

text \<open>The alias list of a canonical direct-message id is duplicate-free and holds exactly the
  canonical id and the two orders of the legacy form; when the user ids are UUIDs every alias is
  normalised back to the canonical id, so a history query selects the documents of this room and
  of no other direct-message room.\<close>

lemma roomIDAliases_complete:
  assumes "wf_uid a" "wf_uid b"
  shows "distinct (roomIDAliases (dm_id a b))
    \<and> set (roomIDAliases (dm_id a b)) = {dm_id a b, conv_id a b, conv_id b a}
    \<and> (length a = 36 \<longrightarrow> length b = 36 \<longrightarrow> (\<forall>i\<in>set (roomIDAliases (dm_id a b)). normalizeRoomID i = dm_id a b))"
proof (intro conjI impI ballI)
  show "distinct (roomIDAliases (dm_id a b))" by (rule distinct_roomIDAliases)
  show aliases: "set (roomIDAliases (dm_id a b)) = {dm_id a b, conv_id a b, conv_id b a}"
    by (rule roomIDAliases_dm_id[OF assms])
  fix i assume "length a = 36" "length b = 36" "i \<in> set (roomIDAliases (dm_id a b))"
  then show "normalizeRoomID i = dm_id a b"
    using normalizeRoomID_spell[OF assms, of Conv] normalizeRoomID_spell[OF assms(2,1), of Conv]
      normalizeRoomID_dm_id[OF assms] dm_id_commute[of a b] unfolding aliases by auto
qed

text \<open>Hyphenated ids of users whose ids contain a hyphen, such as UUIDs, are split at the first
  hyphen of the first id: the result is not the canonical id of the pair.\<close>

lemma normalizeRoomID_hyphen_uuid:
  "normalizeRoomID (spell Hyphen ''9a-1'' ''b-2'') = ''dm:1-b-2:9a''
   \<and> normalizeRoomID (spell Hyphen ''9a-1'' ''b-2'') \<noteq> dm_id ''9a-1'' ''b-2''"
proof -
  have "TrimSpace ''dm-9a-1-b-2'' = ''dm-9a-1-b-2''"
    by (rule TrimSpace_solid) (simp_all add: solid_def)
  then show ?thesis
    by (simp add: normalizeRoomID_def normalize_hyphen_def HasPrefix_def dm_id_def sort_pair_eq Let_def)
qed

end
