(* ===== verification/Mongo.thy ===== *)
theory Mongo
  imports Prelude "HOL-Library.Multiset"
begin

text \<open>
  The MongoDB collection operations the message repository calls, as an interface. The driver
  and the server are not part of the repository: every repository operation takes a record of
  collection operations as an argument, and \<open>mongo_coll\<close> states the documented behaviour.

  The contents of a collection are a list of documents; its order is not observable through
  the interface. A filter is a predicate on documents and an update is a record: the field
  paths its operators name, their effect on a matching document, and the document an upsert
  inserts. The server rejects an update in which two operators name the same path and an
  insert that clashes with a unique index. Where several documents match, which one
  \<open>UpdateOne\<close>, \<open>FindOne\<close> and \<open>DeleteOne\<close> act on is left open.

  \<open>ref_coll\<close> is an in-memory implementation of the interface.
\<close>

section \<open>The interface\<close>

datatype mongo_error = DuplicateKeyError | ConflictingUpdateOperators | DriverError string

fun mongo_text :: "mongo_error \<Rightarrow> string" where
  "mongo_text DuplicateKeyError = ''E11000 duplicate key error''"
| "mongo_text ConflictingUpdateOperators = ''updating the path would create a conflict''"
| "mongo_text (DriverError e) = e"

definition IsDuplicateKeyError :: "mongo_error \<Rightarrow> bool" where
  "IsDuplicateKeyError e \<longleftrightarrow> e = DuplicateKeyError"

type_synonym 'a mongo_result = "mongo_error + 'a"

record 'd update =
  u_paths :: "string list"
  u_apply :: "'d \<Rightarrow> 'd"
  u_insert :: "'d option" \<comment> \<open>present when the upsert option is set\<close>

text \<open>Sorting of a find: descending by the listed keys, most significant first.\<close>

record 'd coll_ops =
  c_find_one :: "('d \<Rightarrow> bool) \<Rightarrow> 'd list \<Rightarrow> 'd option mongo_result"
  c_find :: "('d \<Rightarrow> bool) \<Rightarrow> ('d \<Rightarrow> int list) \<Rightarrow> nat option \<Rightarrow> 'd list \<Rightarrow> 'd list mongo_result"
  c_insert_one :: "'d \<Rightarrow> 'd list \<Rightarrow> unit mongo_result \<times> 'd list"
  c_insert_many :: "'d list \<Rightarrow> 'd list \<Rightarrow> unit mongo_result \<times> 'd list"
  c_update_one :: "('d \<Rightarrow> bool) \<Rightarrow> 'd update \<Rightarrow> 'd list \<Rightarrow> nat mongo_result \<times> 'd list"
  c_update_many :: "('d \<Rightarrow> bool) \<Rightarrow> 'd update \<Rightarrow> 'd list \<Rightarrow> nat mongo_result \<times> 'd list"
  c_delete_one :: "('d \<Rightarrow> bool) \<Rightarrow> 'd list \<Rightarrow> nat mongo_result \<times> 'd list"
  c_delete_many :: "('d \<Rightarrow> bool) \<Rightarrow> 'd list \<Rightarrow> nat mongo_result \<times> 'd list"
  c_count :: "('d \<Rightarrow> bool) \<Rightarrow> 'd list \<Rightarrow> nat mongo_result"

definition limited :: "nat option \<Rightarrow> 'a list \<Rightarrow> 'a list" where
  "limited n xs = (case n of None \<Rightarrow> xs | Some k \<Rightarrow> take k xs)"

definition sorted_desc :: "('d \<Rightarrow> int list) \<Rightarrow> 'd list \<Rightarrow> bool" where
  "sorted_desc key xs \<longleftrightarrow> sorted_wrt (\<lambda>x y. key y \<le> key x) xs"

text \<open>An aggregation of the shape \<open>$match\<close>, \<open>$sort\<close>, \<open>$group\<close> with two \<open>$first\<close> accumulators, \<open>$sort\<close>
  by the second of them, newest first, and \<open>$limit\<close>. A row is the group's key with the two values.\<close>

record 'd pipeline =
  pl_match :: "'d \<Rightarrow> bool"
  pl_sort :: "'d \<Rightarrow> int list"
  pl_group :: "'d \<Rightarrow> string"
  pl_text :: "'d \<Rightarrow> string"
  pl_at :: "'d \<Rightarrow> int"
  pl_limit :: nat

type_synonym agg_row = "string \<times> string \<times> int"

definition pl_row :: "'d pipeline \<Rightarrow> 'd \<Rightarrow> agg_row" where
  "pl_row pl d = (pl_group pl d, pl_text pl d, pl_at pl d)"

definition row_at :: "agg_row \<Rightarrow> int list" where
  "row_at r = [snd (snd r)]"

function group_firsts :: "('d \<Rightarrow> string) \<Rightarrow> 'd list \<Rightarrow> 'd list" where
  "group_firsts key [] = []"
| "group_firsts key (d # ds) = d # group_firsts key (filter (\<lambda>x. key x \<noteq> key d) ds)"
  by pat_completeness auto
termination
  by (relation "measure (\<lambda>(key, ds). length ds)") (auto simp: less_Suc_eq_le)

section \<open>The in-memory implementation\<close>

fun upd_first :: "('d \<Rightarrow> bool) \<Rightarrow> ('d \<Rightarrow> 'd) \<Rightarrow> 'd list \<Rightarrow> 'd list option" where
  "upd_first p f [] = None"
| "upd_first p f (d # ds) =
     (if p d then Some (f d # ds) else map_option ((#) d) (upd_first p f ds))"

fun del_first :: "('d \<Rightarrow> bool) \<Rightarrow> 'd list \<Rightarrow> 'd list option" where
  "del_first p [] = None"
| "del_first p (d # ds) = (if p d then Some ds else map_option ((#) d) (del_first p ds))"

fun ins_desc :: "('d \<Rightarrow> int list) \<Rightarrow> 'd \<Rightarrow> 'd list \<Rightarrow> 'd list" where
  "ins_desc key x [] = [x]"
| "ins_desc key x (y # ys) = (if key y \<le> key x then x # y # ys else y # ins_desc key x ys)"

definition sort_desc :: "('d \<Rightarrow> int list) \<Rightarrow> 'd list \<Rightarrow> 'd list" where
  "sort_desc key xs = foldr (ins_desc key) xs []"

definition ref_insert :: "('d \<Rightarrow> 'd \<Rightarrow> bool) \<Rightarrow> 'd \<Rightarrow> 'd list \<Rightarrow> unit mongo_result \<times> 'd list" where
  "ref_insert clash d ds =
     (if list_ex (clash d) ds then (Inl DuplicateKeyError, ds) else (Inr (), ds @ [d]))"

fun ref_insert_many ::
  "('d \<Rightarrow> 'd \<Rightarrow> bool) \<Rightarrow> 'd list \<Rightarrow> 'd list \<Rightarrow> unit mongo_result \<times> 'd list" where
  "ref_insert_many clash [] ds = (Inr (), ds)"
| "ref_insert_many clash (x # xs) ds =
     (case ref_insert clash x ds of
        (Inl e, ds') \<Rightarrow> (Inl e, ds')
      | (Inr _, ds') \<Rightarrow> ref_insert_many clash xs ds')"

definition ref_update_one ::
  "('d \<Rightarrow> 'd \<Rightarrow> bool) \<Rightarrow> ('d \<Rightarrow> bool) \<Rightarrow> 'd update \<Rightarrow> 'd list \<Rightarrow> nat mongo_result \<times> 'd list" where
  "ref_update_one clash p u ds =
     (if \<not> distinct (u_paths u) then (Inl ConflictingUpdateOperators, ds)
      else case upd_first p (u_apply u) ds of
             Some ds' \<Rightarrow> (Inr 1, ds')
           | None \<Rightarrow>
               (case u_insert u of
                  None \<Rightarrow> (Inr 0, ds)
                | Some d \<Rightarrow>
                    (case ref_insert clash d ds of
                       (Inl e, ds') \<Rightarrow> (Inl e, ds')
                     | (Inr _, ds') \<Rightarrow> (Inr 0, ds'))))"

definition ref_update_many ::
  "('d \<Rightarrow> bool) \<Rightarrow> 'd update \<Rightarrow> 'd list \<Rightarrow> nat mongo_result \<times> 'd list" where
  "ref_update_many p u ds =
     (if \<not> distinct (u_paths u) then (Inl ConflictingUpdateOperators, ds)
      else (Inr (length (filter p ds)), map (\<lambda>d. if p d then u_apply u d else d) ds))"

definition ref_delete_one :: "('d \<Rightarrow> bool) \<Rightarrow> 'd list \<Rightarrow> nat mongo_result \<times> 'd list" where
  "ref_delete_one p ds = (case del_first p ds of None \<Rightarrow> (Inr 0, ds) | Some ds' \<Rightarrow> (Inr 1, ds'))"

definition ref_delete_many :: "('d \<Rightarrow> bool) \<Rightarrow> 'd list \<Rightarrow> nat mongo_result \<times> 'd list" where
  "ref_delete_many p ds = (Inr (length (filter p ds)), filter (\<lambda>d. \<not> p d) ds)"

definition ref_coll :: "('d \<Rightarrow> 'd \<Rightarrow> bool) \<Rightarrow> 'd coll_ops" where
  "ref_coll clash =
     \<lparr>c_find_one = (\<lambda>p ds. Inr (List.find p ds)),
      c_find = (\<lambda>p key n ds. Inr (limited n (sort_desc key (filter p ds)))),
      c_insert_one = ref_insert clash,
      c_insert_many = ref_insert_many clash,
      c_update_one = ref_update_one clash,
      c_update_many = ref_update_many,
      c_delete_one = ref_delete_one,
      c_delete_many = ref_delete_many,
      c_count = (\<lambda>p ds. Inr (length (filter p ds)))\<rparr>"

definition ref_aggregate :: "'d pipeline \<Rightarrow> 'd list \<Rightarrow> agg_row list mongo_result" where
  "ref_aggregate pl ds = Inr (take (pl_limit pl) (sort_desc row_at
     (map (pl_row pl) (group_firsts (pl_group pl) (sort_desc (pl_sort pl) (filter (pl_match pl) ds))))))"

section \<open>The documented behaviour\<close>

text \<open>What a reply says of the documents before and after the operation. Nothing here excludes that an
  operation fails.\<close>

locale mongo_coll =
  fixes ops :: "'d coll_ops" and clash :: "'d \<Rightarrow> 'd \<Rightarrow> bool"
  assumes find_one_Some: "c_find_one ops p ds = Inr (Some d) \<Longrightarrow> d \<in> set ds \<and> p d"
    and find_one_None: "c_find_one ops p ds = Inr None \<Longrightarrow> \<forall>d\<in>set ds. \<not> p d"
    and find_ok: "c_find ops p key lim ds = Inr l \<Longrightarrow>
      \<exists>a. mset a = mset (filter p ds) \<and> sorted_desc key a \<and> l = limited lim a"
    and insert_ok: "c_insert_one ops d ds = (Inr (), ds') \<Longrightarrow> ds' = ds @ [d] \<and> (\<forall>x\<in>set ds. \<not> clash d x)"
    and insert_err: "c_insert_one ops d ds = (Inl e, ds') \<Longrightarrow>
      ds' = ds \<and> (e = DuplicateKeyError \<longrightarrow> (\<exists>x\<in>set ds. clash d x))"
    and insert_many_ok: "c_insert_many ops xs ds = (Inr (), ds') \<Longrightarrow> ds' = ds @ xs"
    and insert_many_err: "c_insert_many ops xs ds = (Inl e, ds') \<Longrightarrow> \<exists>k. ds' = ds @ take k xs"
    and update_one_ok: "c_update_one ops p u ds = (Inr n, ds') \<Longrightarrow> distinct (u_paths u) \<and>
      (if \<exists>d\<in>set ds. p d
       then n = 1 \<and> (\<exists>xs d ys. ds = xs @ d # ys \<and> p d \<and> ds' = xs @ u_apply u d # ys)
       else n = 0 \<and> ds' = (case u_insert u of None \<Rightarrow> ds | Some d \<Rightarrow> ds @ [d]))"
    and update_one_err: "c_update_one ops p u ds = (Inl e, ds') \<Longrightarrow> ds' = ds"
    and update_many_ok: "c_update_many ops p u ds = (Inr n, ds') \<Longrightarrow> distinct (u_paths u) \<and>
      n = length (filter p ds) \<and> ds' = map (\<lambda>d. if p d then u_apply u d else d) ds"
    and update_many_err: "c_update_many ops p u ds = (Inl e, ds') \<Longrightarrow>
      list_all2 (\<lambda>d d'. d' = d \<or> (p d \<and> d' = u_apply u d)) ds ds'"
    and delete_one_ok: "c_delete_one ops p ds = (Inr n, ds') \<Longrightarrow>
      (if \<exists>d\<in>set ds. p d then \<exists>xs d ys. ds = xs @ d # ys \<and> p d \<and> ds' = xs @ ys else ds' = ds)"
    and delete_one_err: "c_delete_one ops p ds = (Inl e, ds') \<Longrightarrow> ds' = ds"
    and delete_many_ok: "c_delete_many ops p ds = (Inr n, ds') \<Longrightarrow> ds' = filter (\<lambda>d. \<not> p d) ds"
    and count_ok: "c_count ops p ds = Inr n \<Longrightarrow> n = length (filter p ds)"
begin

lemma find_all: "c_find ops p key None ds = Inr l \<Longrightarrow> mset l = mset (filter p ds)"
  using find_ok unfolding limited_def by fastforce

text \<open>A document no filter matches survives an update unchanged; an updated one comes from a
  document that matched.\<close>

text \<open>An update that does not upsert replaces one document that matches, at its place, or changes nothing.\<close>

lemma update_one_outcome:
  assumes "c_update_one ops p u ds = (res, ds')" "u_insert u = None"
  shows "res = Inr n \<Longrightarrow> 0 < n \<Longrightarrow> \<exists>xs d ys. ds = xs @ d # ys \<and> p d \<and> ds' = xs @ u_apply u d # ys"
    and "res = Inr 0 \<Longrightarrow> ds' = ds \<and> \<not> (\<exists>d\<in>set ds. p d)"
    and "res = Inl e \<Longrightarrow> ds' = ds"
proof -
  show "\<exists>xs d ys. ds = xs @ d # ys \<and> p d \<and> ds' = xs @ u_apply u d # ys" if "res = Inr n" "0 < n"
    using update_one_ok[of p u ds n ds'] assms that by (cases "\<exists>d\<in>set ds. p d") simp_all
  show "ds' = ds \<and> \<not> (\<exists>d\<in>set ds. p d)" if "res = Inr 0"
    using update_one_ok[of p u ds 0 ds'] assms that by (cases "\<exists>d\<in>set ds. p d") simp_all
  show "ds' = ds" if "res = Inl e" using update_one_err[of p u ds e ds'] assms(1) that by simp
qed

lemma update_one_conflict:
  "\<not> distinct (u_paths u) \<Longrightarrow> \<exists>e. c_update_one ops p u ds = (Inl e, ds)"
proof (cases "c_update_one ops p u ds")
  case (Pair res ds')
  assume "\<not> distinct (u_paths u)"
  then show ?thesis
    using Pair update_one_ok[of p u ds _ ds'] update_one_err[of p u ds _ ds'] by (cases res) auto
qed

lemma update_one_map:
  assumes "c_update_one ops p u ds = (Inr n, ds')" "\<And>d. f (u_apply u d) = f d" "u_insert u = None"
  shows "map f ds' = map f ds"
  using update_one_ok[OF assms(1)] assms(2,3) by (auto split: if_splits)

lemma update_one_map_snd:
  assumes "\<And>d. f (u_apply u d) = f d" "u_insert u = None"
  shows "map f (snd (c_update_one ops p u ds)) = map f ds"
proof (cases "c_update_one ops p u ds")
  case (Pair res ds')
  then show ?thesis
    using update_one_map[of p u ds _ ds' f] update_one_err[of p u ds _ ds'] assms by (cases res) auto
qed

end

text \<open>A server that answers: the operations fail only for the reasons documented.\<close>

locale mongo_up = mongo_coll +
  assumes find_one_up: "\<exists>r. c_find_one ops p ds = Inr r"
    and find_up: "\<exists>l. c_find ops p key lim ds = Inr l"
    and insert_up: "\<forall>x\<in>set ds. \<not> clash d x \<Longrightarrow> fst (c_insert_one ops d ds) = Inr ()"
    and insert_dup: "\<exists>x\<in>set ds. clash d x \<Longrightarrow> fst (c_insert_one ops d ds) = Inl DuplicateKeyError"
    and update_one_up: "distinct (u_paths u) \<Longrightarrow> \<forall>x y. clash (u_apply u x) y = clash x y \<Longrightarrow>
      (\<exists>x\<in>set ds. p x) \<or> u_insert u = None \<or> (\<forall>x\<in>set ds. \<not> clash (the (u_insert u)) x) \<Longrightarrow>
      \<exists>n. fst (c_update_one ops p u ds) = Inr n"
    and insert_many_up: "sorted_wrt (\<lambda>x y. \<not> clash y x) xs \<Longrightarrow> \<forall>x\<in>set xs. \<forall>y\<in>set ds. \<not> clash x y \<Longrightarrow>
      fst (c_insert_many ops xs ds) = Inr ()"
    and delete_one_up: "\<exists>n. fst (c_delete_one ops p ds) = Inr n"
    and delete_many_up: "\<exists>n. fst (c_delete_many ops p ds) = Inr n"
    and count_up: "\<exists>n. c_count ops p ds = Inr n"
begin

lemma count_eq: "c_count ops p ds = Inr (length (filter p ds))"
  using count_ok count_up by metis

lemma insert_fresh:
  assumes "\<forall>x\<in>set ds. \<not> clash d x"
  shows "c_insert_one ops d ds = (Inr (), ds @ [d])"
  using insert_ok[of d ds] insert_up[OF assms] by (metis prod.collapse)

lemma insert_clash:
  assumes "\<exists>x\<in>set ds. clash d x"
  shows "c_insert_one ops d ds = (Inl DuplicateKeyError, ds)"
  using insert_err[of d ds DuplicateKeyError] insert_dup[OF assms] by (metis prod.collapse)

end

section \<open>The in-memory implementation satisfies it\<close>

lemma upd_first_Some:
  "upd_first p f ds = Some ds' \<Longrightarrow> \<exists>xs d ys. ds = xs @ d # ys \<and> p d \<and> ds' = xs @ f d # ys"
proof (induction ds arbitrary: ds')
  case (Cons a ds)
  show ?case
  proof (cases "p a")
    case True
    then show ?thesis using Cons.prems by fastforce
  next
    case False
    then obtain z where z: "upd_first p f ds = Some z" "ds' = a # z" using Cons.prems by auto
    then obtain xs d ys where "ds = xs @ d # ys" "p d" "z = xs @ f d # ys" using Cons.IH by blast
    then show ?thesis using z(2) by (metis append_Cons)
  qed
qed simp

lemma upd_first_None: "upd_first p f ds = None \<longleftrightarrow> (\<forall>d\<in>set ds. \<not> p d)"
  by (induction ds) auto

lemma del_first_Some:
  "del_first p ds = Some ds' \<Longrightarrow> \<exists>xs d ys. ds = xs @ d # ys \<and> p d \<and> ds' = xs @ ys"
proof (induction ds arbitrary: ds')
  case (Cons a ds)
  show ?case
  proof (cases "p a")
    case True
    then show ?thesis using Cons.prems by fastforce
  next
    case False
    then obtain z where z: "del_first p ds = Some z" "ds' = a # z" using Cons.prems by auto
    then obtain xs d ys where "ds = xs @ d # ys" "p d" "z = xs @ ys" using Cons.IH by blast
    then show ?thesis using z(2) by (metis append_Cons)
  qed
qed simp

lemma del_first_None: "del_first p ds = None \<longleftrightarrow> (\<forall>d\<in>set ds. \<not> p d)"
  by (induction ds) auto

lemma mset_ins_desc [simp]: "mset (ins_desc key x xs) = add_mset x (mset xs)"
  by (induction xs) auto

lemma set_ins_desc [simp]: "set (ins_desc key x xs) = insert x (set xs)"
  by (induction xs) auto

lemma mset_sort_desc [simp]: "mset (sort_desc key xs) = mset xs"
  by (induction xs) (auto simp: sort_desc_def)

lemma sorted_ins_desc: "sorted_desc key xs \<Longrightarrow> sorted_desc key (ins_desc key x xs)"
  by (induction xs) (auto simp: sorted_desc_def)

lemma sorted_sort_desc: "sorted_desc key (sort_desc key xs)"
  by (induction xs) (auto simp: sort_desc_def sorted_ins_desc, simp add: sorted_desc_def)

lemma ref_insert_many_ok: "ref_insert_many clash xs ds = (Inr u, ds') \<Longrightarrow> ds' = ds @ xs"
  by (induction xs arbitrary: ds) (fastforce simp: ref_insert_def split: if_splits)+

lemma ref_insert_many_err: "ref_insert_many clash xs ds = (Inl e, ds') \<Longrightarrow> \<exists>k. ds' = ds @ take k xs"
proof (induction xs arbitrary: ds)
  case (Cons x xs)
  show ?case
  proof (cases "list_ex (clash x) ds")
    case True
    then show ?thesis using Cons.prems by (intro exI[of _ 0]) (simp add: ref_insert_def)
  next
    case False
    then obtain k where "ds' = (ds @ [x]) @ take k xs"
      using Cons.IH[of "ds @ [x]"] Cons.prems by (auto simp: ref_insert_def)
    then show ?thesis by (intro exI[of _ "Suc k"]) simp
  qed
qed simp

lemma ref_insert_many_up:
  "sorted_wrt (\<lambda>x y. \<not> clash y x) xs \<Longrightarrow> \<forall>x\<in>set xs. \<forall>y\<in>set ds. \<not> clash x y \<Longrightarrow>
   fst (ref_insert_many clash xs ds) = Inr ()"
proof (induction xs arbitrary: ds)
  case (Cons x xs)
  then have "\<not> list_ex (clash x) ds" by (auto simp: list_ex_iff)
  then show ?case using Cons.IH[of "ds @ [x]"] Cons.prems by (simp add: ref_insert_def)
qed simp

lemma ref_update_one_ok:
  assumes "ref_update_one clash p u ds = (Inr n, ds')"
  shows "distinct (u_paths u) \<and>
    (if \<exists>d\<in>set ds. p d
     then n = 1 \<and> (\<exists>xs d ys. ds = xs @ d # ys \<and> p d \<and> ds' = xs @ u_apply u d # ys)
     else n = 0 \<and> ds' = (case u_insert u of None \<Rightarrow> ds | Some d \<Rightarrow> ds @ [d]))"
proof (cases "upd_first p (u_apply u) ds")
  case None
  then have "\<not> (\<exists>d\<in>set ds. p d)" by (simp add: upd_first_None)
  then show ?thesis
    using assms None by (auto simp: ref_update_one_def ref_insert_def split: if_splits option.splits)
next
  case (Some z)
  then have "\<exists>d\<in>set ds. p d" using upd_first_None[of p "u_apply u" ds] by auto
  then show ?thesis
    using assms Some upd_first_Some[OF Some] by (auto simp: ref_update_one_def split: if_splits)
qed

interpretation ref_mongo: mongo_up "ref_coll clash" clash
proof
  fix p :: "'a \<Rightarrow> bool" and ds ds' xs l and d :: 'a and u :: "'a update" and n e key k
  show "c_find_one (ref_coll clash) p ds = Inr (Some d) \<Longrightarrow> d \<in> set ds \<and> p d"
    by (auto simp: ref_coll_def find_Some_iff)
  show "c_find_one (ref_coll clash) p ds = Inr None \<Longrightarrow> \<forall>d\<in>set ds. \<not> p d"
    by (auto simp: ref_coll_def find_None_iff)
  show "\<exists>a. mset a = mset (filter p ds) \<and> sorted_desc key a \<and> l = limited k a"
    if "c_find (ref_coll clash) p key k ds = Inr l"
    using that by (intro exI[of _ "sort_desc key (filter p ds)"])
      (simp add: ref_coll_def sorted_sort_desc)
  show "ds' = ds @ [d] \<and> (\<forall>x\<in>set ds. \<not> clash d x)"
    if "c_insert_one (ref_coll clash) d ds = (Inr (), ds')"
    using that by (auto simp: ref_coll_def ref_insert_def list_ex_iff split: if_splits)
  show "ds' = ds \<and> (e = DuplicateKeyError \<longrightarrow> (\<exists>x\<in>set ds. clash d x))"
    if "c_insert_one (ref_coll clash) d ds = (Inl e, ds')"
    using that by (auto simp: ref_coll_def ref_insert_def list_ex_iff split: if_splits)
  show "c_insert_many (ref_coll clash) xs ds = (Inr (), ds') \<Longrightarrow> ds' = ds @ xs"
    by (auto simp: ref_coll_def intro: ref_insert_many_ok)
  show "c_insert_many (ref_coll clash) xs ds = (Inl e, ds') \<Longrightarrow> \<exists>k. ds' = ds @ take k xs"
    by (auto simp: ref_coll_def intro: ref_insert_many_err)
  show "distinct (u_paths u) \<and>
      (if \<exists>d\<in>set ds. p d
       then n = 1 \<and> (\<exists>xs d ys. ds = xs @ d # ys \<and> p d \<and> ds' = xs @ u_apply u d # ys)
       else n = 0 \<and> ds' = (case u_insert u of None \<Rightarrow> ds | Some d \<Rightarrow> ds @ [d]))"
    if "c_update_one (ref_coll clash) p u ds = (Inr n, ds')"
    using that by (intro ref_update_one_ok) (simp add: ref_coll_def)
  show "c_update_one (ref_coll clash) p u ds = (Inl e, ds') \<Longrightarrow> ds' = ds"
    by (auto simp: ref_coll_def ref_update_one_def ref_insert_def split: if_splits option.splits)
  show "distinct (u_paths u) \<and> n = length (filter p ds) \<and> ds' = map (\<lambda>d. if p d then u_apply u d else d) ds"
    if "c_update_many (ref_coll clash) p u ds = (Inr n, ds')"
    using that by (auto simp: ref_coll_def ref_update_many_def split: if_splits)
  show "list_all2 (\<lambda>d d'. d' = d \<or> (p d \<and> d' = u_apply u d)) ds ds'"
    if "c_update_many (ref_coll clash) p u ds = (Inl e, ds')"
    using that by (auto simp: ref_coll_def ref_update_many_def list_all2_same split: if_splits)
  show "if \<exists>d\<in>set ds. p d then \<exists>xs d ys. ds = xs @ d # ys \<and> p d \<and> ds' = xs @ ys else ds' = ds"
    if "c_delete_one (ref_coll clash) p ds = (Inr n, ds')"
  proof (cases "del_first p ds")
    case None
    then show ?thesis using that del_first_None[of p ds] by (auto simp: ref_coll_def ref_delete_one_def)
  next
    case (Some z)
    then have "\<exists>d\<in>set ds. p d" using del_first_None[of p ds] by auto
    then show ?thesis
      using that Some del_first_Some[OF Some] by (auto simp: ref_coll_def ref_delete_one_def)
  qed
  show "c_delete_one (ref_coll clash) p ds = (Inl e, ds') \<Longrightarrow> ds' = ds"
    by (auto simp: ref_coll_def ref_delete_one_def split: option.splits)
  show "c_delete_many (ref_coll clash) p ds = (Inr n, ds') \<Longrightarrow> ds' = filter (\<lambda>d. \<not> p d) ds"
    by (simp add: ref_coll_def ref_delete_many_def)
  show "c_count (ref_coll clash) p ds = Inr n \<Longrightarrow> n = length (filter p ds)"
    by (simp add: ref_coll_def)
  show "\<exists>r. c_find_one (ref_coll clash) p ds = Inr r" "\<exists>l. c_find (ref_coll clash) p key k ds = Inr l"
    "\<exists>n. c_count (ref_coll clash) p ds = Inr n"
    by (simp_all add: ref_coll_def)
  show "\<forall>x\<in>set ds. \<not> clash d x \<Longrightarrow> fst (c_insert_one (ref_coll clash) d ds) = Inr ()"
    "\<exists>x\<in>set ds. clash d x \<Longrightarrow> fst (c_insert_one (ref_coll clash) d ds) = Inl DuplicateKeyError"
    by (auto simp: ref_coll_def ref_insert_def list_ex_iff)
  show "\<exists>n. fst (c_update_one (ref_coll clash) p u ds) = Inr n"
    if "distinct (u_paths u)"
      "(\<exists>x\<in>set ds. p x) \<or> u_insert u = None \<or> (\<forall>x\<in>set ds. \<not> clash (the (u_insert u)) x)"
    using that upd_first_None[of p "u_apply u" ds]
    by (auto simp: ref_coll_def ref_update_one_def ref_insert_def list_ex_iff split: option.splits)
  show "fst (c_insert_many (ref_coll clash) xs ds) = Inr ()"
    if "sorted_wrt (\<lambda>x y. \<not> clash y x) xs" "\<forall>x\<in>set xs. \<forall>y\<in>set ds. \<not> clash x y"
    using that
    by (simp add: ref_coll_def ref_insert_many_up)
  show "\<exists>n. fst (c_delete_one (ref_coll clash) p ds) = Inr n" "\<exists>n. fst (c_delete_many (ref_coll clash) p ds) = Inr n"
    by (simp_all add: ref_coll_def ref_delete_one_def ref_delete_many_def split: option.split)
qed

section \<open>Aggregation\<close>

lemma group_firsts_subset: "d \<in> set (group_firsts key ds) \<Longrightarrow> d \<in> set ds"
  by (induction key ds rule: group_firsts.induct) auto

lemma group_firsts_keys: "key ` set (group_firsts key ds) = key ` set ds"
proof (induction key ds rule: group_firsts.induct)
  case (2 key d ds)
  then have "key ` set (group_firsts key (d # ds)) = insert (key d) (key ` {x \<in> set ds. key x \<noteq> key d})" by simp
  also have "\<dots> = key ` set (d # ds)" by auto
  finally show ?case .
qed simp

lemma group_firsts_distinct: "distinct (map key (group_firsts key ds))"
proof (induction key ds rule: group_firsts.induct)
  case (2 key d ds)
  have "key d \<notin> key ` set (group_firsts key (filter (\<lambda>x. key x \<noteq> key d) ds))"
    unfolding group_firsts_keys by (rule notI, erule imageE) simp
  then show ?case using 2 by simp
qed simp

lemma group_firsts_first:
  assumes "sorted_desc srt ds" "d \<in> set (group_firsts key ds)" "x \<in> set ds" "key x = key d"
  shows "srt x \<le> srt d"
  using assms
proof (induction key ds rule: group_firsts.induct)
  case (2 key a ds)
  show ?case
  proof (cases "d = a")
    case True
    then show ?thesis using 2(2,4) by (auto simp: sorted_desc_def)
  next
    case False
    then have d: "d \<in> set (group_firsts key (filter (\<lambda>y. key y \<noteq> key a) ds))" using 2(3) by simp
    then have "key d \<noteq> key a" using group_firsts_subset[OF d] by simp
    moreover have "sorted_desc srt (filter (\<lambda>y. key y \<noteq> key a) ds)"
      using 2(2) by (simp add: sorted_desc_def sorted_wrt_filter)
    ultimately show ?thesis using 2(1)[OF _ d] 2(4,5) by auto
  qed
qed simp

text \<open>The order in which \<open>$group\<close> hands its rows on and the order of equal keys are not documented.\<close>

locale mongo_aggregate =
  fixes agg :: "'d pipeline \<Rightarrow> 'd list \<Rightarrow> agg_row list mongo_result"
  assumes aggregate_ok: "agg pl ds = Inr rows \<Longrightarrow>
    \<exists>a g. mset a = mset (filter (pl_match pl) ds) \<and> sorted_desc (pl_sort pl) a
      \<and> mset g = mset (map (pl_row pl) (group_firsts (pl_group pl) a)) \<and> sorted_desc row_at g
      \<and> rows = take (pl_limit pl) g"
begin

lemma aggregate_rows:
  assumes "agg pl ds = Inr rows"
  shows "distinct (map fst rows)" "sorted_desc row_at rows"
    and "length rows = min (pl_limit pl) (card (pl_group pl ` {d \<in> set ds. pl_match pl d}))"
    and "r \<in> set rows \<Longrightarrow> \<exists>d\<in>set ds. pl_match pl d \<and> r = pl_row pl d
      \<and> (\<forall>x\<in>set ds. pl_match pl x \<longrightarrow> pl_group pl x = pl_group pl d \<longrightarrow> pl_sort pl x \<le> pl_sort pl d)"
proof -
  obtain a g where a: "mset a = mset (filter (pl_match pl) ds)" "sorted_desc (pl_sort pl) a"
    and g: "mset g = mset (map (pl_row pl) (group_firsts (pl_group pl) a))" "sorted_desc row_at g"
    and rows: "rows = take (pl_limit pl) g" using aggregate_ok[OF assms] by blast
  let ?f = "group_firsts (pl_group pl) a"
  have sa: "set a = {d \<in> set ds. pl_match pl d}" using mset_eq_setD[OF a(1)] by simp
  have fst: "map fst (map (pl_row pl) ?f) = map (pl_group pl) ?f" by (simp add: pl_row_def)
  have "mset (map fst g) = mset (map (pl_group pl) ?f)" unfolding fst[symmetric] mset_map[of fst] g(1) ..
  then have d: "distinct (map fst g)" using group_firsts_distinct[of "pl_group pl" a] by (metis mset_eq_imp_distinct_iff)
  then show "distinct (map fst rows)" unfolding rows by (simp add: take_map[symmetric])
  show "sorted_desc row_at rows" using g(2) unfolding rows sorted_desc_def by (rule sorted_wrt_take)
  have "length g = length ?f" using g(1) by (metis mset_eq_length length_map)
  also have "\<dots> = card (pl_group pl ` set ?f)"
    using distinct_card[OF group_firsts_distinct[of "pl_group pl" a]] by simp
  finally show "length rows = min (pl_limit pl) (card (pl_group pl ` {d \<in> set ds. pl_match pl d}))"
    unfolding rows group_firsts_keys sa by simp
  assume "r \<in> set rows"
  then have "r \<in> set g" unfolding rows by (rule in_set_takeD)
  then obtain d where d: "d \<in> set ?f" "r = pl_row pl d" using mset_eq_setD[OF g(1)] by auto
  then show "\<exists>d\<in>set ds. pl_match pl d \<and> r = pl_row pl d
      \<and> (\<forall>x\<in>set ds. pl_match pl x \<longrightarrow> pl_group pl x = pl_group pl d \<longrightarrow> pl_sort pl x \<le> pl_sort pl d)"
    using group_firsts_subset[OF d(1)] group_firsts_first[OF a(2) d(1)] sa by blast
qed

end

interpretation ref_agg: mongo_aggregate ref_aggregate
proof
  fix pl :: "'d pipeline" and ds rows
  assume "ref_aggregate pl ds = Inr rows"
  then show "\<exists>a g. mset a = mset (filter (pl_match pl) ds) \<and> sorted_desc (pl_sort pl) a
      \<and> mset g = mset (map (pl_row pl) (group_firsts (pl_group pl) a)) \<and> sorted_desc row_at g
      \<and> rows = take (pl_limit pl) g"
    by (intro exI[of _ "sort_desc (pl_sort pl) (filter (pl_match pl) ds)"] exI[of _ "sort_desc row_at
      (map (pl_row pl) (group_firsts (pl_group pl) (sort_desc (pl_sort pl) (filter (pl_match pl) ds))))"])
      (simp add: ref_aggregate_def sorted_sort_desc)
qed

end
