(* ===== verification/Message_Repo.thy ===== *)
theory Message_Repo
  imports Pb Room_Id Mongo
begin

text \<open>
  \<open>app/repository/mongodb.go\<close>: the documents and every operation of \<open>MessageRepository\<close>.

  The operations take the collection operations \<open>M\<close> (see \<open>Mongo\<close>) and the contents of the
  six collections. Clock, generated UUIDs and server-generated object ids are arguments. A
  document holds the values of the Go struct; a field an \<open>omitempty\<close> tag leaves out is its
  zero value, and filters on such a field match only when it is present.
\<close>

section \<open>Documents\<close>

record conversationDoc =
  cv_ID :: string
  cv_Type :: string
  cv_Participants :: "string list"
  cv_GroupName :: string
  cv_GroupPhoto :: string
  cv_Description :: string
  cv_MemberCount :: int
  cv_LastMessage :: string
  cv_LastMessageID :: string
  cv_LastMessageAt :: gotime
  cv_CreatedBy :: string
  cv_CreatedAt :: gotime

definition conversationDoc_zero :: conversationDoc where
  "conversationDoc_zero =
     \<lparr>cv_ID = [], cv_Type = [], cv_Participants = [], cv_GroupName = [], cv_GroupPhoto = [],
      cv_Description = [], cv_MemberCount = 0, cv_LastMessage = [], cv_LastMessageID = [],
      cv_LastMessageAt = zero_time, cv_CreatedBy = [], cv_CreatedAt = zero_time\<rparr>"

text \<open>The \<open>_id\<close> of a group member is the string the service chose, or an object id the server
  generated when an upsert did not name one.\<close>

datatype docid = StrId string | ObjectId nat

record groupMemberDoc =
  gm_ID :: docid
  gm_ConversationID :: string
  gm_UserID :: string
  gm_Role :: string
  gm_JoinedAt :: gotime
  gm_Status :: string

record messageDoc =
  md_ID :: string
  md_MessageID :: string
  md_ConversationID :: string
  md_SenderID :: string
  md_MessageType :: string
  md_Content :: string
  md_CreatedAt :: gotime
  md_DeliveredAt :: gotime
  md_MediaKey :: string
  md_MediaName :: string
  md_MediaMimeType :: string
  md_MediaSizeBytes :: int
  md_ReplyToMessageID :: string
  md_IsDeleted :: bool
  md_EditedAt :: gotime
  md_RoomID :: string
  md_UserID :: string
  md_TextBody :: string
  md_SentAt :: gotime

record messageReadDoc =
  mr_ID :: string
  mr_ConversationID :: string
  mr_SenderID :: string
  mr_Content :: string
  mr_ReadBy :: "string list"

record readReceiptDoc =
  rr_RoomID :: string
  rr_UserID :: string
  rr_LastReadAt :: gotime
  rr_LastReadMsgID :: string

record mediaUploadDoc =
  mu_MediaKey :: string
  mu_UploaderID :: string
  mu_RoomID :: string
  mu_FileName :: string
  mu_MimeType :: string
  mu_SizeBytes :: int
  mu_UploadedAt :: gotime
  mu_ExpiresAt :: gotime

record UserRoomSummary =
  us_RoomID :: string
  us_LastMessage :: string
  us_LastMessageAt :: gotime
  us_MemberIDs :: "string list"

section \<open>Collections\<close>

record mongo_db =
  db_conversations :: "conversationDoc list"
  db_group_members :: "groupMemberDoc list"
  db_messages :: "messageDoc list"
  db_message_read :: "messageReadDoc list"
  db_receipts :: "readReceiptDoc list"
  db_media :: "mediaUploadDoc list"

record mongo_ops =
  mo_conversations :: "conversationDoc coll_ops"
  mo_group_members :: "groupMemberDoc coll_ops"
  mo_messages :: "messageDoc coll_ops"
  mo_message_read :: "messageReadDoc coll_ops"
  mo_receipts :: "readReceiptDoc coll_ops"
  mo_media :: "mediaUploadDoc coll_ops"

text \<open>Unique keys: \<open>_id\<close> everywhere, and the unique index \<open>gm_conv_user\<close> that
  \<open>ensureIndexes\<close> creates on \<open>group_members\<close>.\<close>

definition conv_clash :: "conversationDoc \<Rightarrow> conversationDoc \<Rightarrow> bool" where
  "conv_clash a b \<longleftrightarrow> cv_ID a = cv_ID b"

definition gm_clash :: "groupMemberDoc \<Rightarrow> groupMemberDoc \<Rightarrow> bool" where
  "gm_clash a b \<longleftrightarrow> gm_ID a = gm_ID b
     \<or> (gm_ConversationID a = gm_ConversationID b \<and> gm_UserID a = gm_UserID b)"

definition msg_clash :: "messageDoc \<Rightarrow> messageDoc \<Rightarrow> bool" where
  "msg_clash a b \<longleftrightarrow> md_ID a = md_ID b"

definition read_clash :: "messageReadDoc \<Rightarrow> messageReadDoc \<Rightarrow> bool" where
  "read_clash a b \<longleftrightarrow> mr_ID a = mr_ID b"

definition media_clash :: "mediaUploadDoc \<Rightarrow> mediaUploadDoc \<Rightarrow> bool" where
  "media_clash a b \<longleftrightarrow> mu_MediaKey a = mu_MediaKey b"

definition ref_mongo_ops :: mongo_ops where
  "ref_mongo_ops =
     \<lparr>mo_conversations = ref_coll conv_clash, mo_group_members = ref_coll gm_clash,
      mo_messages = ref_coll msg_clash, mo_message_read = ref_coll read_clash,
      mo_receipts = ref_coll (\<lambda>_ _. False), mo_media = ref_coll media_clash\<rparr>"

definition mongo_db_empty :: mongo_db where
  "mongo_db_empty = \<lparr>db_conversations = [], db_group_members = [], db_messages = [],
     db_message_read = [], db_receipts = [], db_media = []\<rparr>"

text \<open>\<open>$addToSet\<close> and \<open>$pull\<close> on an array, \<open>$lt\<close> on a date that may be absent.\<close>

definition add_to_set :: "string \<Rightarrow> string list \<Rightarrow> string list" where
  "add_to_set x xs = (if x \<in> set xs then xs else xs @ [x])"

definition bson_lt :: "gotime \<Rightarrow> gotime \<Rightarrow> bool" where
  "bson_lt v t \<longleftrightarrow> \<not> IsZero v \<and> v < t"

section \<open>Conversions\<close>

definition docToConversationDetail :: "conversationDoc \<Rightarrow> ConversationDetail" where
  "docToConversationDetail d =
     \<lparr>cd_ConversationId = cv_ID d,
      cd_Type = (if cv_Type d = ''GROUP'' then ROOM_TYPE_GROUP else ROOM_TYPE_DM),
      cd_Participants = cv_Participants d, cd_GroupName = cv_GroupName d,
      cd_GroupPhoto = cv_GroupPhoto d, cd_Description = cv_Description d,
      cd_MemberCount = cv_MemberCount d, cd_LastMessage = cv_LastMessage d,
      cd_LastMessageId = cv_LastMessageID d, cd_LastMessageAt = toUnixMilli (cv_LastMessageAt d),
      cd_CreatedBy = cv_CreatedBy d, cd_CreatedAt = toUnixMilli (cv_CreatedAt d)\<rparr>"

definition docToServerMessage :: "messageDoc \<Rightarrow> ServerMessage" where
  "docToServerMessage doc =
     (let cID = (if md_ConversationID doc = [] then md_RoomID doc else md_ConversationID doc);
          sID = (if md_SenderID doc = [] then md_UserID doc else md_SenderID doc);
          text = (if md_Content doc = [] then md_TextBody doc else md_Content doc);
          createdAt = (if IsZero (md_CreatedAt doc) then md_SentAt doc else md_CreatedAt doc);
          msgType = (case MessageType_value (''MESSAGE_TYPE_'' @ ToUpper (md_MessageType doc)) of
                       Some t \<Rightarrow> t | None \<Rightarrow> MESSAGE_TYPE_TEXT)
      in ServerMessage_zero
           \<lparr>sm_RoomId := cID, sm_UserId := sID, sm_MessageId := md_ID doc, sm_Text := text,
            sm_Type := msgType, sm_SentAtUnixMs := toUnixMilli createdAt,
            sm_DeliveredAtUnixMs := toUnixMilli (md_DeliveredAt doc),
            sm_MediaKey := md_MediaKey doc, sm_MediaName := md_MediaName doc,
            sm_MediaMimeType := md_MediaMimeType doc, sm_MediaSizeBytes := md_MediaSizeBytes doc,
            sm_ReplyToMessageId := md_ReplyToMessageID doc, sm_IsDeleted := md_IsDeleted doc,
            sm_EditedAtUnixMs := (if IsZero (md_EditedAt doc) then 0 else toUnixMilli (md_EditedAt doc)),
            sm_EventType := EVENT_TYPE_MESSAGE\<rparr>)"

section \<open>Conversations and groups\<close>

definition direct_doc :: "gotime \<Rightarrow> string \<Rightarrow> string \<Rightarrow> string \<Rightarrow> conversationDoc" where
  "direct_doc now userA userB createdBy =
     conversationDoc_zero\<lparr>cv_ID := dm_id userA userB, cv_Type := ''DIRECT'',
       cv_Participants := sort_pair userA userB, cv_CreatedBy := createdBy, cv_CreatedAt := now\<rparr>"

definition CreateOrGetDirectConversation ::
  "mongo_ops \<Rightarrow> gotime \<Rightarrow> string \<Rightarrow> string \<Rightarrow> string \<Rightarrow> mongo_db
   \<Rightarrow> ConversationDetail go_result \<times> mongo_db" where
  "CreateOrGetDirectConversation M now userA userB createdBy db =
     (if userA = [] \<or> userB = [] then (Inl ''userA and userB are required'', db)
      else let participants = sort_pair userA userB;
               convID = dm_id userA userB;
               doc = direct_doc now userA userB createdBy;
               C = mo_conversations M
           in case c_find_one C (\<lambda>d. cv_Type d = ''DIRECT'' \<and> cv_Participants d = participants)
                     (db_conversations db) of
                Inr (Some existing) \<Rightarrow>
                  (let detail = (docToConversationDetail existing)\<lparr>cd_ConversationId := convID\<rparr>;
                       db' = (if cv_ID existing \<noteq> convID
                              then db\<lparr>db_conversations := snd (c_update_one C (\<lambda>d. cv_ID d = convID)
                                       \<lparr>u_paths = [''_id'', ''type'', ''participants'', ''created_by'', ''created_at''],
                                        u_apply = id, u_insert = Some doc\<rparr> (db_conversations db))\<rparr>
                              else db)
                   in (Inr detail, db'))
              | _ \<Rightarrow>
                  (case c_insert_one C doc (db_conversations db) of
                     (Inr _, cs) \<Rightarrow> (Inr (docToConversationDetail doc), db\<lparr>db_conversations := cs\<rparr>)
                   | (Inl e, cs) \<Rightarrow>
                       (if \<not> IsDuplicateKeyError e
                        then (Inl (''create direct conversation: '' @ mongo_text e), db\<lparr>db_conversations := cs\<rparr>)
                        else (case c_find_one C (\<lambda>d. cv_ID d = convID) cs of
                                Inr (Some existing) \<Rightarrow>
                                  (Inr (docToConversationDetail existing), db\<lparr>db_conversations := cs\<rparr>)
                              | _ \<Rightarrow>
                                  (Inr (docToConversationDetail conversationDoc_zero),
                                   db\<lparr>db_conversations := cs\<rparr>)))))"

text \<open>The distinct non-empty members with the creator; \<open>map_order\<close> is the iteration order of
  the Go map, \<open>nano\<close> the first clock reading (\<open>UnixNano\<close>) and \<open>now\<close> the second.\<close>

definition unique_members :: "string \<Rightarrow> string list \<Rightarrow> string list" where
  "unique_members createdBy memberIDs = remdups (createdBy # filter (\<lambda>m. m \<noteq> []) memberIDs)"

definition gm_doc_id :: "string \<Rightarrow> string \<Rightarrow> docid" where
  "gm_doc_id convID userID = StrId (''GM_'' @ convID @ ''_'' @ userID)"

definition group_doc ::
  "string \<Rightarrow> gotime \<Rightarrow> string \<Rightarrow> string \<Rightarrow> string \<Rightarrow> string \<Rightarrow> string list \<Rightarrow> conversationDoc" where
  "group_doc convID now groupName groupPhoto description createdBy members =
     conversationDoc_zero\<lparr>cv_ID := convID, cv_Type := ''GROUP'', cv_Participants := members,
       cv_GroupName := groupName, cv_GroupPhoto := groupPhoto, cv_Description := description,
       cv_MemberCount := to_int32 (int (length members)), cv_CreatedBy := createdBy,
       cv_CreatedAt := now\<rparr>"

definition member_doc :: "string \<Rightarrow> gotime \<Rightarrow> string \<Rightarrow> string \<Rightarrow> groupMemberDoc" where
  "member_doc convID now createdBy m =
     \<lparr>gm_ID = gm_doc_id convID m, gm_ConversationID = convID, gm_UserID = m,
      gm_Role = (if m = createdBy then ''OWNER'' else ''MEMBER''), gm_JoinedAt = now,
      gm_Status = ''ACTIVE''\<rparr>"

definition CreateGroupConversation ::
  "mongo_ops \<Rightarrow> (string list \<Rightarrow> string list) \<Rightarrow> int \<Rightarrow> gotime \<Rightarrow> string \<Rightarrow> string \<Rightarrow> string \<Rightarrow> string
   \<Rightarrow> string list \<Rightarrow> mongo_db \<Rightarrow> ConversationDetail go_result \<times> mongo_db" where
  "CreateGroupConversation M map_order nano now groupName groupPhoto description createdBy memberIDs db =
     (if groupName = [] then (Inl ''group_name is required'', db)
      else if createdBy = [] then (Inl ''created_by is required'', db)
      else let members = map_order (unique_members createdBy memberIDs);
               convID = ''CONV_'' @ FormatInt nano;
               conv = group_doc convID now groupName groupPhoto description createdBy members
           in case c_insert_one (mo_conversations M) conv (db_conversations db) of
                (Inl e, cs) \<Rightarrow>
                  (Inl (''insert group conversation: '' @ mongo_text e), db\<lparr>db_conversations := cs\<rparr>)
              | (Inr _, cs) \<Rightarrow>
                  (let db1 = db\<lparr>db_conversations := cs\<rparr>; docs = map (member_doc convID now createdBy) members
                   in if docs = [] then (Inr (docToConversationDetail conv), db1)
                      else case c_insert_many (mo_group_members M) docs (db_group_members db1) of
                             (Inl e, gs) \<Rightarrow>
                               (Inl (''insert group members: '' @ mongo_text e), db1\<lparr>db_group_members := gs\<rparr>)
                           | (Inr _, gs) \<Rightarrow>
                               (Inr (docToConversationDetail conv), db1\<lparr>db_group_members := gs\<rparr>)))"

text \<open>\<open>decode_oid\<close> is what the driver makes of an object id when it decodes it into the string
  field \<open>ID\<close>; \<^term>\<open>None\<close> is a decoding error, and then the member is skipped.\<close>

fun decode_id :: "(nat \<Rightarrow> string option) \<Rightarrow> docid \<Rightarrow> string option" where
  "decode_id decode_oid (StrId s) = Some s"
| "decode_id decode_oid (ObjectId n) = decode_oid n"

definition member_view :: "(nat \<Rightarrow> string option) \<Rightarrow> groupMemberDoc \<Rightarrow> GroupMember option" where
  "member_view decode_oid gm =
     map_option (\<lambda>i. \<lparr>gmem_Id = i, gmem_ConversationId = gm_ConversationID gm,
       gmem_UserId = gm_UserID gm, gmem_Role = gm_Role gm, gmem_JoinedAt = toUnixMilli (gm_JoinedAt gm),
       gmem_Status = gm_Status gm\<rparr>) (decode_id decode_oid (gm_ID gm))"

definition GetConversation ::
  "mongo_ops \<Rightarrow> (nat \<Rightarrow> string option) \<Rightarrow> string \<Rightarrow> mongo_db
   \<Rightarrow> (ConversationDetail \<times> GroupMember list) go_result" where
  "GetConversation M decode_oid convID db =
     (case c_find_one (mo_conversations M) (\<lambda>d. cv_ID d = convID) (db_conversations db) of
        Inl e \<Rightarrow> Inl (''get conversation: '' @ mongo_text e)
      | Inr None \<Rightarrow> Inl ''get conversation: mongo: no documents in result''
      | Inr (Some cDoc) \<Rightarrow>
          (let members =
             (if cv_Type cDoc = ''GROUP'' then
                (case c_find (mo_group_members M)
                        (\<lambda>g. gm_ConversationID g = convID \<and> gm_Status g = ''ACTIVE'') (\<lambda>_. []) None
                        (db_group_members db) of
                   Inl _ \<Rightarrow> []
                 | Inr gs \<Rightarrow> List.map_filter (member_view decode_oid) gs)
              else [])
           in Inr (docToConversationDetail cDoc, members)))"

definition same_member :: "string \<Rightarrow> string \<Rightarrow> groupMemberDoc \<Rightarrow> bool" where
  "same_member convID userID g \<longleftrightarrow> gm_ConversationID g = convID \<and> gm_UserID g = userID"

text \<open>\<open>oid\<close> is the object id the server generates if the upsert inserts. The member count is
  incremented by the server, in its document, where it is a number without the bound of the
  \<open>int32\<close> it is decoded to.\<close>

definition AddGroupMember ::
  "mongo_ops \<Rightarrow> nat \<Rightarrow> gotime \<Rightarrow> string \<Rightarrow> string \<Rightarrow> string \<Rightarrow> string \<Rightarrow> mongo_db
   \<Rightarrow> unit go_result \<times> mongo_db" where
  "AddGroupMember M oid now convID userID operatorID role0 db =
     (let role = (if role0 = [] then ''MEMBER'' else role0)
      in case c_update_one (mo_group_members M) (same_member convID userID)
                \<lparr>u_paths = [''role'', ''joined_at'', ''status''],
                 u_apply = (\<lambda>g. g\<lparr>gm_Role := role, gm_JoinedAt := now, gm_Status := ''ACTIVE''\<rparr>),
                 u_insert = Some \<lparr>gm_ID = ObjectId oid, gm_ConversationID = convID, gm_UserID = userID,
                   gm_Role = role, gm_JoinedAt = now, gm_Status = ''ACTIVE''\<rparr>\<rparr>
                (db_group_members db) of
           (Inl e, gs) \<Rightarrow> (Inl (mongo_text e), db\<lparr>db_group_members := gs\<rparr>)
         | (Inr _, gs) \<Rightarrow>
             (Inr (), db\<lparr>db_group_members := gs,
                db_conversations := snd (c_update_one (mo_conversations M) (\<lambda>d. cv_ID d = convID)
                  \<lparr>u_paths = [''participants'', ''member_count''],
                   u_apply = (\<lambda>d. d\<lparr>cv_Participants := add_to_set userID (cv_Participants d),
                                   cv_MemberCount := cv_MemberCount d + 1\<rparr>),
                   u_insert = None\<rparr> (db_conversations db))\<rparr>))"

definition RemoveGroupMember ::
  "mongo_ops \<Rightarrow> string \<Rightarrow> string \<Rightarrow> string \<Rightarrow> mongo_db \<Rightarrow> unit go_result \<times> mongo_db" where
  "RemoveGroupMember M convID userID operatorID db =
     (case c_update_one (mo_group_members M) (same_member convID userID)
             \<lparr>u_paths = [''status''], u_apply = (\<lambda>g. g\<lparr>gm_Status := ''INACTIVE''\<rparr>), u_insert = None\<rparr>
             (db_group_members db) of
        (Inl e, gs) \<Rightarrow> (Inl (mongo_text e), db\<lparr>db_group_members := gs\<rparr>)
      | (Inr _, gs) \<Rightarrow>
          (Inr (), db\<lparr>db_group_members := gs,
             db_conversations := snd (c_update_one (mo_conversations M) (\<lambda>d. cv_ID d = convID)
               \<lparr>u_paths = [''participants'', ''member_count''],
                u_apply = (\<lambda>d. d\<lparr>cv_Participants := removeAll userID (cv_Participants d),
                                cv_MemberCount := cv_MemberCount d - 1\<rparr>),
                u_insert = None\<rparr> (db_conversations db))\<rparr>))"

definition LeaveGroup ::
  "mongo_ops \<Rightarrow> string \<Rightarrow> string \<Rightarrow> mongo_db \<Rightarrow> unit go_result \<times> mongo_db" where
  "LeaveGroup M convID userID db = RemoveGroupMember M convID userID userID db"

definition set_role :: "string \<Rightarrow> groupMemberDoc update" where
  "set_role role = \<lparr>u_paths = [''role''], u_apply = (\<lambda>g. g\<lparr>gm_Role := role\<rparr>), u_insert = None\<rparr>"

definition active_member :: "string \<Rightarrow> string \<Rightarrow> groupMemberDoc \<Rightarrow> bool" where
  "active_member convID userID g \<longleftrightarrow> same_member convID userID g \<and> gm_Status g = ''ACTIVE''"

definition PromoteAdmin ::
  "mongo_ops \<Rightarrow> string \<Rightarrow> string \<Rightarrow> string \<Rightarrow> mongo_db \<Rightarrow> unit go_result \<times> mongo_db" where
  "PromoteAdmin M convID userID operatorID db =
     (case c_update_one (mo_group_members M) (active_member convID userID) (set_role ''ADMIN'')
             (db_group_members db) of
        (Inl e, gs) \<Rightarrow> (Inl (mongo_text e), db\<lparr>db_group_members := gs\<rparr>)
      | (Inr n, gs) \<Rightarrow>
          (if n = 0 then Inl ''active member not found in group'' else Inr (),
           db\<lparr>db_group_members := gs\<rparr>))"

definition TransferOwnership ::
  "mongo_ops \<Rightarrow> string \<Rightarrow> string \<Rightarrow> string \<Rightarrow> mongo_db \<Rightarrow> unit go_result \<times> mongo_db" where
  "TransferOwnership M convID currentOwnerID newOwnerID db =
     (case c_update_one (mo_group_members M) (active_member convID newOwnerID) (set_role ''OWNER'')
             (db_group_members db) of
        (Inl e, gs) \<Rightarrow> (Inl (mongo_text e), db\<lparr>db_group_members := gs\<rparr>)
      | (Inr _, gs) \<Rightarrow>
          (let gs' = (if currentOwnerID \<noteq> []
                      then snd (c_update_one (mo_group_members M) (same_member convID currentOwnerID)
                                  (set_role ''ADMIN'') gs)
                      else gs)
           in (Inr (), db\<lparr>db_group_members := gs'\<rparr>)))"

definition DeleteGroup ::
  "mongo_ops \<Rightarrow> string \<Rightarrow> string \<Rightarrow> mongo_db \<Rightarrow> unit go_result \<times> mongo_db" where
  "DeleteGroup M convID ownerID db =
     (case c_delete_one (mo_conversations M) (\<lambda>d. cv_ID d = convID) (db_conversations db) of
        (Inl e, cs) \<Rightarrow> (Inl (mongo_text e), db\<lparr>db_conversations := cs\<rparr>)
      | (Inr _, cs) \<Rightarrow>
          (Inr (), db\<lparr>db_conversations := cs,
             db_group_members := snd (c_delete_many (mo_group_members M)
               (\<lambda>g. gm_ConversationID g = convID) (db_group_members db))\<rparr>))"

section \<open>Messages and read receipts\<close>

text \<open>The paper-clip rune and a space, before a media name.\<close>

definition clip :: string where
  "clip = [CHR 0xF0, CHR 0x9F, CHR 0x93, CHR 0x8E, CHR 0x20]"

definition message_doc :: "string \<Rightarrow> gotime \<Rightarrow> ServerMessage \<Rightarrow> messageDoc" where
  "message_doc uuid now msg =
     (let msgID = (if sm_MessageId msg = [] then uuid else sm_MessageId msg);
          sent = fromUnixMilli (sm_SentAtUnixMs msg);
          createdAt = (if IsZero sent then now else sent)
      in \<lparr>md_ID = msgID, md_MessageID = msgID, md_ConversationID = sm_RoomId msg,
          md_SenderID = sm_UserId msg, md_MessageType = MessageType_String (sm_Type msg),
          md_Content = sm_Text msg, md_CreatedAt = createdAt,
          md_DeliveredAt = fromUnixMilli (sm_DeliveredAtUnixMs msg), md_MediaKey = sm_MediaKey msg,
          md_MediaName = sm_MediaName msg, md_MediaMimeType = sm_MediaMimeType msg,
          md_MediaSizeBytes = sm_MediaSizeBytes msg, md_ReplyToMessageID = sm_ReplyToMessageId msg,
          md_IsDeleted = sm_IsDeleted msg, md_EditedAt = zero_time, md_RoomID = sm_RoomId msg,
          md_UserID = sm_UserId msg, md_TextBody = sm_Text msg, md_SentAt = createdAt\<rparr>)"

definition msg_preview :: "ServerMessage \<Rightarrow> string" where
  "msg_preview msg =
     (if sm_Text msg = [] \<and> sm_MediaName msg \<noteq> [] then clip @ sm_MediaName msg else sm_Text msg)"

definition last_message_update :: "string \<Rightarrow> string \<Rightarrow> gotime \<Rightarrow> conversationDoc update" where
  "last_message_update preview msgID at =
     \<lparr>u_paths = [''last_message'', ''last_message_id'', ''last_message_at''],
      u_apply = (\<lambda>d. d\<lparr>cv_LastMessage := preview, cv_LastMessageID := msgID, cv_LastMessageAt := at\<rparr>),
      u_insert = None\<rparr>"

text \<open>\<open>$setOnInsert: readDoc\<close> names every field of the document, \<open>$addToSet\<close> names
  \<open>read_by\<close> again.\<close>

definition read_upsert :: "string \<Rightarrow> string \<Rightarrow> string \<Rightarrow> string \<Rightarrow> messageReadDoc update" where
  "read_upsert msgID convID senderID preview =
     \<lparr>u_paths = [''_id'', ''conversation_id'', ''sender_id'', ''content'', ''read_by'', ''read_by''],
      u_apply = (\<lambda>d. d\<lparr>mr_ReadBy := add_to_set senderID (mr_ReadBy d)\<rparr>),
      u_insert = Some \<lparr>mr_ID = msgID, mr_ConversationID = convID, mr_SenderID = senderID,
        mr_Content = preview, mr_ReadBy = [senderID]\<rparr>\<rparr>"

definition SaveMessage ::
  "mongo_ops \<Rightarrow> string \<Rightarrow> gotime \<Rightarrow> ServerMessage \<Rightarrow> mongo_db \<Rightarrow> unit go_result \<times> mongo_db" where
  "SaveMessage M uuid now msg db =
     (let doc = message_doc uuid now msg; preview = msg_preview msg
      in case c_insert_one (mo_messages M) doc (db_messages db) of
           (Inl e, ms) \<Rightarrow> (Inl (''insert message: '' @ mongo_text e), db\<lparr>db_messages := ms\<rparr>)
         | (Inr _, ms) \<Rightarrow>
             (Inr (), db\<lparr>db_messages := ms,
                db_conversations := snd (c_update_one (mo_conversations M)
                  (\<lambda>d. cv_ID d = sm_RoomId msg) (last_message_update preview (md_ID doc) (md_CreatedAt doc))
                  (db_conversations db)),
                db_message_read := snd (c_update_one (mo_message_read M) (\<lambda>d. mr_ID d = md_ID doc)
                  (read_upsert (md_ID doc) (sm_RoomId msg) (sm_UserId msg) preview)
                  (db_message_read db))\<rparr>))"

definition UpdateReadReceipt ::
  "mongo_ops \<Rightarrow> string \<Rightarrow> string \<Rightarrow> string \<Rightarrow> gotime \<Rightarrow> mongo_db \<Rightarrow> unit go_result \<times> mongo_db" where
  "UpdateReadReceipt M roomID userID lastMsgID lastReadAt db =
     (case c_update_one (mo_receipts M) (\<lambda>d. rr_RoomID d = roomID \<and> rr_UserID d = userID)
             \<lparr>u_paths = [''last_read_at'', ''last_read_msg_id''],
              u_apply = (\<lambda>d. d\<lparr>rr_LastReadAt := lastReadAt, rr_LastReadMsgID := lastMsgID\<rparr>),
              u_insert = Some \<lparr>rr_RoomID = roomID, rr_UserID = userID, rr_LastReadAt = lastReadAt,
                rr_LastReadMsgID = lastMsgID\<rparr>\<rparr> (db_receipts db) of
        (Inl e, rs) \<Rightarrow> (Inl (mongo_text e), db\<lparr>db_receipts := rs\<rparr>)
      | (Inr _, rs) \<Rightarrow> (Inr (), db\<lparr>db_receipts := rs\<rparr>))"

definition mark_read :: "string \<Rightarrow> messageReadDoc update" where
  "mark_read userID =
     \<lparr>u_paths = [''read_by''], u_apply = (\<lambda>d. d\<lparr>mr_ReadBy := add_to_set userID (mr_ReadBy d)\<rparr>),
      u_insert = None\<rparr>"

definition MarkMessageRead ::
  "mongo_ops \<Rightarrow> gotime \<Rightarrow> string \<Rightarrow> string \<Rightarrow> string \<Rightarrow> mongo_db \<Rightarrow> unit go_result \<times> mongo_db" where
  "MarkMessageRead M now convID userID msgID db =
     (let db1 = snd (UpdateReadReceipt M convID userID msgID now db);
          (res, rs) = (if msgID \<noteq> []
                       then c_update_one (mo_message_read M) (\<lambda>d. mr_ID d = msgID) (mark_read userID)
                              (db_message_read db1)
                       else c_update_many (mo_message_read M) (\<lambda>d. mr_ConversationID d = convID)
                              (mark_read userID) (db_message_read db1))
      in (case res of Inl e \<Rightarrow> Inl (mongo_text e) | Inr _ \<Rightarrow> Inr (), db1\<lparr>db_message_read := rs\<rparr>))"

definition unread_for :: "string \<Rightarrow> string \<Rightarrow> messageReadDoc \<Rightarrow> bool" where
  "unread_for userID convID d \<longleftrightarrow>
     mr_SenderID d \<noteq> userID \<and> userID \<notin> set (mr_ReadBy d)
     \<and> (convID = [] \<or> mr_ConversationID d = convID)"

definition GetUnreadCount :: "mongo_ops \<Rightarrow> string \<Rightarrow> string \<Rightarrow> mongo_db \<Rightarrow> int go_result" where
  "GetUnreadCount M userID convID db =
     (case c_count (mo_message_read M) (unread_for userID convID) (db_message_read db) of
        Inl e \<Rightarrow> Inl (mongo_text e)
      | Inr n \<Rightarrow> Inr (to_int32 (int n)))"

text \<open>\<open>regex q s\<close>: the pattern \<open>q\<close> of a \<open>$regex\<close> with option \<open>i\<close> matches \<open>s\<close>.\<close>

definition search_filter :: "(string \<Rightarrow> string \<Rightarrow> bool) \<Rightarrow> string \<Rightarrow> string \<Rightarrow> messageDoc \<Rightarrow> bool" where
  "search_filter regex convID query d \<longleftrightarrow>
     \<not> md_IsDeleted d \<and> (md_ConversationID d = convID \<or> md_RoomID d = convID)
     \<and> (regex query (md_Content d) \<or> (md_TextBody d \<noteq> [] \<and> regex query (md_TextBody d)))"

definition SearchMessages ::
  "mongo_ops \<Rightarrow> (string \<Rightarrow> string \<Rightarrow> bool) \<Rightarrow> string \<Rightarrow> string \<Rightarrow> int \<Rightarrow> mongo_db
   \<Rightarrow> ServerMessage list go_result" where
  "SearchMessages M regex convID query limit0 db =
     (let limit = (if limit0 \<le> 0 then 50 else limit0)
      in case c_find (mo_messages M) (search_filter regex convID query) (\<lambda>d. [md_CreatedAt d])
                (Some (nat limit)) (db_messages db) of
           Inl e \<Rightarrow> Inl (''search messages: '' @ mongo_text e)
         | Inr docs \<Rightarrow> Inr (map docToServerMessage docs))"

definition has_msg_id :: "string \<Rightarrow> messageDoc \<Rightarrow> bool" where
  "has_msg_id messageID d \<longleftrightarrow> md_ID d = messageID \<or> (md_MessageID d \<noteq> [] \<and> md_MessageID d = messageID)"

definition owned_by :: "string \<Rightarrow> messageDoc \<Rightarrow> bool" where
  "owned_by userID d \<longleftrightarrow> md_SenderID d = userID \<or> (md_UserID d \<noteq> [] \<and> md_UserID d = userID)"

definition set_deleted :: "messageDoc update" where
  "set_deleted = \<lparr>u_paths = [''is_deleted''], u_apply = (\<lambda>d. d\<lparr>md_IsDeleted := True\<rparr>), u_insert = None\<rparr>"

definition SoftDeleteMessage :: "mongo_ops \<Rightarrow> string \<Rightarrow> mongo_db \<Rightarrow> unit go_result \<times> mongo_db" where
  "SoftDeleteMessage M messageID db =
     (case c_update_one (mo_messages M) (has_msg_id messageID) set_deleted (db_messages db) of
        (Inl e, ms) \<Rightarrow> (Inl (mongo_text e), db\<lparr>db_messages := ms\<rparr>)
      | (Inr _, ms) \<Rightarrow> (Inr (), db\<lparr>db_messages := ms\<rparr>))"

definition SoftDeleteMessageByOwner ::
  "mongo_ops \<Rightarrow> string \<Rightarrow> string \<Rightarrow> mongo_db \<Rightarrow> bool go_result \<times> mongo_db" where
  "SoftDeleteMessageByOwner M messageID userID db =
     (case c_update_one (mo_messages M) (\<lambda>d. has_msg_id messageID d \<and> owned_by userID d) set_deleted
             (db_messages db) of
        (Inl e, ms) \<Rightarrow> (Inl (mongo_text e), db\<lparr>db_messages := ms\<rparr>)
      | (Inr n, ms) \<Rightarrow> (Inr (n > 0), db\<lparr>db_messages := ms\<rparr>))"

definition edit_update :: "string \<Rightarrow> gotime \<Rightarrow> messageDoc update" where
  "edit_update newText now =
     \<lparr>u_paths = [''content'', ''text_body'', ''edited_at''],
      u_apply = (\<lambda>d. d\<lparr>md_Content := newText, md_TextBody := newText, md_EditedAt := now\<rparr>),
      u_insert = None\<rparr>"

definition editable :: "string \<Rightarrow> string \<Rightarrow> messageDoc \<Rightarrow> bool" where
  "editable messageID userID d \<longleftrightarrow>
     \<not> md_IsDeleted d \<and> has_msg_id messageID d \<and> owned_by userID d"

definition EditMessage ::
  "mongo_ops \<Rightarrow> gotime \<Rightarrow> string \<Rightarrow> string \<Rightarrow> string \<Rightarrow> mongo_db \<Rightarrow> int go_result \<times> mongo_db" where
  "EditMessage M now messageID userID newText db =
     (case c_update_one (mo_messages M) (editable messageID userID) (edit_update newText now)
             (db_messages db) of
        (Inl e, ms) \<Rightarrow> (Inl (mongo_text e), db\<lparr>db_messages := ms\<rparr>)
      | (Inr n, ms) \<Rightarrow>
          (if n = 0 then Inl ''message not found or not owned by user'' else Inr (toUnixMilli now),
           db\<lparr>db_messages := ms\<rparr>))"

definition SaveMediaUpload ::
  "mongo_ops \<Rightarrow> gotime \<Rightarrow> string \<Rightarrow> string \<Rightarrow> string \<Rightarrow> string \<Rightarrow> string \<Rightarrow> int \<Rightarrow> gotime \<Rightarrow> mongo_db
   \<Rightarrow> unit go_result \<times> mongo_db" where
  "SaveMediaUpload M now mediaKey uploaderID roomID fileName mimeType sizeBytes expiresAt db =
     (case c_insert_one (mo_media M)
             \<lparr>mu_MediaKey = mediaKey, mu_UploaderID = uploaderID, mu_RoomID = roomID,
              mu_FileName = fileName, mu_MimeType = mimeType, mu_SizeBytes = sizeBytes,
              mu_UploadedAt = now, mu_ExpiresAt = expiresAt\<rparr> (db_media db) of
        (Inl e, ms) \<Rightarrow> (Inl (mongo_text e), db\<lparr>db_media := ms\<rparr>)
      | (Inr _, ms) \<Rightarrow> (Inr (), db\<lparr>db_media := ms\<rparr>))"

section \<open>Queries\<close>

definition newest_first :: "messageDoc \<Rightarrow> int list" where
  "newest_first d = [md_CreatedAt d, md_SentAt d]"

definition queryMessages ::
  "mongo_ops \<Rightarrow> (messageDoc \<Rightarrow> bool) \<Rightarrow> int \<Rightarrow> mongo_db \<Rightarrow> ServerMessage list go_result" where
  "queryMessages M flt limit db =
     (case c_find (mo_messages M) flt newest_first (Some (nat limit)) (db_messages db) of
        Inl e \<Rightarrow> Inl (''mongodb find messages: '' @ mongo_text e)
      | Inr docs \<Rightarrow> Inr (map docToServerMessage docs))"

definition in_rooms :: "string list \<Rightarrow> messageDoc \<Rightarrow> bool" where
  "in_rooms ids d \<longleftrightarrow> md_ConversationID d \<in> set ids \<or> md_RoomID d \<in> set ids"

definition before_cursor :: "gotime \<Rightarrow> messageDoc \<Rightarrow> bool" where
  "before_cursor t d \<longleftrightarrow> bson_lt (md_CreatedAt d) t \<or> bson_lt (md_SentAt d) t"

definition GetMessages_repo ::
  "mongo_ops \<Rightarrow> string \<Rightarrow> int \<Rightarrow> mongo_db \<Rightarrow> ServerMessage list go_result" where
  "GetMessages_repo M roomID limit0 db =
     (let limit = (if limit0 \<le> 0 then 50 else limit0)
      in queryMessages M (in_rooms (roomIDAliases roomID)) limit db)"

definition GetMessagesBefore ::
  "mongo_ops \<Rightarrow> string \<Rightarrow> int \<Rightarrow> int \<Rightarrow> mongo_db \<Rightarrow> ServerMessage list go_result" where
  "GetMessagesBefore M roomID beforeUnixMs limit0 db =
     (let limit = (if limit0 \<le> 0 then 50 else limit0)
      in if beforeUnixMs = 0 then GetMessages_repo M roomID limit db
         else let t = fromUnixMilli beforeUnixMs; ids = roomIDAliases roomID
              in queryMessages M (\<lambda>d. in_rooms ids d \<and> before_cursor t d) limit db)"

definition summary_of :: "conversationDoc \<Rightarrow> UserRoomSummary" where
  "summary_of d = \<lparr>us_RoomID = cv_ID d, us_LastMessage = cv_LastMessage d,
     us_LastMessageAt = cv_LastMessageAt d, us_MemberIDs = cv_Participants d\<rparr>"

definition row_summary :: "string \<times> string \<times> gotime \<Rightarrow> UserRoomSummary option" where
  "row_summary row =
     (case row of (roomID, lastText, lastSentAt) \<Rightarrow>
        if roomID = [] then None
        else let parts = (if length roomID > 3 \<and> (take 3 roomID = ''dm:'' \<or> take 3 roomID = ''dm-'')
                          then splitRoomID roomID else [])
             in Some \<lparr>us_RoomID = roomID, us_LastMessage = lastText, us_LastMessageAt = lastSentAt,
                      us_MemberIDs = (if length parts = 2 then parts else [])\<rparr>)"

text \<open>The fallback pipeline. \<open>regex\<close> is the matching of the server, pattern first; the pattern has the
  user id in it as it is. The sort stage is a Go map with two keys, which are written in the order
  in which Go ranges over it. A field with \<open>omitempty\<close> that is empty is absent and matches nothing.\<close>

definition exactDmRegex :: "string \<Rightarrow> string" where
  "exactDmRegex userID = ''^dm[:-]'' @ userID @ ''[:-]|^dm[:-][^:-]+[:-]'' @ userID @ ''$''"

definition rooms_match :: "(string \<Rightarrow> string \<Rightarrow> bool) \<Rightarrow> string \<Rightarrow> messageDoc \<Rightarrow> bool" where
  "rooms_match regex userID d \<longleftrightarrow> \<not> md_IsDeleted d \<and>
     (md_SenderID d = userID \<or> md_UserID d \<noteq> [] \<and> md_UserID d = userID
      \<or> regex (exactDmRegex userID) (md_ConversationID d)
      \<or> md_RoomID d \<noteq> [] \<and> regex (exactDmRegex userID) (md_RoomID d))"

definition rooms_sort :: "(string list \<Rightarrow> string list) \<Rightarrow> messageDoc \<Rightarrow> int list" where
  "rooms_sort map_order d =
     map (\<lambda>f. if f = ''created_at'' then md_CreatedAt d else md_SentAt d) (map_order [''created_at'', ''sent_at''])"

definition user_rooms_pipeline ::
  "(string \<Rightarrow> string \<Rightarrow> bool) \<Rightarrow> (string list \<Rightarrow> string list) \<Rightarrow> string \<Rightarrow> messageDoc pipeline" where
  "user_rooms_pipeline regex map_order userID =
     \<lparr>pl_match = rooms_match regex userID, pl_sort = rooms_sort map_order, pl_group = md_ConversationID,
      pl_text = md_Content, pl_at = md_CreatedAt, pl_limit = 100\<rparr>"

text \<open>\<open>aggregate\<close> runs a pipeline over the messages.\<close>

definition GetUserRooms_repo ::
  "mongo_ops \<Rightarrow> (messageDoc pipeline \<Rightarrow> messageDoc list \<Rightarrow> agg_row list mongo_result)
   \<Rightarrow> (string \<Rightarrow> string \<Rightarrow> bool) \<Rightarrow> (string list \<Rightarrow> string list) \<Rightarrow> string
   \<Rightarrow> mongo_db \<Rightarrow> UserRoomSummary list go_result" where
  "GetUserRooms_repo M aggregate regex map_order userID db =
     (let first = (case c_find (mo_conversations M)
                          (\<lambda>d. userID \<in> set (cv_Participants d) \<or> cv_CreatedBy d = userID) (\<lambda>_. []) None
                          (db_conversations db) of
                     Inl _ \<Rightarrow> []
                   | Inr ds \<Rightarrow> map summary_of ds)
      in if first \<noteq> [] then Inr first
         else case aggregate (user_rooms_pipeline regex map_order userID) (db_messages db) of
                Inl e \<Rightarrow> Inl (''GetUserRooms aggregate: '' @ mongo_text e)
              | Inr rows \<Rightarrow> Inr (List.map_filter row_summary rows))"

section \<open>Opening, indexes, closing\<close>

record IndexModel =
  ix_Keys :: "(string \<times> int) list"
  ix_Name :: string
  ix_Unique :: bool

definition conversation_indexes :: "IndexModel list" where
  "conversation_indexes =
     [\<lparr>ix_Keys = [(''participants'', 1)], ix_Name = ''conv_participants'', ix_Unique = False\<rparr>,
      \<lparr>ix_Keys = [(''type'', 1)], ix_Name = ''conv_type'', ix_Unique = False\<rparr>]"

definition group_member_indexes :: "IndexModel list" where
  "group_member_indexes =
     [\<lparr>ix_Keys = [(''conversation_id'', 1), (''user_id'', 1)], ix_Name = ''gm_conv_user'', ix_Unique = True\<rparr>,
      \<lparr>ix_Keys = [(''user_id'', 1)], ix_Name = ''gm_user'', ix_Unique = False\<rparr>]"

definition message_indexes :: "IndexModel list" where
  "message_indexes =
     [\<lparr>ix_Keys = [(''conversation_id'', 1), (''created_at'', -1)], ix_Name = ''conv_time'', ix_Unique = False\<rparr>,
      \<lparr>ix_Keys = [(''room_id'', 1), (''sent_at'', -1)], ix_Name = ''room_time'', ix_Unique = False\<rparr>]"

definition message_read_index :: IndexModel where
  "message_read_index = \<lparr>ix_Keys = [(''conversation_id'', 1)], ix_Name = ''mr_conv'', ix_Unique = False\<rparr>"

text \<open>\<open>create\<close> is the outcome of creating indexes on a collection: every error is discarded, and
  the result lists what each collection got.\<close>

definition ensureIndexes ::
  "(string \<Rightarrow> IndexModel list \<Rightarrow> unit mongo_result) \<Rightarrow> unit go_result \<times> (string \<times> IndexModel list) list" where
  "ensureIndexes create =
     (let made = (\<lambda>coll ixs. case create coll ixs of Inl _ \<Rightarrow> (coll, []) | Inr _ \<Rightarrow> (coll, ixs))
      in (Inr (), [made ''conversations'' conversation_indexes, made ''group_members'' group_member_indexes,
                   made ''messages'' message_indexes, made ''message_read'' [message_read_index]]))"

text \<open>\<open>NewMessageRepository\<close>: the database name and the indexes, or the error of the connection or
  the ping.\<close>

definition NewMessageRepository ::
  "(string \<Rightarrow> unit mongo_result) \<Rightarrow> (string \<Rightarrow> unit mongo_result) \<Rightarrow> (string \<Rightarrow> IndexModel list \<Rightarrow> unit mongo_result)
   \<Rightarrow> string \<Rightarrow> string \<Rightarrow> (string \<times> (string \<times> IndexModel list) list) go_result" where
  "NewMessageRepository connect ping create uri dbName0 =
     (let dbName = (if dbName0 = [] then ''zpc_chat'' else dbName0)
      in case connect uri of
           Inl e \<Rightarrow> Inl (''mongodb connect: '' @ mongo_text e)
         | Inr _ \<Rightarrow> (case ping uri of
                      Inl e \<Rightarrow> Inl (''mongodb ping: '' @ mongo_text e)
                    | Inr _ \<Rightarrow> (case ensureIndexes create of
                                 (Inl e, _) \<Rightarrow> Inl e
                               | (Inr _, ixs) \<Rightarrow> Inr (dbName, ixs))))"

text \<open>\<open>Close\<close>: the disconnect of a client, when there is one.\<close>

datatype mongo_call = Disconnect

definition MessageRepository_Close :: "'c option \<Rightarrow> mongo_call list" where
  "MessageRepository_Close client = (case client of None \<Rightarrow> [] | Some _ \<Rightarrow> [Disconnect])"

text \<open>What an index makes unique: two documents clash when a unique index has the same values in
  all of its keys. With \<open>_id\<close>, the indexes on \<open>group_members\<close> give \<^term>\<open>gm_clash\<close>; without
  them only \<open>_id\<close> is left.\<close>

fun gm_field :: "string \<Rightarrow> groupMemberDoc \<Rightarrow> string" where
  "gm_field k g = (if k = ''conversation_id'' then gm_ConversationID g else if k = ''user_id'' then gm_UserID g else [])"

definition index_clash :: "(string \<Rightarrow> 'd \<Rightarrow> string) \<Rightarrow> IndexModel list \<Rightarrow> 'd \<Rightarrow> 'd \<Rightarrow> bool" where
  "index_clash field ixs a b \<longleftrightarrow> list_ex (\<lambda>ix. ix_Unique ix \<and> list_all (\<lambda>(k, _). field k a = field k b) (ix_Keys ix)) ixs"

lemma gm_clash_indexes:
  "gm_clash a b \<longleftrightarrow> gm_ID a = gm_ID b \<or> index_clash gm_field group_member_indexes a b"
  by (simp add: gm_clash_def index_clash_def group_member_indexes_def)

lemma gm_index_failed:
  assumes "NewMessageRepository connect ping create uri name = Inr (db, ixs)"
  shows "map_of ixs ''group_members'' =
      Some (case create ''group_members'' group_member_indexes of Inl _ \<Rightarrow> [] | Inr _ \<Rightarrow> group_member_indexes)"
    and "index_clash gm_field [] a b = False"
  using assms
  by (auto simp: NewMessageRepository_def ensureIndexes_def index_clash_def Let_def split: sum.splits)

section \<open>Lemmas on the conversions\<close>

lemma detail_id [simp]: "cd_ConversationId (docToConversationDetail d) = cv_ID d"
  by (simp add: docToConversationDetail_def)

text \<open>The stored type string already carries the prefix that the reader adds once more.\<close>

lemma stored_type_unknown:
  "MessageType_value (''MESSAGE_TYPE_'' @ ToUpper (MessageType_String t)) = None"
proof (cases "t \<in> {0..4}")
  case True
  then have "t = 0 \<or> t = 1 \<or> t = 2 \<or> t = 3 \<or> t = 4" by auto
  then show ?thesis
    by (elim disjE)
      (simp_all add: MessageType_String_def MessageType_name_def MessageType_value_def ToUpper_def to_upper_def)
next
  case False
  then have s: "MessageType_String t = FormatInt t"
    by (auto simp: MessageType_String_def MessageType_name_def)
  have "FormatInt t \<noteq> [] \<and> (is_digit (hd (FormatInt t)) \<or> hd (FormatInt t) = CHR ''-'')"
    using show_nat_hd by (simp add: FormatInt_def)
  then obtain c cs where c: "FormatInt t = c # cs" "is_digit c \<or> c = CHR ''-''"
    by (cases "FormatInt t") auto
  then have "to_upper c = c" "of_char c < (65::nat)" by (auto simp: to_upper_def is_digit_def)
  then have "ToUpper (FormatInt t) = c # ToUpper cs" "c \<notin> {CHR ''T'', CHR ''I'', CHR ''V'', CHR ''A'', CHR ''F''}"
    using c(1) by (auto simp: ToUpper_def)
  then show ?thesis by (simp add: s MessageType_value_def)
qed

lemma doc_roundtrip:
  assumes "sm_MessageId m \<noteq> []" "sm_SentAtUnixMs m \<noteq> - 62135596800000"
  shows "docToServerMessage (message_doc uuid now m) =
    m\<lparr>sm_Type := MESSAGE_TYPE_TEXT, sm_MediaUrl := [], sm_EventType := EVENT_TYPE_MESSAGE,
      sm_ReactionEmoji := [], sm_EditedAtUnixMs := 0, sm_Status := MESSAGE_STATUS_SENDING,
      sm_IsOnline := False, sm_LastSeenUnixMs := 0\<rparr>"
  using assms stored_type_unknown[of "sm_Type m"]
  by (cases m) (simp add: docToServerMessage_def message_doc_def Let_def ServerMessage_zero_def
      IsZero_fromUnixMilli, simp add: IsZero_def)

section \<open>The repository over a documented server\<close>

locale mongo_repo =
  conv: mongo_coll "mo_conversations M" conv_clash +
  gm: mongo_coll "mo_group_members M" gm_clash +
  msg: mongo_coll "mo_messages M" msg_clash +
  rd: mongo_coll "mo_message_read M" read_clash +
  rc: mongo_coll "mo_receipts M" "\<lambda>_ _. False"
  for M :: mongo_ops
begin

lemma soft_delete_outcome:
  assumes "SoftDeleteMessageByOwner M mid uid db = (res, db')"
  shows "case res of
      Inl e \<Rightarrow> db' = db
    | Inr False \<Rightarrow> db' = db \<and> \<not> (\<exists>d\<in>set (db_messages db). has_msg_id mid d \<and> owned_by uid d)
    | Inr True \<Rightarrow> \<exists>xs d ys. db_messages db = xs @ d # ys \<and> has_msg_id mid d \<and> owned_by uid d
        \<and> db' = db\<lparr>db_messages := xs @ d\<lparr>md_IsDeleted := True\<rparr> # ys\<rparr>"
proof -
  let ?p = "\<lambda>d. has_msg_id mid d \<and> owned_by uid d"
  obtain r ms where u: "c_update_one (mo_messages M) ?p set_deleted (db_messages db) = (r, ms)"
    by fastforce
  have ins: "u_insert set_deleted = None" "u_apply set_deleted d = d\<lparr>md_IsDeleted := True\<rparr>" for d
    by (simp_all add: set_deleted_def)
  note out = msg.update_one_outcome[OF u ins(1), unfolded ins(2)]
  show ?thesis
  proof (cases r)
    case (Inl e)
    then show ?thesis using assms u out(3) by (auto simp: SoftDeleteMessageByOwner_def)
  next
    case (Inr n)
    show ?thesis
    proof (cases "n = 0")
      case True
      then show ?thesis using assms u Inr out(2) by (auto simp: SoftDeleteMessageByOwner_def)
    next
      case False
      then have "res = Inr True" "db' = db\<lparr>db_messages := ms\<rparr>"
        using assms u Inr by (auto simp: SoftDeleteMessageByOwner_def)
      then show ?thesis using out(1)[OF Inr] False by simp blast
    qed
  qed
qed

lemma soft_delete_owner:
  "SoftDeleteMessageByOwner M mid uid db = (Inr True, db') \<Longrightarrow> \<exists>d\<in>set (db_messages db). has_msg_id mid d \<and> owned_by uid d"
  using soft_delete_outcome by fastforce

lemma edit_outcome:
  assumes "EditMessage M now mid uid txt db = (res, db')"
  shows "case res of
      Inl e \<Rightarrow> db' = db
    | Inr at \<Rightarrow> at = toUnixMilli now \<and> (\<exists>xs d ys. db_messages db = xs @ d # ys \<and> editable mid uid d
        \<and> db' = db\<lparr>db_messages := xs @ d\<lparr>md_Content := txt, md_TextBody := txt, md_EditedAt := now\<rparr> # ys\<rparr>)"
proof -
  obtain r ms where u: "c_update_one (mo_messages M) (editable mid uid) (edit_update txt now) (db_messages db) = (r, ms)"
    by fastforce
  have ins: "u_insert (edit_update txt now) = None"
    "u_apply (edit_update txt now) d = d\<lparr>md_Content := txt, md_TextBody := txt, md_EditedAt := now\<rparr>" for d
    by (simp_all add: edit_update_def)
  note out = msg.update_one_outcome[OF u ins(1), unfolded ins(2)]
  show ?thesis
  proof (cases r)
    case (Inl e)
    then show ?thesis using assms u out(3) by (auto simp: EditMessage_def)
  next
    case (Inr n)
    show ?thesis
    proof (cases "n = 0")
      case True
      then show ?thesis using assms u Inr out(2) by (auto simp: EditMessage_def)
    next
      case False
      then have "res = Inr (toUnixMilli now)" "db' = db\<lparr>db_messages := ms\<rparr>"
        using assms u Inr by (auto simp: EditMessage_def)
      then show ?thesis using out(1)[OF Inr] False by simp blast
    qed
  qed
qed

lemma edit_editable:
  "EditMessage M now mid uid txt db = (Inr at, db') \<Longrightarrow>
     at = toUnixMilli now \<and> (\<exists>d\<in>set (db_messages db). editable mid uid d)"
  using edit_outcome by fastforce

lemma query_spec:
  assumes "queryMessages M flt limit db = Inr ms"
  shows "\<exists>a. mset a = mset (filter flt (db_messages db)) \<and> sorted_desc newest_first a
    \<and> ms = map docToServerMessage (take (nat limit) a)"
proof -
  obtain docs where d: "c_find (mo_messages M) flt newest_first (Some (nat limit)) (db_messages db) = Inr docs"
    "ms = map docToServerMessage docs"
    using assms by (auto simp: queryMessages_def split: sum.splits)
  then show ?thesis using msg.find_ok[OF d(1)] by (auto simp: limited_def)
qed

lemma read_upsert_conflicts: "\<not> distinct (u_paths (read_upsert a b c e))"
  by (simp add: read_upsert_def)

lemma SaveMessage_read_docs:
  "SaveMessage M uuid now m db = (res, db') \<Longrightarrow> db_message_read db' = db_message_read db"
proof -
  assume s: "SaveMessage M uuid now m db = (res, db')"
  have "snd (c_update_one (mo_message_read M) p (read_upsert a b c e) ds) = ds" for p a b c e ds
    using rd.update_one_conflict[OF read_upsert_conflicts] by (metis snd_conv)
  then show ?thesis
    using s by (auto simp: SaveMessage_def Let_def split: sum.splits prod.splits)
qed

lemma SaveMessage_stored:
  assumes "SaveMessage M uuid now m db = (Inr u, db')"
  shows "db_messages db' = db_messages db @ [message_doc uuid now m]"
    and "\<forall>d\<in>set (db_messages db). md_ID d \<noteq> md_ID (message_doc uuid now m)"
  using assms msg.insert_ok[of "message_doc uuid now m" "db_messages db"]
  by (auto simp: SaveMessage_def Let_def msg_clash_def split: sum.splits prod.splits)

lemma SaveMessage_failed:
  "SaveMessage M uuid now m db = (Inl e, db') \<Longrightarrow> db' = db"
  using msg.insert_err[of "message_doc uuid now m" "db_messages db"]
  by (auto simp: SaveMessage_def Let_def split: sum.splits prod.splits)

end

locale mongo_repo_up = mongo_repo M +
  convu: mongo_up "mo_conversations M" conv_clash +
  gmu: mongo_up "mo_group_members M" gm_clash +
  msgu: mongo_up "mo_messages M" msg_clash +
  rdu: mongo_up "mo_message_read M" read_clash
  for M :: mongo_ops
begin

lemma direct_conversation_id:
  assumes "userA \<noteq> []" "userB \<noteq> []"
  shows "\<exists>c db'. CreateOrGetDirectConversation M now userA userB by db = (Inr c, db')
    \<and> cd_ConversationId c = dm_id userA userB"
proof -
  let ?C = "mo_conversations M" and ?cs = "db_conversations db"
  let ?doc = "direct_doc now userA userB by"
  let ?p = "\<lambda>d. cv_Type d = ''DIRECT'' \<and> cv_Participants d = sort_pair userA userB"
  obtain r where r: "c_find_one ?C ?p ?cs = Inr r" using convu.find_one_up by blast
  have docid: "cv_ID ?doc = dm_id userA userB" by (simp add: direct_doc_def)
  show ?thesis
  proof (cases r)
    case (Some d)
    then show ?thesis using r assms by (simp add: CreateOrGetDirectConversation_def Let_def)
  next
    case None
    show ?thesis
    proof (cases "\<exists>x\<in>set ?cs. conv_clash ?doc x")
      case False
      then have "c_insert_one ?C ?doc ?cs = (Inr (), ?cs @ [?doc])" by (intro convu.insert_fresh) blast
      then show ?thesis using r None assms docid
        by (simp add: CreateOrGetDirectConversation_def Let_def)
    next
      case True
      then have ins: "c_insert_one ?C ?doc ?cs = (Inl DuplicateKeyError, ?cs)"
        by (rule convu.insert_clash)
      obtain q where q: "c_find_one ?C (\<lambda>d. cv_ID d = dm_id userA userB) ?cs = Inr q"
        using convu.find_one_up by blast
      have "\<exists>x\<in>set ?cs. cv_ID x = dm_id userA userB"
        using True docid by (auto simp: conv_clash_def)
      then obtain d where "q = Some d" "cv_ID d = dm_id userA userB"
        using q conv.find_one_None conv.find_one_Some by (cases q) fastforce+
      then show ?thesis using r None assms ins q
        by (simp add: CreateOrGetDirectConversation_def IsDuplicateKeyError_def Let_def)
    qed
  qed
qed

end

lemma mongo_up_ref: "mongo_up (ref_coll clash) clash" "mongo_coll (ref_coll clash) clash"
  by (rule ref_mongo.mongo_up_axioms ref_mongo.mongo_coll_axioms)+

interpretation ref_repo: mongo_repo_up ref_mongo_ops
  unfolding mongo_repo_up_def mongo_repo_def by (simp add: ref_mongo_ops_def mongo_up_ref)

section \<open>Sequences of calls\<close>

text \<open>The collections that saving messages and marking them read can leave behind, from a fresh
  database, over any server with the documented behaviour.\<close>

inductive read_reachable :: "mongo_ops \<Rightarrow> mongo_db \<Rightarrow> bool" for M where
  fresh: "read_reachable M mongo_db_empty"
| save: "read_reachable M db \<Longrightarrow> SaveMessage M uuid now m db = (res, db') \<Longrightarrow> read_reachable M db'"
| mark: "read_reachable M db \<Longrightarrow> MarkMessageRead M now c u i db = (res, db') \<Longrightarrow> read_reachable M db'"

context mongo_repo
begin

lemma UpdateReadReceipt_frame:
  "UpdateReadReceipt M r u i t db = (res, db') \<Longrightarrow> db_message_read db' = db_message_read db
     \<and> db_messages db' = db_messages db \<and> db_conversations db' = db_conversations db"
  by (auto simp: UpdateReadReceipt_def split: sum.splits prod.splits)

lemma mark_read_empty:
  "c_update_one (mo_message_read M) p (mark_read u) [] = (r, ds) \<Longrightarrow> ds = []"
  "c_update_many (mo_message_read M) p (mark_read u) [] = (r, ds) \<Longrightarrow> ds = []"
  using rd.update_one_ok[of p "mark_read u" "[]"] rd.update_one_err[of p "mark_read u" "[]"]
    rd.update_many_ok[of p "mark_read u" "[]"] rd.update_many_err[of p "mark_read u" "[]"]
  by (cases r; auto simp: mark_read_def)+

lemma MarkMessageRead_empty:
  assumes "MarkMessageRead M now c u i db = (res, db')" "db_message_read db = []"
  shows "db_message_read db' = []"
proof -
  obtain r1 db1 where db1: "UpdateReadReceipt M c u i now db = (r1, db1)" by fastforce
  have e: "db_message_read db1 = []" using UpdateReadReceipt_frame[OF db1] assms(2) by simp
  show ?thesis
  proof (cases "i = []")
    case True
    then show ?thesis
      using assms(1) db1 e mark_read_empty(2)[of _ u]
      by (auto simp: MarkMessageRead_def Let_def split: prod.splits)
  next
    case False
    then show ?thesis
      using assms(1) db1 e mark_read_empty(1)[of _ u]
      by (auto simp: MarkMessageRead_def Let_def split: prod.splits)
  qed
qed

end

section \<open>Properties\<close>

text \<open>C9. A message can be deleted by its author only. When \<open>SoftDeleteMessageByOwner\<close> reports success, one
  stored message with that id whose sender is the user is now marked as deleted, at its place and with all
  its other fields, and everything else in the database is as before. When it reports that nothing was
  deleted, no such message was stored; then, and after an error, the database is unchanged.\<close>

theorem delete_by_owner_only:
  assumes M: "mongo_repo M" and run: "SoftDeleteMessageByOwner M mid uid db = (res, db')"
  shows "case res of
      Inl e \<Rightarrow> db' = db
    | Inr False \<Rightarrow> db' = db \<and> \<not> (\<exists>d\<in>set (db_messages db). has_msg_id mid d \<and> owned_by uid d)
    | Inr True \<Rightarrow> \<exists>xs d ys. db_messages db = xs @ d # ys \<and> has_msg_id mid d \<and> owned_by uid d
        \<and> db' = db\<lparr>db_messages := xs @ d\<lparr>md_IsDeleted := True\<rparr> # ys\<rparr>"
  by (rule mongo_repo.soft_delete_outcome[OF M run])

definition demo_doc :: "string \<Rightarrow> string \<Rightarrow> messageDoc" where
  "demo_doc i u = message_doc ''x'' 0 (ServerMessage_zero\<lparr>sm_MessageId := i, sm_UserId := u, sm_RoomId := ''r''\<rparr>)"

definition demo_db :: mongo_db where
  "demo_db = mongo_db_empty\<lparr>db_messages := [demo_doc ''m'' ''bob'']\<rparr>"

lemma demo_doc_facts:
  "owned_by x (demo_doc i u) \<longleftrightarrow> x = u" "i \<noteq> [] \<Longrightarrow> has_msg_id i (demo_doc i u)" "\<not> md_IsDeleted (demo_doc i u)"
  by (auto simp: owned_by_def has_msg_id_def demo_doc_def message_doc_def Let_def ServerMessage_zero_def)

theorem delete_by_owner_only_witness:
  "(\<exists>db'. SoftDeleteMessageByOwner ref_mongo_ops ''m'' ''eve'' demo_db = (Inr False, db') \<and> db' = demo_db)
   \<and> (\<exists>db'. SoftDeleteMessageByOwner ref_mongo_ops ''m'' ''bob'' demo_db = (Inr True, db')
        \<and> db_messages db' = [(demo_doc ''m'' ''bob'')\<lparr>md_IsDeleted := True\<rparr>])"
proof -
  have run: "\<exists>db'. SoftDeleteMessageByOwner ref_mongo_ops ''m'' ''eve'' demo_db = (Inr False, db')"
    "\<exists>db'. SoftDeleteMessageByOwner ref_mongo_ops ''m'' ''bob'' demo_db = (Inr True, db')"
    by (simp_all add: SoftDeleteMessageByOwner_def ref_mongo_ops_def ref_coll_def ref_update_one_def set_deleted_def
        demo_db_def demo_doc_facts)
  then show ?thesis
    using delete_by_owner_only[OF ref_repo.mongo_repo_axioms, of "''m''" "''eve''" demo_db]
      delete_by_owner_only[OF ref_repo.mongo_repo_axioms, of "''m''" "''bob''" demo_db]
    by (fastforce simp: demo_db_def Cons_eq_append_conv)
qed

text \<open>C10. A message can be edited by its author only and never after its deletion. A successful edit
  returns the time of the edit; one stored message with that id, of that user and not deleted, now has the
  new text and that time as the time of its last edit, at its place and with all its other fields, and
  everything else in the database is as before. A failed edit changes nothing.\<close>

theorem edit_by_owner_only:
  assumes M: "mongo_repo M" and run: "EditMessage M now mid uid txt db = (res, db')"
  shows "case res of
      Inl e \<Rightarrow> db' = db
    | Inr at \<Rightarrow> at = toUnixMilli now
        \<and> (\<exists>xs d ys. db_messages db = xs @ d # ys \<and> \<not> md_IsDeleted d \<and> has_msg_id mid d \<and> owned_by uid d
            \<and> db' = db\<lparr>db_messages := xs @ d\<lparr>md_Content := txt, md_TextBody := txt, md_EditedAt := now\<rparr> # ys\<rparr>)"
  using mongo_repo.edit_outcome[OF M run] by (auto simp: editable_def split: sum.splits)

theorem edit_by_owner_only_witness:
  "\<exists>db'. EditMessage ref_mongo_ops 5000000 ''m'' ''bob'' ''new'' demo_db = (Inr 5, db')
     \<and> db_messages db' = [(demo_doc ''m'' ''bob'')\<lparr>md_Content := ''new'', md_TextBody := ''new'', md_EditedAt := 5000000\<rparr>]"
proof -
  obtain at db' where run: "EditMessage ref_mongo_ops 5000000 ''m'' ''bob'' ''new'' demo_db = (Inr at, db')"
    by (simp add: EditMessage_def ref_mongo_ops_def ref_coll_def ref_update_one_def edit_update_def editable_def
        demo_db_def demo_doc_facts)
  from edit_by_owner_only[OF ref_repo.mongo_repo_axioms run] run show ?thesis
    by (auto simp: toUnixMilli_def demo_db_def Cons_eq_append_conv)
qed

definition demo_image :: ServerMessage where
  "demo_image = ServerMessage_zero\<lparr>sm_MessageId := ''m'', sm_UserId := ''u'', sm_RoomId := ''r'',
     sm_Type := MESSAGE_TYPE_IMAGE, sm_MediaKey := ''k''\<rparr>"

lemma demo_image_saved: "\<exists>db'. SaveMessage ref_mongo_ops ''x'' 0 demo_image mongo_db_empty = (Inr (), db')"
  by (simp add: SaveMessage_def ref_mongo_ops_def ref_coll_def ref_insert_def mongo_db_empty_def Let_def)

text \<open>C38. The unread count of every user is zero, whatever messages have been saved: the update that
  should create the read record of a message names the same field in two operators, which the server
  rejects, and the error is discarded.\<close>

theorem unread_count_always_zero:
  assumes "mongo_repo M" "read_reachable M db" "GetUnreadCount M u c db = Inr n"
  shows "n = 0"
proof -
  have "db_message_read db = []"
    using assms(2)
  proof (induction rule: read_reachable.induct)
    case fresh
    show ?case by (simp add: mongo_db_empty_def)
  next
    case (save db uuid now m res db')
    then show ?case using mongo_repo.SaveMessage_read_docs[OF assms(1)] by simp
  next
    case (mark db now c u i res db')
    then show ?case using mongo_repo.MarkMessageRead_empty[OF assms(1)] by blast
  qed
  moreover have "mongo_coll (mo_message_read M) read_clash" using assms(1) by (simp add: mongo_repo_def)
  ultimately show ?thesis
    using assms(3) mongo_coll.count_ok[of "mo_message_read M" read_clash "unread_for u c" "[]"]
    by (auto simp: GetUnreadCount_def to_int32_def split: sum.splits)
qed

lemma demo_image_reachable:
  "SaveMessage ref_mongo_ops ''x'' 0 demo_image mongo_db_empty = (res, db') \<Longrightarrow> read_reachable ref_mongo_ops db'"
  using read_reachable.save[OF read_reachable.fresh] by blast

theorem unread_count_always_zero_witness:
  "\<exists>db'. SaveMessage ref_mongo_ops ''x'' 0 demo_image mongo_db_empty = (Inr (), db')
     \<and> GetUnreadCount ref_mongo_ops ''v'' ''r'' db' = Inr 0"
proof -
  obtain db' where run: "SaveMessage ref_mongo_ops ''x'' 0 demo_image mongo_db_empty = (Inr (), db')"
    using demo_image_saved by blast
  obtain n where n: "GetUnreadCount ref_mongo_ops ''v'' ''r'' db' = Inr n"
    by (simp add: GetUnreadCount_def ref_mongo_ops_def ref_coll_def)
  from unread_count_always_zero[OF ref_repo.mongo_repo_axioms demo_image_reachable[OF run] n] n run
  show ?thesis by blast
qed

text \<open>A direct conversation in the message store has the canonical id of the unordered pair,
  whether it is created, found or found under a legacy id; empty user ids are refused.\<close>

lemma direct_conversation_canonical:
  assumes "mongo_repo_up M" "a \<noteq> []" "b \<noteq> []"
  shows "(\<exists>c db'. CreateOrGetDirectConversation M now a b cby db = (Inr c, db') \<and> cd_ConversationId c = dm_id b a)
    \<and> CreateOrGetDirectConversation M now [] b cby db = (Inl ''userA and userB are required'', db)"
  using mongo_repo_up.direct_conversation_id[OF assms, of now cby db]
  by (simp add: dm_id_commute[of a b] CreateOrGetDirectConversation_def)

end
