(* ===== verification/Room_Repo.thy ===== *)
theory Room_Repo
  imports Prelude "HOL-Library.Multiset"
begin

text \<open>
  \<open>app/repository/postgres.go\<close>: the four chat tables that \<open>Migrate\<close> creates and every
  operation of \<open>RoomRepository\<close>.

  Each SQL statement of the file is a constructor of \<open>pg_stmt\<close> or \<open>pg_query\<close>; \<open>run_stmt\<close>
  is its effect on the tables, with the primary keys, foreign keys and CHECK constraints of the
  migration. \<open>fail\<close> is the outcome of the driver and the connection: a statement for which it
  gives an error has no effect. The order in which a SELECT without ORDER BY returns rows is the
  order of the lists and is not relied upon.
\<close>

section \<open>Tables\<close>

record room_row =
  pr_id :: string
  pr_room_type :: int
  pr_name :: "string option"
  pr_created_by :: string
  pr_property_id :: "int option"
  pr_created_at :: gotime

record member_row =
  pm_room_id :: string
  pm_user_id :: string
  pm_role :: string
  pm_left_at :: "gotime option"

record activity_row =
  la_room_id :: string
  la_last_message_at :: gotime
  la_last_message_id :: string
  la_last_sender_id :: string
  la_preview_text :: string

record receipt_row =
  prr_room_id :: string
  prr_user_id :: string
  prr_last_read_at :: gotime
  prr_last_read_msg_id :: string

record pg_db =
  pg_rooms :: "room_row list"
  pg_members :: "member_row list"
  pg_activity :: "activity_row list"
  pg_receipts :: "receipt_row list"

definition pg_db_empty :: pg_db where
  "pg_db_empty = \<lparr>pg_rooms = [], pg_members = [], pg_activity = [], pg_receipts = []\<rparr>"

record PgRoomMeta =
  pgm_RoomID :: string
  pgm_RoomType :: int
  pgm_Name :: string
  pgm_CreatedBy :: string
  pgm_PropertyID :: "int option"
  pgm_MemberIDs :: "string list"
  pgm_CreatedAt :: gotime

record PgUserRoom =
  pgu_RoomID :: string
  pgu_RoomType :: int
  pgu_Name :: string
  pgu_LastMessage :: string
  pgu_LastMessageAt :: int
  pgu_HasUnread :: bool
  pgu_MemberIDs :: "string list"

section \<open>Statements\<close>

datatype pg_stmt =
    InsertRoom string int "string option" string "int option" gotime
  | InsertMember string string
  | UpsertActivity string gotime string string string
  | UpsertReceipt string string gotime string

datatype pg_query = SelectRoom string | SelectMembers string | SelectUserRooms string
  | SelectActivity string | SelectUnread string string

text \<open>A TIMESTAMPTZ keeps microseconds; the time on the wire is rounded to the nearest one.\<close>

definition timestamptz :: "gotime \<Rightarrow> gotime" where
  "timestamptz t = (t + 500) div 1000 * 1000"

text \<open>\<open>(EXTRACT(EPOCH FROM t) * 1000)::BIGINT\<close>: the cast rounds to the nearest millisecond.\<close>

definition epoch_ms :: "gotime \<Rightarrow> int" where
  "epoch_ms t = (t + 500000) div 1000000"

definition room_exists :: "string \<Rightarrow> pg_db \<Rightarrow> bool" where
  "room_exists roomID db \<longleftrightarrow> roomID \<in> pr_id ` set (pg_rooms db)"

definition fk_error :: string where
  "fk_error = ''pq: insert or update violates foreign key constraint''"

definition check_error :: string where
  "check_error = ''pq: new row violates check constraint''"

text \<open>CHECK constraints are tested before the conflict target, foreign keys only for a row
  that is inserted. Any other refusal of the server, such as that of a text which is not UTF-8, is a
  failure of the statement, as a value of \<open>fail\<close> for that statement.\<close>

fun run_stmt :: "pg_stmt \<Rightarrow> pg_db \<Rightarrow> pg_db go_result" where
  "run_stmt (InsertRoom i ty nm cby prop at) db =
     (if cby = [] then Inl check_error
      else if room_exists i db then Inr db
      else Inr (db\<lparr>pg_rooms := pg_rooms db @
             [\<lparr>pr_id = i, pr_room_type = ty, pr_name = nm, pr_created_by = cby,
               pr_property_id = prop, pr_created_at = timestamptz at\<rparr>]\<rparr>))"
| "run_stmt (InsertMember room user) db =
     (if user = [] then Inl check_error
      else if \<exists>m\<in>set (pg_members db). pm_room_id m = room \<and> pm_user_id m = user then Inr db
      else if \<not> room_exists room db then Inl fk_error
      else Inr (db\<lparr>pg_members := pg_members db @
             [\<lparr>pm_room_id = room, pm_user_id = user, pm_role = ''member'', pm_left_at = None\<rparr>]\<rparr>))"
| "run_stmt (UpsertActivity room at msgID sender preview) db =
     (let row = \<lparr>la_room_id = room, la_last_message_at = timestamptz at, la_last_message_id = msgID,
                  la_last_sender_id = sender, la_preview_text = preview\<rparr>
      in if \<exists>a\<in>set (pg_activity db). la_room_id a = room
         then Inr (db\<lparr>pg_activity := map (\<lambda>a. if la_room_id a = room then row else a) (pg_activity db)\<rparr>)
         else if \<not> room_exists room db then Inl fk_error
         else Inr (db\<lparr>pg_activity := pg_activity db @ [row]\<rparr>))"
| "run_stmt (UpsertReceipt room user at msgID) db =
     (let row = \<lparr>prr_room_id = room, prr_user_id = user, prr_last_read_at = timestamptz at,
                  prr_last_read_msg_id = msgID\<rparr>;
          hit = (\<lambda>r. prr_room_id r = room \<and> prr_user_id r = user)
      in if user = [] then Inl check_error
         else if \<exists>r\<in>set (pg_receipts db). hit r
         then Inr (db\<lparr>pg_receipts := map (\<lambda>r. if hit r then row else r) (pg_receipts db)\<rparr>)
         else if \<not> room_exists room db then Inl fk_error
         else Inr (db\<lparr>pg_receipts := pg_receipts db @ [row]\<rparr>))"

type_synonym pg_fail = "pg_stmt + pg_query \<Rightarrow> string option"

definition no_fail :: pg_fail where
  "no_fail = (\<lambda>_. None)"

definition pg_exec :: "pg_fail \<Rightarrow> pg_stmt \<Rightarrow> pg_db \<Rightarrow> unit go_result \<times> pg_db" where
  "pg_exec fail stmt db =
     (case fail (Inl stmt) of
        Some e \<Rightarrow> (Inl e, db)
      | None \<Rightarrow> (case run_stmt stmt db of Inl e \<Rightarrow> (Inl e, db) | Inr db' \<Rightarrow> (Inr (), db')))"

section \<open>Opening and migrating\<close>

text \<open>\<open>open_db\<close> and \<open>ping\<close> are the outcomes of \<open>sql.Open\<close> and \<open>PingContext\<close>.\<close>

definition NewRoomRepository ::
  "(string \<Rightarrow> unit go_result) \<Rightarrow> (string \<Rightarrow> unit go_result) \<Rightarrow> string \<Rightarrow> unit go_result" where
  "NewRoomRepository open_db ping dsn =
     (case open_db dsn of
        Inl e \<Rightarrow> Inl (''postgres open: '' @ e)
      | Inr _ \<Rightarrow> (case ping dsn of Inl e \<Rightarrow> Inl (''postgres ping: '' @ e) | Inr _ \<Rightarrow> Inr ()))"

text \<open>The statements of \<open>Migrate\<close> with the objects they create and refer to.\<close>

datatype ddl =
    CreateSchemaIfNotExists string
  | CreateTableIfNotExists string "string list" \<comment> \<open>the tables its foreign keys refer to\<close>
  | CreateIndexIfNotExists string string
  | CreateOrReplaceFunction string
  | DropTriggerIfExists string string
  | CreateTrigger string string string

datatype pg_object = SchemaObj string | TableObj string | IndexObj string | FunctionObj string
  | TriggerObj string string

definition migrate_stmts :: "ddl list" where
  "migrate_stmts =
     [CreateSchemaIfNotExists ''public'',
      CreateTableIfNotExists ''chat_rooms'' [],
      CreateTableIfNotExists ''chat_room_members'' [''chat_rooms''],
      CreateTableIfNotExists ''chat_room_last_activity'' [''chat_rooms''],
      CreateTableIfNotExists ''chat_read_receipts'' [''chat_rooms''],
      CreateIndexIfNotExists ''idx_chat_rooms_created_by'' ''chat_rooms'',
      CreateIndexIfNotExists ''idx_chat_members_user'' ''chat_room_members'',
      CreateIndexIfNotExists ''idx_last_activity_time'' ''chat_room_last_activity'',
      CreateOrReplaceFunction ''trg_set_updated_at'',
      DropTriggerIfExists ''set_chat_rooms_updated_at'' ''chat_rooms'',
      CreateTrigger ''set_chat_rooms_updated_at'' ''chat_rooms'' ''trg_set_updated_at'']"

fun run_ddl :: "ddl \<Rightarrow> pg_object set \<Rightarrow> pg_object set go_result" where
  "run_ddl (CreateSchemaIfNotExists n) os = Inr (insert (SchemaObj n) os)"
| "run_ddl (CreateTableIfNotExists n refs) os =
     (if TableObj n \<in> os then Inr os
      else if \<forall>r\<in>set refs. TableObj r \<in> os then Inr (insert (TableObj n) os)
      else Inl ''pq: relation does not exist'')"
| "run_ddl (CreateIndexIfNotExists n t) os =
     (if IndexObj n \<in> os then Inr os
      else if TableObj t \<in> os then Inr (insert (IndexObj n) os)
      else Inl ''pq: relation does not exist'')"
| "run_ddl (CreateOrReplaceFunction n) os = Inr (insert (FunctionObj n) os)"
| "run_ddl (DropTriggerIfExists n t) os = Inr (os - {TriggerObj n t})"
| "run_ddl (CreateTrigger n t f) os =
     (if TableObj t \<notin> os \<or> FunctionObj f \<notin> os then Inl ''pq: relation or function does not exist''
      else if TriggerObj n t \<in> os then Inl ''pq: trigger already exists''
      else Inr (insert (TriggerObj n t) os))"

fun run_migration :: "(ddl \<Rightarrow> string option) \<Rightarrow> ddl list \<Rightarrow> pg_object set \<Rightarrow> (string \<times> ddl) option \<times> pg_object set" where
  "run_migration fail [] os = (None, os)"
| "run_migration fail (st # sts) os =
     (case (case fail st of Some e \<Rightarrow> Inl e | None \<Rightarrow> run_ddl st os) of
        Inl e \<Rightarrow> (Some (''migrate: '' @ e, st), os)
      | Inr os' \<Rightarrow> run_migration fail sts os')"

definition Migrate :: "(ddl \<Rightarrow> string option) \<Rightarrow> pg_object set \<Rightarrow> (string \<times> ddl) option \<times> pg_object set" where
  "Migrate fail os = run_migration fail migrate_stmts os"

section \<open>Operations\<close>

definition nullString :: "string \<Rightarrow> string option" where
  "nullString s = (if s \<noteq> [] then Some s else None)"

fun upsert_members :: "pg_fail \<Rightarrow> string \<Rightarrow> string list \<Rightarrow> pg_db \<Rightarrow> unit go_result \<times> pg_db" where
  "upsert_members fail roomID [] db = (Inr (), db)"
| "upsert_members fail roomID (uid # uids) db =
     (case pg_exec fail (InsertMember roomID uid) db of
        (Inl e, db') \<Rightarrow> (Inl (''upsert member '' @ uid @ '': '' @ e), db')
      | (Inr _, db') \<Rightarrow> upsert_members fail roomID uids db')"

definition UpsertRoom :: "pg_fail \<Rightarrow> PgRoomMeta \<Rightarrow> pg_db \<Rightarrow> unit go_result \<times> pg_db" where
  "UpsertRoom fail m db =
     (case pg_exec fail (InsertRoom (pgm_RoomID m) (pgm_RoomType m) (nullString (pgm_Name m))
             (pgm_CreatedBy m) (pgm_PropertyID m) (pgm_CreatedAt m)) db of
        (Inl e, db') \<Rightarrow> (Inl (''upsert room: '' @ e), db')
      | (Inr _, db') \<Rightarrow> upsert_members fail (pgm_RoomID m) (pgm_MemberIDs m) db')"

definition members_of :: "string \<Rightarrow> pg_db \<Rightarrow> string list" where
  "members_of roomID db =
     map pm_user_id (filter (\<lambda>m. pm_room_id m = roomID \<and> pm_left_at m = None) (pg_members db))"

definition GetRoom :: "pg_fail \<Rightarrow> string \<Rightarrow> pg_db \<Rightarrow> PgRoomMeta option go_result" where
  "GetRoom fail roomID db =
     (case fail (Inr (SelectRoom roomID)) of
        Some e \<Rightarrow> Inl (''get room: '' @ e)
      | None \<Rightarrow>
          (case List.find (\<lambda>r. pr_id r = roomID) (pg_rooms db) of
             None \<Rightarrow> Inr None
           | Some r \<Rightarrow>
               (case fail (Inr (SelectMembers roomID)) of
                  Some e \<Rightarrow> Inl (''get members: '' @ e)
                | None \<Rightarrow>
                    Inr (Some \<lparr>pgm_RoomID = pr_id r, pgm_RoomType = pr_room_type r,
                      pgm_Name = (case pr_name r of None \<Rightarrow> [] | Some n \<Rightarrow> n),
                      pgm_CreatedBy = pr_created_by r, pgm_PropertyID = None,
                      pgm_MemberIDs = members_of roomID db, pgm_CreatedAt = pr_created_at r\<rparr>))))"

text \<open>\<open>return m, r.UpsertRoom(ctx, m)\<close>.\<close>

definition put_room :: "pg_fail \<Rightarrow> PgRoomMeta \<Rightarrow> pg_db \<Rightarrow> PgRoomMeta go_result \<times> pg_db" where
  "put_room fail m db =
     (case UpsertRoom fail m db of (Inl e, db') \<Rightarrow> (Inl e, db') | (Inr _, db') \<Rightarrow> (Inr m, db'))"

definition GetOrCreateDM ::
  "pg_fail \<Rightarrow> gotime \<Rightarrow> string \<Rightarrow> string \<Rightarrow> string \<Rightarrow> pg_db \<Rightarrow> PgRoomMeta go_result \<times> pg_db" where
  "GetOrCreateDM fail now userA userB createdBy db =
     (let ids = sort_pair userA userB; roomID = ''dm:'' @ Join ids '':''
      in case GetRoom fail roomID db of
           Inl e \<Rightarrow> (Inl e, db)
         | Inr (Some existing) \<Rightarrow> (Inr existing, db)
         | Inr None \<Rightarrow>
             put_room fail \<lparr>pgm_RoomID = roomID, pgm_RoomType = 0, pgm_Name = [],
               pgm_CreatedBy = createdBy, pgm_PropertyID = None, pgm_MemberIDs = ids,
               pgm_CreatedAt = now\<rparr> db)"

definition CreateGroup_pg ::
  "pg_fail \<Rightarrow> gotime \<Rightarrow> string \<Rightarrow> string \<Rightarrow> string \<Rightarrow> string list \<Rightarrow> pg_db
   \<Rightarrow> PgRoomMeta go_result \<times> pg_db" where
  "CreateGroup_pg fail now roomID name createdBy memberIDs db =
     put_room fail \<lparr>pgm_RoomID = roomID, pgm_RoomType = 1, pgm_Name = name,
       pgm_CreatedBy = createdBy, pgm_PropertyID = None, pgm_MemberIDs = memberIDs,
       pgm_CreatedAt = now\<rparr> db"

definition UpdateLastActivity ::
  "pg_fail \<Rightarrow> string \<Rightarrow> string \<Rightarrow> string \<Rightarrow> string \<Rightarrow> gotime \<Rightarrow> pg_db \<Rightarrow> unit go_result \<times> pg_db" where
  "UpdateLastActivity fail roomID msgID senderID preview at db =
     pg_exec fail (UpsertActivity roomID at msgID senderID preview) db"

definition UpdateReadReceipt_pg ::
  "pg_fail \<Rightarrow> string \<Rightarrow> string \<Rightarrow> string \<Rightarrow> gotime \<Rightarrow> pg_db \<Rightarrow> unit go_result \<times> pg_db" where
  "UpdateReadReceipt_pg fail roomID userID msgID at db =
     pg_exec fail (UpsertReceipt roomID userID at msgID) db"

definition active_rooms :: "string \<Rightarrow> pg_db \<Rightarrow> string list" where
  "active_rooms userID db =
     map pm_room_id (filter (\<lambda>m. pm_user_id m = userID \<and> pm_left_at m = None) (pg_members db))"

definition GetUserRooms_pg :: "pg_fail \<Rightarrow> string \<Rightarrow> pg_db \<Rightarrow> string list go_result" where
  "GetUserRooms_pg fail userID db =
     (case fail (Inr (SelectUserRooms userID)) of
        Some e \<Rightarrow> Inl e | None \<Rightarrow> Inr (active_rooms userID db))"

definition activity_of :: "string \<Rightarrow> pg_db \<Rightarrow> activity_row option" where
  "activity_of roomID db = List.find (\<lambda>a. la_room_id a = roomID) (pg_activity db)"

definition receipt_of :: "string \<Rightarrow> string \<Rightarrow> pg_db \<Rightarrow> receipt_row option" where
  "receipt_of roomID userID db =
     List.find (\<lambda>r. prr_room_id r = roomID \<and> prr_user_id r = userID) (pg_receipts db)"

text \<open>The CASE expression of the unread query; no activity row means no result row.\<close>

definition unread_flag :: "string \<Rightarrow> string \<Rightarrow> pg_db \<Rightarrow> bool" where
  "unread_flag roomID userID db =
     (case activity_of roomID db of
        None \<Rightarrow> False
      | Some la \<Rightarrow>
          if la_last_sender_id la = userID then False
          else (case receipt_of roomID userID db of
                  None \<Rightarrow> True
                | Some rr \<Rightarrow> la_last_message_at la > prr_last_read_at rr))"

text \<open>The errors of the two last queries are discarded, which leaves the zero values.\<close>

definition room_details :: "pg_fail \<Rightarrow> string \<Rightarrow> pg_db \<Rightarrow> room_row \<Rightarrow> PgUserRoom" where
  "room_details fail userID db b =
     (let la = (if fail (Inr (SelectActivity (pr_id b))) = None then activity_of (pr_id b) db else None)
      in \<lparr>pgu_RoomID = pr_id b, pgu_RoomType = pr_room_type b,
          pgu_Name = (case pr_name b of None \<Rightarrow> [] | Some n \<Rightarrow> n),
          pgu_LastMessage = (case la of None \<Rightarrow> [] | Some a \<Rightarrow> la_preview_text a),
          pgu_LastMessageAt = (case la of None \<Rightarrow> 0 | Some a \<Rightarrow> epoch_ms (la_last_message_at a)),
          pgu_HasUnread = (fail (Inr (SelectUnread (pr_id b) userID)) = None
            \<and> unread_flag (pr_id b) userID db),
          pgu_MemberIDs = members_of (pr_id b) db\<rparr>)"

text \<open>The join of the user's memberships with the rooms.\<close>

definition user_room_rows :: "string \<Rightarrow> pg_db \<Rightarrow> room_row list" where
  "user_room_rows userID db = filter (\<lambda>r. pr_id r \<in> set (active_rooms userID db)) (pg_rooms db)"

fun collect_rooms :: "pg_fail \<Rightarrow> string \<Rightarrow> pg_db \<Rightarrow> room_row list \<Rightarrow> PgUserRoom list go_result" where
  "collect_rooms fail userID db [] = Inr []"
| "collect_rooms fail userID db (b # bs) =
     (case fail (Inr (SelectMembers (pr_id b))) of
        Some e \<Rightarrow> Inl (''GetUserRoomsDetailed members: '' @ e)
      | None \<Rightarrow>
          (case collect_rooms fail userID db bs of
             Inl e \<Rightarrow> Inl e
           | Inr rs \<Rightarrow> Inr (room_details fail userID db b # rs)))"

definition GetUserRoomsDetailed :: "pg_fail \<Rightarrow> string \<Rightarrow> pg_db \<Rightarrow> PgUserRoom list go_result" where
  "GetUserRoomsDetailed fail userID db =
     (case fail (Inr (SelectUserRooms userID)) of
        Some e \<Rightarrow> Inl (''GetUserRoomsDetailed rooms: '' @ e)
      | None \<Rightarrow>
          (let bases = user_room_rows userID db
           in if bases = [] then Inr []
              else case collect_rooms fail userID db bases of
                     Inl e \<Rightarrow> Inl e
                   | Inr result \<Rightarrow> Inr (sort_key (\<lambda>r. - pgu_LastMessageAt r) result)))"

text \<open>Keys and references the schema enforces.\<close>

definition pg_inv :: "pg_db \<Rightarrow> bool" where
  "pg_inv db \<longleftrightarrow>
     distinct (map pr_id (pg_rooms db))
     \<and> distinct (map (\<lambda>m. (pm_room_id m, pm_user_id m)) (pg_members db))
     \<and> distinct (map la_room_id (pg_activity db))
     \<and> distinct (map (\<lambda>r. (prr_room_id r, prr_user_id r)) (pg_receipts db))
     \<and> (\<forall>r\<in>set (pg_rooms db). pr_created_by r \<noteq> [])
     \<and> (\<forall>m\<in>set (pg_members db). pm_user_id m \<noteq> [] \<and> room_exists (pm_room_id m) db)
     \<and> (\<forall>a\<in>set (pg_activity db). room_exists (la_room_id a) db)
     \<and> (\<forall>r\<in>set (pg_receipts db). prr_user_id r \<noteq> [] \<and> room_exists (prr_room_id r) db)"

section \<open>Lemmas\<close>

lemma map_key_same: "(\<And>x. P x \<Longrightarrow> k row = k x) \<Longrightarrow> map k (map (\<lambda>x. if P x then row else x) xs) = map k xs"
  by (induction xs) auto

lemma pg_inv_activity_upd:
  assumes "pg_inv db" "la_room_id row = room" "\<exists>a\<in>set (pg_activity db). la_room_id a = room"
  shows "pg_inv (db\<lparr>pg_activity := map (\<lambda>a. if la_room_id a = room then row else a) (pg_activity db)\<rparr>)"
proof -
  have "map la_room_id (map (\<lambda>a. if la_room_id a = room then row else a) (pg_activity db))
      = map la_room_id (pg_activity db)"
    by (rule map_key_same) (simp add: assms(2))
  then have "distinct (map la_room_id (map (\<lambda>a. if la_room_id a = room then row else a) (pg_activity db)))"
    using assms(1) by (simp add: pg_inv_def del: map_map)
  moreover have "room_exists room db" using assms(1,3) by (auto simp: pg_inv_def)
  ultimately show ?thesis using assms(1,2) unfolding pg_inv_def room_exists_def by auto
qed

lemma pg_inv_receipt_upd:
  assumes "pg_inv db" "prr_room_id row = room" "prr_user_id row = user" "user \<noteq> []"
    "\<exists>r\<in>set (pg_receipts db). prr_room_id r = room \<and> prr_user_id r = user"
  shows "pg_inv (db\<lparr>pg_receipts := map (\<lambda>r. if prr_room_id r = room \<and> prr_user_id r = user then row else r)
    (pg_receipts db)\<rparr>)"
proof -
  have "map (\<lambda>r. (prr_room_id r, prr_user_id r))
      (map (\<lambda>r. if prr_room_id r = room \<and> prr_user_id r = user then row else r) (pg_receipts db))
      = map (\<lambda>r. (prr_room_id r, prr_user_id r)) (pg_receipts db)"
    by (rule map_key_same) (simp add: assms(2,3))
  then have "distinct (map (\<lambda>r. (prr_room_id r, prr_user_id r))
      (map (\<lambda>r. if prr_room_id r = room \<and> prr_user_id r = user then row else r) (pg_receipts db)))"
    using assms(1) by (simp add: pg_inv_def del: map_map)
  moreover have "room_exists room db" using assms(1,5) by (auto simp: pg_inv_def)
  ultimately show ?thesis using assms(1-4) unfolding pg_inv_def room_exists_def by auto
qed

lemma run_stmt_InsertRoom_inv:
  "run_stmt (InsertRoom i ty nm cby pid t) db = Inr db' \<Longrightarrow> pg_inv db \<Longrightarrow> pg_inv db'"
  by (auto simp: pg_inv_def room_exists_def split: if_splits)

lemma run_stmt_InsertMember_inv:
  assumes "run_stmt (InsertMember room user) db = Inr db'" "pg_inv db"
  shows "pg_inv db'"
proof (cases "\<exists>m\<in>set (pg_members db). pm_room_id m = room \<and> pm_user_id m = user")
  case False
  then have "(room, user) \<notin> (\<lambda>m. (pm_room_id m, pm_user_id m)) ` set (pg_members db)" by auto
  then show ?thesis
    using False assms by (auto simp: pg_inv_def room_exists_def split: if_splits)
qed (use assms in \<open>simp split: if_splits\<close>)

lemma run_stmt_UpsertActivity_inv:
  assumes "run_stmt (UpsertActivity room t msgID sender preview) db = Inr db'" "pg_inv db"
  shows "pg_inv db'"
proof (cases "\<exists>a\<in>set (pg_activity db). la_room_id a = room")
  case True
  then have "db' = db\<lparr>pg_activity := map (\<lambda>a. if la_room_id a = room then
      \<lparr>la_room_id = room, la_last_message_at = timestamptz t, la_last_message_id = msgID,
       la_last_sender_id = sender, la_preview_text = preview\<rparr> else a) (pg_activity db)\<rparr>"
    using assms(1) by (simp add: Let_def)
  then show ?thesis by (simp add: pg_inv_activity_upd[OF assms(2) _ True])
next
  case False
  then have "room \<notin> la_room_id ` set (pg_activity db)" by auto
  then show ?thesis
    using False assms by (auto simp: pg_inv_def room_exists_def Let_def split: if_splits)
qed

lemma run_stmt_UpsertReceipt_inv:
  assumes "run_stmt (UpsertReceipt room user t msgID) db = Inr db'" "pg_inv db"
  shows "pg_inv db'"
proof (cases "\<exists>r\<in>set (pg_receipts db). prr_room_id r = room \<and> prr_user_id r = user")
  case True
  then show ?thesis
    using assms pg_inv_receipt_upd[OF assms(2), of _ room user] by (auto simp: Let_def split: if_splits)
next
  case False
  then have "(room, user) \<notin> (\<lambda>r. (prr_room_id r, prr_user_id r)) ` set (pg_receipts db)" by auto
  then show ?thesis
    using False assms by (auto simp: pg_inv_def room_exists_def Let_def split: if_splits)
qed

lemmas run_stmt_inv_cases = run_stmt_InsertRoom_inv run_stmt_InsertMember_inv
  run_stmt_UpsertActivity_inv run_stmt_UpsertReceipt_inv

lemma run_stmt_inv: "run_stmt stmt db = Inr db' \<Longrightarrow> pg_inv db \<Longrightarrow> pg_inv db'"
  by (cases stmt) (blast intro: run_stmt_inv_cases)+

lemma pg_exec_inv: "pg_exec fail stmt db = (res, db') \<Longrightarrow> pg_inv db \<Longrightarrow> pg_inv db'"
  by (auto simp: pg_exec_def dest: run_stmt_inv split: option.splits sum.splits)

lemma upsert_members_inv: "upsert_members fail room uids db = (res, db') \<Longrightarrow> pg_inv db \<Longrightarrow> pg_inv db'"
proof (induction uids arbitrary: db)
  case (Cons u us)
  obtain r d where rd: "pg_exec fail (InsertMember room u) db = (r, d)" by fastforce
  then have "pg_inv d" using pg_exec_inv Cons.prems(2) by blast
  then show ?case using Cons rd by (cases r) auto
qed simp

lemma UpsertRoom_inv: "UpsertRoom fail m db = (res, db') \<Longrightarrow> pg_inv db \<Longrightarrow> pg_inv db'"
  by (auto simp: UpsertRoom_def split: prod.splits sum.splits
      dest: pg_exec_inv intro: upsert_members_inv)

lemma put_room_inv: "put_room fail m db = (res, db') \<Longrightarrow> pg_inv db \<Longrightarrow> pg_inv db'"
  by (auto simp: put_room_def split: prod.splits sum.splits dest: UpsertRoom_inv)

lemma filter_key_unique: "distinct (map k xs) \<Longrightarrow> x \<in> set xs \<Longrightarrow> filter (\<lambda>y. k y = k x) xs = [x]"
  by (induction xs) (auto simp: filter_empty_conv image_iff)

lemma find_key_iff: "List.find (\<lambda>r. k r = i) xs = None \<longleftrightarrow> i \<notin> k ` set xs"
  by (auto simp: find_None_iff)

lemma room_exists_find: "room_exists i db \<longleftrightarrow> List.find (\<lambda>r. pr_id r = i) (pg_rooms db) \<noteq> None"
  by (simp add: room_exists_def find_key_iff)

lemma run_stmt_rooms_mono: "run_stmt stmt db = Inr db' \<Longrightarrow> room_exists i db \<Longrightarrow> room_exists i db'"
  by (cases stmt) (auto simp: room_exists_def Let_def split: if_splits)

lemma pg_exec_rooms_mono: "pg_exec fail stmt db = (res, db') \<Longrightarrow> room_exists i db \<Longrightarrow> room_exists i db'"
  by (auto simp: pg_exec_def dest: run_stmt_rooms_mono split: option.splits sum.splits)

lemma upsert_members_rooms_mono:
  "upsert_members fail room uids db = (res, db') \<Longrightarrow> room_exists i db \<Longrightarrow> room_exists i db'"
proof (induction uids arbitrary: db)
  case (Cons u us)
  obtain r d where rd: "pg_exec fail (InsertMember room u) db = (r, d)" by fastforce
  then have "room_exists i d" using pg_exec_rooms_mono Cons.prems(2) by blast
  then show ?case using Cons rd by (cases r) auto
qed simp

section \<open>Rooms and their members\<close>

lemma pg_exec_ok: "pg_exec fail stmt db = (Inr (), db') \<longleftrightarrow> fail (Inl stmt) = None \<and> run_stmt stmt db = Inr db'"
  by (auto simp: pg_exec_def split: option.splits sum.splits)

definition all_active :: "string \<Rightarrow> pg_db \<Rightarrow> bool" where
  "all_active room db \<longleftrightarrow> (\<forall>m\<in>set (pg_members db). pm_room_id m = room \<longrightarrow> pm_left_at m = None)"

lemma insert_member_cases:
  assumes "run_stmt (InsertMember room u) db = Inr db'"
  obtains (old) m where "m \<in> set (pg_members db)" "pm_room_id m = room" "pm_user_id m = u" "db' = db"
  | (fresh) "db' = db\<lparr>pg_members := pg_members db @
      [\<lparr>pm_room_id = room, pm_user_id = u, pm_role = ''member'', pm_left_at = None\<rparr>]\<rparr>"
proof (cases "\<exists>m\<in>set (pg_members db). pm_room_id m = room \<and> pm_user_id m = u")
  case True
  then show ?thesis using assms old by (fastforce split: if_splits)
next
  case False
  then show ?thesis using assms fresh by (simp add: False split: if_splits; blast)
qed

lemma insert_member_spec:
  assumes "run_stmt (InsertMember room u) db = Inr db'" "all_active room db"
  shows "set (members_of room db') = insert u (set (members_of room db))
    \<and> all_active room db' \<and> pg_rooms db' = pg_rooms db"
  using assms(1)
proof (cases rule: insert_member_cases)
  case (old m)
  then have "u \<in> set (members_of room db)" using assms(2) by (auto simp: members_of_def all_active_def)
  then show ?thesis using old assms(2) by auto
next
  case fresh
  then show ?thesis using assms(2) by (simp add: members_of_def all_active_def)
qed

lemma upsert_members_spec:
  assumes "upsert_members fail room uids db = (Inr (), db')" "all_active room db"
  shows "set (members_of room db') = set uids \<union> set (members_of room db)
    \<and> all_active room db' \<and> pg_rooms db' = pg_rooms db"
  using assms
proof (induction uids arbitrary: db)
  case (Cons u us)
  obtain d where d: "pg_exec fail (InsertMember room u) db = (Inr (), d)"
    "upsert_members fail room us d = (Inr (), db')"
    using Cons.prems(1) by (auto split: prod.splits sum.splits)
  then have run: "run_stmt (InsertMember room u) db = Inr d" by (simp add: pg_exec_ok)
  note step = insert_member_spec[OF run Cons.prems(2)]
  show ?case using Cons.IH[OF d(2)] step by auto
qed simp

lemma fresh_room_no_members:
  "pg_inv db \<Longrightarrow> \<not> room_exists room db \<Longrightarrow> members_of room db = [] \<and> all_active room db"
  by (auto simp: pg_inv_def members_of_def all_active_def filter_empty_conv)

lemma UpsertRoom_fresh:
  assumes "UpsertRoom fail m db = (Inr (), db')" "pg_inv db" "\<not> room_exists (pgm_RoomID m) db"
  shows "room_exists (pgm_RoomID m) db' \<and> set (members_of (pgm_RoomID m) db') = set (pgm_MemberIDs m)"
proof -
  obtain d where d: "run_stmt (InsertRoom (pgm_RoomID m) (pgm_RoomType m) (nullString (pgm_Name m))
      (pgm_CreatedBy m) (pgm_PropertyID m) (pgm_CreatedAt m)) db = Inr d"
    "upsert_members fail (pgm_RoomID m) (pgm_MemberIDs m) d = (Inr (), db')"
    using assms(1) by (auto simp: UpsertRoom_def pg_exec_ok split: prod.splits sum.splits)
  then have "room_exists (pgm_RoomID m) d" "pg_members d = pg_members db"
    using assms(3) by (auto simp: room_exists_def split: if_splits)
  moreover from this have "members_of (pgm_RoomID m) d = []" "all_active (pgm_RoomID m) d"
    using fresh_room_no_members[OF assms(2,3)] by (simp_all add: members_of_def all_active_def)
  ultimately show ?thesis
    using upsert_members_spec[OF d(2)] by (simp add: room_exists_def)
qed

lemma GetRoom_none: "GetRoom fail room db = Inr None \<Longrightarrow> \<not> room_exists room db"
  by (auto simp: GetRoom_def room_exists_find split: option.splits)

lemma find_key: "List.find (\<lambda>r. k r = i) xs = Some r \<Longrightarrow> k r = i"
  by (auto simp: find_Some_iff)

lemma GetRoom_some:
  assumes "GetRoom fail room db = Inr (Some m)"
  shows "room_exists room db \<and> pgm_RoomID m = room \<and> pgm_MemberIDs m = members_of room db"
  using assms by (auto simp: GetRoom_def room_exists_find split: option.splits dest: find_key)

lemma GetRoom_no_fail:
  "room_exists room db \<Longrightarrow> \<exists>m. GetRoom no_fail room db = Inr (Some m)"
  by (auto simp: GetRoom_def no_fail_def room_exists_find)

lemma dm_id_Join: "''dm:'' @ Join (sort_pair a b) '':'' = dm_id a b"
  by (auto simp: dm_id_def sort_pair_eq)

lemma GetOrCreateDM_cases:
  "GetOrCreateDM fail now a b c db =
     (case GetRoom fail (dm_id a b) db of
        Inl e \<Rightarrow> (Inl e, db)
      | Inr (Some existing) \<Rightarrow> (Inr existing, db)
      | Inr None \<Rightarrow> put_room fail \<lparr>pgm_RoomID = dm_id a b, pgm_RoomType = 0, pgm_Name = [],
               pgm_CreatedBy = c, pgm_PropertyID = None, pgm_MemberIDs = sort_pair a b,
               pgm_CreatedAt = now\<rparr> db)"
  unfolding GetOrCreateDM_def Let_def dm_id_Join ..

lemma put_room_ok: "put_room fail m db = (Inr m', db') \<longleftrightarrow> m' = m \<and> UpsertRoom fail m db = (Inr (), db')"
  by (auto simp: put_room_def split: prod.splits sum.splits)

lemma GetOrCreateDM_result:
  assumes "GetOrCreateDM fail now a b c db = (Inr m, db')" "pg_inv db"
  shows "pgm_RoomID m = dm_id a b \<and> room_exists (dm_id a b) db'
    \<and> set (pgm_MemberIDs m) = set (members_of (dm_id a b) db')"
proof (cases "GetRoom fail (dm_id a b) db")
  case (Inr r)
  show ?thesis
  proof (cases r)
    case None
    then have "put_room fail \<lparr>pgm_RoomID = dm_id a b, pgm_RoomType = 0, pgm_Name = [],
        pgm_CreatedBy = c, pgm_PropertyID = None, pgm_MemberIDs = sort_pair a b,
        pgm_CreatedAt = now\<rparr> db = (Inr m, db')"
      using assms(1) Inr by (simp add: GetOrCreateDM_cases)
    moreover have "\<not> room_exists (dm_id a b) db" using None Inr GetRoom_none by blast
    ultimately show ?thesis using UpsertRoom_fresh[OF _ assms(2)] by (fastforce simp: put_room_ok)
  next
    case (Some m0)
    then show ?thesis using assms(1) Inr GetRoom_some[of fail "dm_id a b" db m0]
      by (simp add: GetOrCreateDM_cases)
  qed
qed (use assms in \<open>simp add: GetOrCreateDM_cases\<close>)

section \<open>Unread flags\<close>

lemma find_map_upd:
  "(\<And>x. P x \<Longrightarrow> P row) \<Longrightarrow> List.find P (map (\<lambda>x. if P x then row else x) xs)
     = (if \<exists>x\<in>set xs. P x then Some row else None)"
  by (induction xs) auto

lemma find_map_other:
  "(\<And>x. Q x \<Longrightarrow> \<not> P x) \<Longrightarrow> \<not> Q row \<Longrightarrow>
     List.find Q (map (\<lambda>x. if P x then row else x) xs) = List.find Q xs"
  by (induction xs) auto

lemma find_append: "List.find P (xs @ ys) = (case List.find P xs of None \<Rightarrow> List.find P ys | r \<Rightarrow> r)"
  by (induction xs) auto

lemma find_None_bex: "\<not> (\<exists>x\<in>set xs. P x) \<Longrightarrow> List.find P xs = None"
  by (simp add: find_None_iff)

lemma UpsertActivity_tables:
  assumes "run_stmt (UpsertActivity room t msgID sender preview) db = Inr db'"
  shows "activity_of room db' = Some \<lparr>la_room_id = room, la_last_message_at = timestamptz t,
      la_last_message_id = msgID, la_last_sender_id = sender, la_preview_text = preview\<rparr>"
    and "pg_receipts db' = pg_receipts db" and "pg_members db' = pg_members db"
    and "r \<noteq> room \<Longrightarrow> activity_of r db' = activity_of r db"
  using assms
  by (auto simp: activity_of_def Let_def find_map_upd find_map_other find_append find_None_bex
      split: if_splits option.splits)

lemma UpsertReceipt_tables:
  assumes "run_stmt (UpsertReceipt room user t msgID) db = Inr db'"
  shows "receipt_of room user db' = Some \<lparr>prr_room_id = room, prr_user_id = user,
      prr_last_read_at = timestamptz t, prr_last_read_msg_id = msgID\<rparr>"
    and "pg_activity db' = pg_activity db" and "pg_members db' = pg_members db"
    and "(r, u) \<noteq> (room, user) \<Longrightarrow> receipt_of r u db' = receipt_of r u db"
proof -
  define hit where "hit = (\<lambda>r :: receipt_row. prr_room_id r = room \<and> prr_user_id r = user)"
  define row where "row = \<lparr>prr_room_id = room, prr_user_id = user,
      prr_last_read_at = timestamptz t, prr_last_read_msg_id = msgID\<rparr>"
  have row: "hit row" by (simp add: hit_def row_def)
  consider (upd) "\<exists>r\<in>set (pg_receipts db). hit r"
      "db' = db\<lparr>pg_receipts := map (\<lambda>r. if hit r then row else r) (pg_receipts db)\<rparr>"
    | (ins) "\<not> (\<exists>r\<in>set (pg_receipts db). hit r)" "db' = db\<lparr>pg_receipts := pg_receipts db @ [row]\<rparr>"
    using assms unfolding run_stmt.simps Let_def hit_def[symmetric] row_def[symmetric]
    by (simp split: if_splits)
  note cases = this
  show "receipt_of room user db' = Some row"
    by (rule cases) (simp_all add: receipt_of_def hit_def[symmetric] row find_map_upd find_append find_None_bex)
  show "pg_activity db' = pg_activity db" "pg_members db' = pg_members db"
    by (rule cases; simp)+
  assume other: "(r, u) \<noteq> (room, user)"
  define q where "q = (\<lambda>ra :: receipt_row. prr_room_id ra = r \<and> prr_user_id ra = u)"
  have "\<not> q row" "\<And>x. q x \<Longrightarrow> \<not> hit x" using other by (auto simp: q_def row_def hit_def)
  then show "receipt_of r u db' = receipt_of r u db"
    by (-) (rule cases, simp_all add: receipt_of_def q_def[symmetric] find_map_other find_append split: option.split)
qed

section \<open>The room list\<close>

lemma collect_rooms_map: "collect_rooms fail u db bs = Inr rs \<Longrightarrow> rs = map (room_details fail u db) bs"
  by (induction bs arbitrary: rs) (auto split: option.splits sum.splits)

lemma GetUserRoomsDetailed_ok:
  assumes "GetUserRoomsDetailed fail u db = Inr rs"
  shows "rs = sort_key (\<lambda>r. - pgu_LastMessageAt r) (map (room_details fail u db) (user_room_rows u db))"
  using assms
  by (auto simp: GetUserRoomsDetailed_def Let_def split: option.splits if_splits sum.splits
      dest: collect_rooms_map)

lemma sorted_desc: "sorted (map (\<lambda>r. - f r) xs) \<Longrightarrow> sorted_wrt (\<ge>) (map (f :: 'a \<Rightarrow> int) xs)"
  by (simp add: sorted_map sorted_wrt_map)

lemma room_details_id [simp]: "pgu_RoomID (room_details fail u db b) = pr_id b"
  by (simp add: room_details_def Let_def)

lemma user_room_rows_ids:
  assumes "pg_inv db"
  shows "pr_id ` set (user_room_rows u db) = set (active_rooms u db)"
proof -
  have "set (active_rooms u db) \<subseteq> pr_id ` set (pg_rooms db)"
    using assms by (auto simp: active_rooms_def pg_inv_def room_exists_def)
  then show ?thesis by (auto simp: user_room_rows_def)
qed

lemma active_iff: "room \<in> set (active_rooms u db) \<longleftrightarrow> u \<in> set (members_of room db)"
  by (auto simp: active_rooms_def members_of_def)

lemma collect_rooms_no_fail: "collect_rooms no_fail u db bs = Inr (map (room_details no_fail u db) bs)"
  by (induction bs) (simp_all add: no_fail_def)

lemma GetUserRoomsDetailed_no_fail:
  "GetUserRoomsDetailed no_fail u db =
     Inr (sort_key (\<lambda>r. - pgu_LastMessageAt r) (map (room_details no_fail u db) (user_room_rows u db)))"
proof -
  have "no_fail (Inr (SelectUserRooms u)) = None" by (simp add: no_fail_def)
  then show ?thesis by (simp add: GetUserRoomsDetailed_def collect_rooms_no_fail Let_def)
qed

text \<open>The entry of one room in a user's list.\<close>

lemma room_entry:
  assumes "pg_inv db" "b \<in> set (pg_rooms db)"
  shows "filter (\<lambda>r. pgu_RoomID r = pr_id b)
      (sort_key (\<lambda>r. - pgu_LastMessageAt r) (map (room_details no_fail u db) (user_room_rows u db)))
    = (if u \<in> set (members_of (pr_id b) db) then [room_details no_fail u db b] else [])"
proof -
  have only: "filter (\<lambda>r. pr_id r = pr_id b) (pg_rooms db) = [b]"
    using assms(2) pg_inv_def[of db] assms(1) by (intro filter_key_unique) auto
  have "filter (\<lambda>r. pr_id r = pr_id b) (user_room_rows u db)
      = filter (\<lambda>r. pr_id r \<in> set (active_rooms u db)) (filter (\<lambda>r. pr_id r = pr_id b) (pg_rooms db))"
    unfolding user_room_rows_def by (simp add: conj_commute)
  then have "filter (\<lambda>r. pr_id r = pr_id b) (user_room_rows u db) = (if u \<in> set (members_of (pr_id b) db) then [b] else [])"
    unfolding only by (simp add: active_iff)
  then show ?thesis by (simp add: filter_sort filter_map comp_def)
qed

section \<open>What a call leaves of the other rows\<close>

lemma insert_member_frame:
  assumes "run_stmt (InsertMember room u) db = Inr db'"
  shows "pg_rooms db' = pg_rooms db" "pg_activity db' = pg_activity db" "pg_receipts db' = pg_receipts db"
    "r \<noteq> room \<Longrightarrow> members_of r db' = members_of r db"
  using assms by (auto simp: members_of_def split: if_splits)

lemma upsert_members_frame:
  assumes "upsert_members fail room uids db = (Inr (), db')"
  shows "pg_rooms db' = pg_rooms db \<and> pg_activity db' = pg_activity db \<and> pg_receipts db' = pg_receipts db
    \<and> (\<forall>r. r \<noteq> room \<longrightarrow> members_of r db' = members_of r db)"
  using assms
proof (induction uids arbitrary: db)
  case (Cons u us)
  obtain d where d: "pg_exec fail (InsertMember room u) db = (Inr (), d)"
    "upsert_members fail room us d = (Inr (), db')"
    using Cons.prems(1) by (auto split: prod.splits sum.splits)
  then have run: "run_stmt (InsertMember room u) db = Inr d" by (simp add: pg_exec_ok)
  show ?case using Cons.IH[OF d(2)] insert_member_frame[OF run] by simp
qed simp

lemma UpsertActivity_ok:
  "room_exists room db \<Longrightarrow> \<exists>db'. run_stmt (UpsertActivity room t i u p) db = Inr db'"
  by (simp add: Let_def)

lemma UpsertReceipt_ok:
  "room_exists room db \<Longrightarrow> user \<noteq> [] \<Longrightarrow> \<exists>db'. run_stmt (UpsertReceipt room user t i) db = Inr db'"
  by (simp add: Let_def)

lemma insert_ok:
  "u \<noteq> [] \<Longrightarrow> room_exists room db \<Longrightarrow> \<exists>d. run_stmt (InsertMember room u) db = Inr d"
  "cby \<noteq> [] \<Longrightarrow> \<exists>d. run_stmt (InsertRoom room ty nm cby prp t) db = Inr d"
  by simp_all

lemma upsert_members_no_fail:
  "room_exists room db \<Longrightarrow> [] \<notin> set uids \<Longrightarrow> \<exists>db'. upsert_members no_fail room uids db = (Inr (), db')"
proof (induction uids arbitrary: db)
  case (Cons u us)
  obtain d where d: "run_stmt (InsertMember room u) db = Inr d" using Cons.prems insert_ok(1)[of u room db] by auto
  then have "pg_exec no_fail (InsertMember room u) db = (Inr (), d)" by (simp add: pg_exec_ok no_fail_def)
  then show ?case using Cons.IH[OF run_stmt_rooms_mono[OF d Cons.prems(1)]] Cons.prems(2) by simp
qed simp

lemma CreateGroup_pg_no_fail:
  assumes "cby \<noteq> []" "[] \<notin> set ids"
  obtains m db' where "CreateGroup_pg no_fail now room name cby ids db = (Inr m, db')"
proof -
  obtain d where d: "run_stmt (InsertRoom room 1 (nullString name) cby None now) db = Inr d" using insert_ok(2)[OF assms(1)] by blast
  then have "pg_exec no_fail (InsertRoom room 1 (nullString name) cby None now) db = (Inr (), d)" by (simp add: pg_exec_ok no_fail_def)
  moreover have "room_exists room d" using d by (auto simp: room_exists_def split: if_splits)
  ultimately show ?thesis using upsert_members_no_fail[OF _ assms(2), of room d] that
    by (auto simp: CreateGroup_pg_def put_room_def UpsertRoom_def)
qed

lemma UpsertRoom_rows:
  assumes "UpsertRoom fail m db = (Inr (), db')" "\<not> room_exists (pgm_RoomID m) db"
  shows "pg_rooms db' = pg_rooms db @ [\<lparr>pr_id = pgm_RoomID m, pr_room_type = pgm_RoomType m,
      pr_name = nullString (pgm_Name m), pr_created_by = pgm_CreatedBy m, pr_property_id = pgm_PropertyID m,
      pr_created_at = timestamptz (pgm_CreatedAt m)\<rparr>]"
    and "pg_activity db' = pg_activity db" "pg_receipts db' = pg_receipts db"
    and "r \<noteq> pgm_RoomID m \<Longrightarrow> members_of r db' = members_of r db"
proof -
  obtain d where d: "run_stmt (InsertRoom (pgm_RoomID m) (pgm_RoomType m) (nullString (pgm_Name m))
      (pgm_CreatedBy m) (pgm_PropertyID m) (pgm_CreatedAt m)) db = Inr d"
    "upsert_members fail (pgm_RoomID m) (pgm_MemberIDs m) d = (Inr (), db')"
    using assms(1) by (auto simp: UpsertRoom_def pg_exec_ok split: prod.splits sum.splits)
  note fr = upsert_members_frame[OF d(2)]
  show "pg_rooms db' = pg_rooms db @ [\<lparr>pr_id = pgm_RoomID m, pr_room_type = pgm_RoomType m,
      pr_name = nullString (pgm_Name m), pr_created_by = pgm_CreatedBy m, pr_property_id = pgm_PropertyID m,
      pr_created_at = timestamptz (pgm_CreatedAt m)\<rparr>]" "pg_activity db' = pg_activity db" "pg_receipts db' = pg_receipts db"
    "r \<noteq> pgm_RoomID m \<Longrightarrow> members_of r db' = members_of r db"
    using d(1) fr assms(2) by (auto simp: members_of_def split: if_splits)
qed

lemma Upsert_rooms:
  "run_stmt (UpsertActivity room t i u p) db = Inr db' \<Longrightarrow> pg_rooms db' = pg_rooms db"
  "run_stmt (UpsertReceipt room u t i) db = Inr db' \<Longrightarrow> pg_rooms db' = pg_rooms db"
  by (auto simp: Let_def split: if_splits)

lemma members_of_cong: "pg_members db' = pg_members db \<Longrightarrow> members_of r db' = members_of r db"
  by (simp add: members_of_def)

section \<open>The migrated schema\<close>

lemma ddl_table:
  "\<forall>r\<in>set refs. TableObj r \<in> os \<Longrightarrow> run_ddl (CreateTableIfNotExists n refs) os = Inr (insert (TableObj n) os)"
  by (simp add: insert_absorb)

lemma ddl_index: "TableObj t \<in> os \<Longrightarrow> run_ddl (CreateIndexIfNotExists n t) os = Inr (insert (IndexObj n) os)"
  by (simp add: insert_absorb)

lemma ddl_trigger:
  "TableObj t \<in> os \<and> FunctionObj f \<in> os \<Longrightarrow>
     run_ddl (CreateTrigger n t f) (os - {TriggerObj n t}) = Inr (insert (TriggerObj n t) (os - {TriggerObj n t}))"
  by simp

lemma ddl_simple:
  "True \<Longrightarrow> run_ddl (CreateSchemaIfNotExists n) os = Inr (insert (SchemaObj n) os)"
  "True \<Longrightarrow> run_ddl (CreateOrReplaceFunction n) os = Inr (insert (FunctionObj n) os)"
  "True \<Longrightarrow> run_ddl (DropTriggerIfExists n t) os = Inr (os - {TriggerObj n t})"
  by simp_all

lemmas ddl_rules = ddl_simple ddl_table ddl_index ddl_trigger

lemma migrate_step:
  "run_ddl st os = Inr os' \<Longrightarrow> run_migration (\<lambda>_. None) sts os' = R \<Longrightarrow> run_migration (\<lambda>_. None) (st # sts) os = R"
  by simp

definition migrated :: "pg_object set \<Rightarrow> pg_object set" where
  "migrated os =
     insert (TriggerObj ''set_chat_rooms_updated_at'' ''chat_rooms'')
       (insert (FunctionObj ''trg_set_updated_at'')
         (insert (IndexObj ''idx_last_activity_time'')
           (insert (IndexObj ''idx_chat_members_user'')
             (insert (IndexObj ''idx_chat_rooms_created_by'')
               (insert (TableObj ''chat_read_receipts'')
                 (insert (TableObj ''chat_room_last_activity'')
                   (insert (TableObj ''chat_room_members'')
                     (insert (TableObj ''chat_rooms'') (insert (SchemaObj ''public'') os)))))))))"

lemma migrated_again: "migrated (migrated os) = migrated os" "os \<subseteq> migrated os"
  unfolding migrated_def by blast+

section \<open>Reachable tables\<close>

text \<open>The tables a sequence of repository calls can leave behind, from the empty tables of a fresh
  migration, whatever statements fail on the way.\<close>

inductive pg_reachable :: "pg_db \<Rightarrow> bool" where
  fresh: "pg_reachable pg_db_empty"
| upsert_room: "pg_reachable db \<Longrightarrow> UpsertRoom fail m db = (res, db') \<Longrightarrow> pg_reachable db'"
| get_or_create: "pg_reachable db \<Longrightarrow> GetOrCreateDM fail now a b cby db = (r, db') \<Longrightarrow> pg_reachable db'"
| create_group: "pg_reachable db \<Longrightarrow> CreateGroup_pg fail now i n cby ms db = (r, db') \<Longrightarrow> pg_reachable db'"
| activity: "pg_reachable db \<Longrightarrow> UpdateLastActivity fail i mid u p t db = (res, db') \<Longrightarrow> pg_reachable db'"
| receipt: "pg_reachable db \<Longrightarrow> UpdateReadReceipt_pg fail i u mid t db = (res, db') \<Longrightarrow> pg_reachable db'"

lemma GetOrCreateDM_inv: "GetOrCreateDM fail now a b cby db = (r, db') \<Longrightarrow> pg_inv db \<Longrightarrow> pg_inv db'"
  unfolding GetOrCreateDM_cases by (auto split: sum.splits option.splits dest: put_room_inv)

lemma pg_reachable_inv: "pg_reachable db \<Longrightarrow> pg_inv db"
proof (induction rule: pg_reachable.induct)
  case fresh
  show ?case by (simp add: pg_inv_def pg_db_empty_def)
next
  case (create_group db fail now i n cby ms r db')
  then show ?case by (auto simp: CreateGroup_pg_def dest: put_room_inv)
qed (auto simp: UpdateLastActivity_def UpdateReadReceipt_pg_def
    dest: UpsertRoom_inv GetOrCreateDM_inv pg_exec_inv)

definition demo_pg :: pg_db where
  "demo_pg = snd (GetOrCreateDM no_fail 0 ''u'' ''v'' ''u'' pg_db_empty)"

lemma demo_pg_eq:
  "GetOrCreateDM no_fail 0 ''u'' ''v'' ''u'' pg_db_empty =
     (Inr \<lparr>pgm_RoomID = ''dm:u:v'', pgm_RoomType = 0, pgm_Name = [], pgm_CreatedBy = ''u'',
        pgm_PropertyID = None, pgm_MemberIDs = [''u'', ''v''], pgm_CreatedAt = 0\<rparr>, demo_pg)"
  "pg_rooms demo_pg = [\<lparr>pr_id = ''dm:u:v'', pr_room_type = 0, pr_name = None, pr_created_by = ''u'',
     pr_property_id = None, pr_created_at = 0\<rparr>]"
  "pg_activity demo_pg = []" "pg_receipts demo_pg = []" "members_of ''dm:u:v'' demo_pg = [''u'', ''v'']"
  by (simp_all add: demo_pg_def GetOrCreateDM_def GetRoom_def no_fail_def put_room_def UpsertRoom_def
      pg_exec_def pg_db_empty_def sort_pair_eq room_exists_def nullString_def timestamptz_def members_of_def Let_def)

lemma demo_pg_reachable: "pg_reachable demo_pg"
  using pg_reachable.get_or_create[OF pg_reachable.fresh demo_pg_eq(1)] .

section \<open>Properties\<close>

text \<open>C28. What the service writes to its Postgres tables is read back. After a group has been created under a
  new id, a message noted as its last activity and a read receipt of one user, the room has the type,
  name, creator, time and members it was created with (times to the microsecond); the room list of every
  member, and of nobody else, has one entry for it, with the preview and the time of the message and
  an unread mark unless the user sent the message or is the one whose receipt is as late; and every other
  room is as before. The calls may meet any failures as long as they report success.\<close>

theorem pg_room_roundtrip:
  assumes "pg_reachable db" "\<not> room_exists roomID db"
    and group: "CreateGroup_pg f1 now roomID name cby ids db = (Inr m, db1)"
    and act: "UpdateLastActivity f2 roomID msgID sender preview at db1 = (Inr (), db2)"
    and rec: "UpdateReadReceipt_pg f3 roomID reader readID t db2 = (Inr (), db3)"
  shows "\<exists>ms. set ms = set ids
    \<and> GetRoom no_fail roomID db3 = Inr (Some \<lparr>pgm_RoomID = roomID, pgm_RoomType = 1, pgm_Name = name,
        pgm_CreatedBy = cby, pgm_PropertyID = None, pgm_MemberIDs = ms, pgm_CreatedAt = timestamptz now\<rparr>)
    \<and> (\<forall>u. \<exists>rs. GetUserRoomsDetailed no_fail u db3 = Inr rs
         \<and> filter (\<lambda>r. pgu_RoomID r = roomID) rs = (if u \<in> set ids
             then [\<lparr>pgu_RoomID = roomID, pgu_RoomType = 1, pgu_Name = name, pgu_LastMessage = preview,
                    pgu_LastMessageAt = epoch_ms (timestamptz at),
                    pgu_HasUnread = (u \<noteq> sender \<and> (u = reader \<longrightarrow> timestamptz t < timestamptz at)),
                    pgu_MemberIDs = ms\<rparr>]
             else []))
    \<and> (\<forall>r. r \<noteq> roomID \<longrightarrow> GetRoom no_fail r db3 = GetRoom no_fail r db \<and> activity_of r db3 = activity_of r db
         \<and> (\<forall>u. receipt_of r u db3 = receipt_of r u db))"
proof -
  let ?m = "\<lparr>pgm_RoomID = roomID, pgm_RoomType = 1, pgm_Name = name, pgm_CreatedBy = cby, pgm_PropertyID = None,
      pgm_MemberIDs = ids, pgm_CreatedAt = now\<rparr>"
  let ?row = "\<lparr>pr_id = roomID, pr_room_type = 1, pr_name = nullString name, pr_created_by = cby, pr_property_id = None,
      pr_created_at = timestamptz now\<rparr>"
  have inv: "pg_inv db" by (rule pg_reachable_inv[OF assms(1)])
  have up: "UpsertRoom f1 ?m db = (Inr (), db1)" using group by (simp add: CreateGroup_pg_def put_room_ok)
  have st: "run_stmt (UpsertActivity roomID at msgID sender preview) db1 = Inr db2"
    "run_stmt (UpsertReceipt roomID reader t readID) db2 = Inr db3"
    using act rec by (simp_all add: UpdateLastActivity_def UpdateReadReceipt_pg_def pg_exec_ok)
  note t1 = UpsertRoom_rows[OF up, simplified, OF assms(2)] and t2 = UpsertActivity_tables[OF st(1)] Upsert_rooms(1)[OF st(1)]
    and t3 = UpsertReceipt_tables[OF st(2)] Upsert_rooms(2)[OF st(2)]
  have mem: "members_of r db3 = members_of r db1" for r using members_of_cong[of db2 db1 r] members_of_cong[of db3 db2 r] t2(3) t3(3) by simp
  have ids: "set (members_of roomID db1) = set ids" using UpsertRoom_fresh[OF up inv] assms(2) by simp
  have rooms: "pg_rooms db3 = pg_rooms db @ [?row]" using t1(1) t2(5) t3(5) by simp
  have acts: "activity_of r db3 = (if r = roomID then Some \<lparr>la_room_id = roomID, la_last_message_at = timestamptz at,
      la_last_message_id = msgID, la_last_sender_id = sender, la_preview_text = preview\<rparr> else activity_of r db)" for r
    using t2(1) t2(4)[of r] t1(2) t3(2) by (simp add: activity_of_def)
  have none: "receipt_of roomID u db = None" for u
    using inv assms(2) by (auto simp: receipt_of_def pg_inv_def find_None_iff)
  have recs: "receipt_of r u db3 = (if (r, u) = (roomID, reader) then Some \<lparr>prr_room_id = roomID, prr_user_id = reader,
      prr_last_read_at = timestamptz t, prr_last_read_msg_id = readID\<rparr> else receipt_of r u db)" for r u
    using t3(1) t3(4)[of r u] t1(3) t2(2) by (auto simp: receipt_of_def)
  have inv3: "pg_inv db3"
    using pg_reachable_inv[OF pg_reachable.receipt[OF pg_reachable.activity[OF pg_reachable.create_group[OF assms(1) group] act] rec]] .
  have nm: "(case nullString name of None \<Rightarrow> [] | Some n \<Rightarrow> n) = name" by (simp add: nullString_def)
  have find: "List.find (\<lambda>r. pr_id r = roomID) (pg_rooms db3) = Some ?row"
    "r \<noteq> roomID \<Longrightarrow> List.find (\<lambda>x. pr_id x = r) (pg_rooms db3) = List.find (\<lambda>x. pr_id x = r) (pg_rooms db)" for r
    using assms(2) by (auto simp: rooms find_append room_exists_find split: option.split)
  have get: "GetRoom no_fail roomID db3 = Inr (Some \<lparr>pgm_RoomID = roomID, pgm_RoomType = 1, pgm_Name = name,
      pgm_CreatedBy = cby, pgm_PropertyID = None, pgm_MemberIDs = members_of roomID db1, pgm_CreatedAt = timestamptz now\<rparr>)"
    using find(1) mem nm by (simp add: GetRoom_def no_fail_def)
  have entry: "room_details no_fail u db3 ?row = \<lparr>pgu_RoomID = roomID, pgu_RoomType = 1, pgu_Name = name, pgu_LastMessage = preview,
      pgu_LastMessageAt = epoch_ms (timestamptz at), pgu_HasUnread = (u \<noteq> sender \<and> (u = reader \<longrightarrow> timestamptz t < timestamptz at)),
      pgu_MemberIDs = members_of roomID db1\<rparr>" for u
    by (simp add: room_details_def no_fail_def acts recs none unread_flag_def mem nm Let_def)
  have "?row \<in> set (pg_rooms db3)" by (simp add: rooms)
  note mine = room_entry[OF inv3 this, simplified, unfolded entry mem ids]
  have others: "GetRoom no_fail r db3 = GetRoom no_fail r db" if "r \<noteq> roomID" for r
    using find(2)[OF that] mem[of r] t1(4)[of r] that
    by (cases "List.find (\<lambda>x. pr_id x = r) (pg_rooms db)") (simp_all add: GetRoom_def no_fail_def)
  show ?thesis
    by (rule exI[of _ "members_of roomID db1"]) (simp add: ids get GetUserRoomsDetailed_no_fail mine others acts recs)
qed

theorem pg_room_roundtrip_witness:
  "\<exists>m db1 db2 db3 rs ms. CreateGroup_pg no_fail 5000 ''group:g'' ''Flat'' ''u'' [''u'', ''v'', ''u''] demo_pg = (Inr m, db1)
     \<and> UpdateLastActivity no_fail ''group:g'' ''m'' ''u'' ''hi'' 7000000 db1 = (Inr (), db2)
     \<and> UpdateReadReceipt_pg no_fail ''group:g'' ''u'' ''m'' 7000000 db2 = (Inr (), db3)
     \<and> GetUserRoomsDetailed no_fail ''v'' db3 = Inr rs
     \<and> filter (\<lambda>r. pgu_RoomID r = ''group:g'') rs = [\<lparr>pgu_RoomID = ''group:g'', pgu_RoomType = 1, pgu_Name = ''Flat'',
          pgu_LastMessage = ''hi'', pgu_LastMessageAt = 7, pgu_HasUnread = True, pgu_MemberIDs = ms\<rparr>]"
proof -
  have fresh: "\<not> room_exists ''group:g'' demo_pg" by (simp add: room_exists_def demo_pg_eq)
  obtain m db1 where g: "CreateGroup_pg no_fail 5000 ''group:g'' ''Flat'' ''u'' [''u'', ''v'', ''u''] demo_pg = (Inr m, db1)"
    by (rule CreateGroup_pg_no_fail[of "''u''" "[''u'', ''v'', ''u'']"]) auto
  have "room_exists ''group:g'' db1"
    using UpsertRoom_fresh[OF _ pg_reachable_inv[OF demo_pg_reachable]] g fresh by (fastforce simp: CreateGroup_pg_def put_room_ok)
  then obtain db2 where a: "UpdateLastActivity no_fail ''group:g'' ''m'' ''u'' ''hi'' 7000000 db1 = (Inr (), db2)"
    using UpsertActivity_ok[of "''group:g''" db1 7000000 "''m''" "''u''" "''hi''"]
    by (auto simp: UpdateLastActivity_def pg_exec_ok no_fail_def simp del: run_stmt.simps)
  then have "room_exists ''group:g'' db2"
    using pg_exec_rooms_mono \<open>room_exists ''group:g'' db1\<close> by (auto simp: UpdateLastActivity_def)
  then obtain db3 where r: "UpdateReadReceipt_pg no_fail ''group:g'' ''u'' ''m'' 7000000 db2 = (Inr (), db3)"
    using UpsertReceipt_ok[of "''group:g''" db2 "''u''" 7000000 "''m''"]
    by (auto simp: UpdateReadReceipt_pg_def pg_exec_ok no_fail_def simp del: run_stmt.simps)
  obtain ms where ms: "\<forall>u. \<exists>rs. GetUserRoomsDetailed no_fail u db3 = Inr rs \<and> filter (\<lambda>r. pgu_RoomID r = ''group:g'') rs =
      (if u \<in> set [''u'', ''v'', ''u''] then [\<lparr>pgu_RoomID = ''group:g'', pgu_RoomType = 1, pgu_Name = ''Flat'',
          pgu_LastMessage = ''hi'', pgu_LastMessageAt = epoch_ms (timestamptz 7000000),
          pgu_HasUnread = (u \<noteq> ''u'' \<and> (u = ''u'' \<longrightarrow> timestamptz 7000000 < timestamptz 7000000)), pgu_MemberIDs = ms\<rparr>] else [])"
    using pg_room_roundtrip[OF demo_pg_reachable fresh g a r] by blast
  have "epoch_ms (timestamptz 7000000) = 7" by (simp add: epoch_ms_def timestamptz_def)
  then obtain rs where "GetUserRoomsDetailed no_fail ''v'' db3 = Inr rs" "filter (\<lambda>r. pgu_RoomID r = ''group:g'') rs =
      [\<lparr>pgu_RoomID = ''group:g'', pgu_RoomType = 1, pgu_Name = ''Flat'', pgu_LastMessage = ''hi'', pgu_LastMessageAt = 7,
        pgu_HasUnread = True, pgu_MemberIDs = ms\<rparr>]"
    using ms[rule_format, of "''v''"] by auto
  then show ?thesis using g a r by blast
qed

text \<open>C29. \<open>GetOrCreateDM\<close> is idempotent and symmetric: once it has returned a room, a later call for
  the two users in either order returns a room with the same id and the same members and leaves the
  tables as they are; the room has the canonical id.\<close>

theorem GetOrCreateDM_idempotent:
  assumes "pg_inv db" "GetOrCreateDM fail now a b cby db = (Inr m, db')"
  shows "pgm_RoomID m = dm_id a b
    \<and> (\<exists>m'. GetOrCreateDM no_fail now' b a cby' db' = (Inr m', db')
         \<and> pgm_RoomID m' = pgm_RoomID m \<and> set (pgm_MemberIDs m') = set (pgm_MemberIDs m))"
proof -
  note res = GetOrCreateDM_result[OF assms(2,1)]
  then obtain m' where m': "GetRoom no_fail (dm_id a b) db' = Inr (Some m')" using GetRoom_no_fail by blast
  note some = GetRoom_some[OF m']
  have "GetOrCreateDM no_fail now' b a cby' db' = (Inr m', db')"
    unfolding GetOrCreateDM_cases dm_id_commute[of b a] using m' by simp
  then show ?thesis using res some by auto
qed

theorem GetOrCreateDM_idempotent_witness:
  "pg_inv pg_db_empty \<and> (\<exists>m'. GetOrCreateDM no_fail 5 ''v'' ''u'' ''w'' demo_pg = (Inr m', demo_pg)
     \<and> pgm_RoomID m' = ''dm:u:v'' \<and> set (pgm_MemberIDs m') = {''u'', ''v''})"
proof -
  have inv: "pg_inv pg_db_empty" by (rule pg_reachable_inv[OF pg_reachable.fresh])
  obtain m' where "GetOrCreateDM no_fail 5 ''v'' ''u'' ''w'' demo_pg = (Inr m', demo_pg)"
      "pgm_RoomID m' = ''dm:u:v''" "set (pgm_MemberIDs m') = {''u'', ''v''}"
    using GetOrCreateDM_idempotent[OF inv demo_pg_eq(1), of 5 "''w''"] by (elim conjE exE) simp
  then show ?thesis using inv by blast
qed

text \<open>\<open>UpsertRoom\<close> is not atomic: creating a direct-message room for an empty user id fails after
  the room row has been written, and the same call then succeeds and returns the half-made room.\<close>

lemma UpsertRoom_not_atomic:
  assumes "pg_inv db" "\<not> room_exists (dm_id [] b) db" "cby \<noteq> []" "b \<noteq> []"
  shows "\<exists>e db' m. GetOrCreateDM no_fail now [] b cby db = (Inl e, db') \<and> room_exists (dm_id [] b) db'
    \<and> GetOrCreateDM no_fail now [] b cby db' = (Inr m, db') \<and> pgm_MemberIDs m = []"
proof -
  let ?m = "\<lparr>pgm_RoomID = dm_id [] b, pgm_RoomType = 0, pgm_Name = [], pgm_CreatedBy = cby,
      pgm_PropertyID = None, pgm_MemberIDs = sort_pair [] b, pgm_CreatedAt = now\<rparr>"
  let ?row = "\<lparr>pr_id = dm_id [] b, pr_room_type = 0, pr_name = None, pr_created_by = cby,
      pr_property_id = None, pr_created_at = timestamptz now\<rparr>"
  let ?db = "db\<lparr>pg_rooms := pg_rooms db @ [?row]\<rparr>"
  have "List.find (\<lambda>r. pr_id r = dm_id [] b) (pg_rooms db) = None"
    using assms(2) by (simp add: room_exists_find)
  then have get: "GetRoom no_fail (dm_id [] b) db = Inr None" by (simp add: GetRoom_def no_fail_def)
  have pair: "sort_pair [] b = [[], b]" by (simp add: sort_pair_eq)
  have "UpsertRoom no_fail ?m db = (Inl (''upsert member : '' @ check_error), ?db)"
    using assms(2,3) by (simp add: UpsertRoom_def pg_exec_def no_fail_def nullString_def pair)
  then have first: "GetOrCreateDM no_fail now [] b cby db = (Inl (''upsert member : '' @ check_error), ?db)"
    unfolding GetOrCreateDM_cases get by (simp add: put_room_def)
  have ex: "room_exists (dm_id [] b) ?db" by (simp add: room_exists_def)
  then obtain m where m: "GetRoom no_fail (dm_id [] b) ?db = Inr (Some m)" using GetRoom_no_fail by blast
  then have "pgm_MemberIDs m = []"
    using GetRoom_some[OF m] fresh_room_no_members[OF assms(1,2)] by (simp add: members_of_def)
  moreover have "GetOrCreateDM no_fail now [] b cby ?db = (Inr m, ?db)"
    unfolding GetOrCreateDM_cases m by simp
  ultimately show ?thesis using first ex by blast
qed

text \<open>The room list of a user holds every room the user is an active member of, each once, newest
  activity first, with the unread mark and the members of that room.\<close>

lemma GetUserRoomsDetailed_lists:
  assumes "pg_inv db" "GetUserRoomsDetailed no_fail u db = Inr rs"
  shows "set (map pgu_RoomID rs) = set (active_rooms u db) \<and> distinct (map pgu_RoomID rs)
    \<and> sorted_wrt (\<ge>) (map pgu_LastMessageAt rs)
    \<and> (\<forall>r\<in>set rs. (pgu_HasUnread r \<longleftrightarrow> unread_flag (pgu_RoomID r) u db)
         \<and> pgu_MemberIDs r = members_of (pgu_RoomID r) db)"
proof -
  let ?f = "room_details no_fail u db" and ?rows = "user_room_rows u db"
  have rs: "rs = sort_key (\<lambda>r. - pgu_LastMessageAt r) (map ?f ?rows)"
    by (rule GetUserRoomsDetailed_ok[OF assms(2)])
  have ids: "set (map pgu_RoomID rs) = set (active_rooms u db)"
    using user_room_rows_ids[OF assms(1), of u] unfolding rs by (simp add: image_image)
  have "mset (map pgu_RoomID rs) = mset (map pr_id ?rows)" unfolding rs by (simp add: image_mset.compositionality o_def)
  moreover have "distinct (map pr_id ?rows)"
    using assms(1) by (auto simp: pg_inv_def user_room_rows_def distinct_map_filter)
  ultimately have "distinct (map pgu_RoomID rs)" by (metis mset_eq_imp_distinct_iff)
  moreover have "sorted_wrt (\<ge>) (map pgu_LastMessageAt rs)"
    unfolding rs by (rule sorted_desc) (rule sorted_sort_key)
  moreover have "set rs = ?f ` set ?rows" unfolding rs by simp
  ultimately show ?thesis using ids by (auto simp: room_details_def no_fail_def Let_def)
qed

text \<open>The migration succeeds on every database, removes nothing from it, and can be run again on
  every start: the second run succeeds as well and changes nothing.\<close>

lemma Migrate_idempotent:
  "\<exists>os'. Migrate (\<lambda>_. None) os = (None, os') \<and> os \<subseteq> os' \<and> Migrate (\<lambda>_. None) os' = (None, os')"
proof -
  have run: "Migrate (\<lambda>_. None) os = (None, migrated os)" for os
    unfolding Migrate_def migrate_stmts_def
    by (rule migrate_step, rule ddl_rules, (simp; fail))+ (simp only: run_migration.simps insert_Diff_single migrated_def)
  show ?thesis using run[of os] run[of "migrated os"] unfolding migrated_again(1) using migrated_again(2) by blast
qed

end
