(* ===== verification/Storage.thy ===== *)
theory Storage
  imports Prelude
begin

text \<open>
  Package \<open>app/storage\<close>: the interface \<open>Storage\<close> and its four implementations.

  The MinIO and AWS clients and SHA-1 are code outside the repository: \<open>presign_ops\<close> holds
  what the service calls on them and is an argument of every operation that does. \<open>t1\<close> and
  \<open>t2\<close> are the clock readings of a call in their order. \<open>storage_backend\<close> is what the RPC
  layer relies on: a URL that is handed out stays valid for a quarter of an hour at least.
\<close>

section \<open>Third-party calls\<close>

record 'b presign_ops =
  ps_minio_put :: "string \<Rightarrow> string \<Rightarrow> int \<Rightarrow> string go_result" \<comment> \<open>bucket, key, validity\<close>
  ps_minio_get :: "string \<Rightarrow> string \<Rightarrow> int \<Rightarrow> string go_result"
  ps_bucket_exists :: "string \<Rightarrow> 'b \<Rightarrow> bool go_result"
  ps_make_bucket :: "string \<Rightarrow> 'b \<Rightarrow> unit go_result \<times> 'b"
  ps_s3_put :: "string \<Rightarrow> string \<Rightarrow> string \<Rightarrow> int \<Rightarrow> string go_result" \<comment> \<open>bucket, key, type, validity\<close>
  ps_s3_get :: "string \<Rightarrow> string \<Rightarrow> int \<Rightarrow> string go_result"
  ps_sha1_hex :: "string \<Rightarrow> string"

text \<open>A URL and its expiry.\<close>

type_synonym presigned = "(string \<times> gotime) go_result"

definition Minute :: int where
  "Minute = 60 * 1000000000"

definition presignTTL :: int where
  "presignTTL = 15 * Minute"

definition s3PresignTTL :: int where
  "s3PresignTTL = 15 * Minute"

definition toUnix :: "gotime \<Rightarrow> int" where
  "toUnix t = t div 1000000000"

section \<open>Noop\<close>

definition Noop_PutPresignedURL :: presigned where
  "Noop_PutPresignedURL = Inl ''object storage not configured''"

definition Noop_GetPresignedURL :: presigned where
  "Noop_GetPresignedURL = Inl ''object storage not configured''"

section \<open>Cloudinary\<close>

record CloudinaryStorage =
  cl_cloudName :: string
  cl_apiKey :: string
  cl_apiSecret :: string

definition NewCloudinaryStorage :: "string \<Rightarrow> string \<Rightarrow> string \<Rightarrow> CloudinaryStorage option" where
  "NewCloudinaryStorage cloudName apiKey apiSecret =
     (if cloudName = [] \<or> apiKey = [] \<or> apiSecret = [] then None
      else Some \<lparr>cl_cloudName = cloudName, cl_apiKey = apiKey, cl_apiSecret = apiSecret\<rparr>)"

text \<open>\<open>params\<close> lists the map's entries in the order in which it happens to be iterated.\<close>

definition sign :: "'b presign_ops \<Rightarrow> CloudinaryStorage \<Rightarrow> (string \<times> string) list \<Rightarrow> string" where
  "sign X c params =
     (let keys = sort (map fst params);
          parts = map (\<lambda>k. k @ ''='' @ (case map_of params k of None \<Rightarrow> [] | Some v \<Rightarrow> v)) keys;
          toSign = Join parts ''&'' @ cl_apiSecret c
      in ps_sha1_hex X toSign)"

definition Cloudinary_PutPresignedURL ::
  "'b presign_ops \<Rightarrow> CloudinaryStorage \<Rightarrow> gotime \<Rightarrow> gotime \<Rightarrow> string \<Rightarrow> presigned" where
  "Cloudinary_PutPresignedURL X c t1 t2 key =
     (let ts = toUnix t1;
          expiresAt = t2 + 15 * Minute;
          sig = sign X c [(''public_id'', key), (''timestamp'', FormatInt ts)]
      in Inr (''https://api.cloudinary.com/v1_1/'' @ cl_cloudName c @ ''/auto/upload?api_key=''
              @ cl_apiKey c @ ''&timestamp='' @ FormatInt ts @ ''&public_id='' @ key
              @ ''&signature='' @ sig, expiresAt))"

definition Cloudinary_GetPresignedURL :: "CloudinaryStorage \<Rightarrow> gotime \<Rightarrow> string \<Rightarrow> presigned" where
  "Cloudinary_GetPresignedURL c t key =
     Inr (''https://res.cloudinary.com/'' @ cl_cloudName c @ ''/auto/upload/'' @ key,
          t + 24 * 60 * Minute * 365)"

section \<open>MinIO\<close>

record MinioStorage =
  mn_endpoint :: string
  mn_accessKey :: string
  mn_secretKey :: string
  mn_useSSL :: bool
  mn_bucket :: string

text \<open>\<open>connect\<close> is the outcome of \<open>minio.New\<close> on the endpoint.\<close>

definition NewMinioStorage ::
  "(string \<Rightarrow> unit go_result) \<Rightarrow> string \<Rightarrow> string \<Rightarrow> string \<Rightarrow> string \<Rightarrow> bool
   \<Rightarrow> MinioStorage option go_result" where
  "NewMinioStorage connect endpoint accessKey secretKey bucket useSSL =
     (if endpoint = [] then Inr None
      else case connect endpoint of
             Inl e \<Rightarrow> Inl (''minio connect: '' @ e)
           | Inr _ \<Rightarrow> Inr (Some \<lparr>mn_endpoint = endpoint, mn_accessKey = accessKey,
                             mn_secretKey = secretKey, mn_useSSL = useSSL, mn_bucket = bucket\<rparr>))"

definition EnsureBucket :: "'b presign_ops \<Rightarrow> MinioStorage \<Rightarrow> 'b \<Rightarrow> unit go_result \<times> 'b" where
  "EnsureBucket X m b =
     (case ps_bucket_exists X (mn_bucket m) b of
        Inl e \<Rightarrow> (Inl (''check bucket: '' @ e), b)
      | Inr True \<Rightarrow> (Inr (), b)
      | Inr False \<Rightarrow>
          (case ps_make_bucket X (mn_bucket m) b of
             (Inl e, b') \<Rightarrow> (Inl (''create bucket: '' @ e), b')
           | (Inr _, b') \<Rightarrow> (Inr (), b')))"

definition Minio_PutPresignedURL ::
  "'b presign_ops \<Rightarrow> MinioStorage \<Rightarrow> gotime \<Rightarrow> string \<Rightarrow> presigned" where
  "Minio_PutPresignedURL X m t key =
     (case ps_minio_put X (mn_bucket m) key presignTTL of
        Inl e \<Rightarrow> Inl (''presign put: '' @ e)
      | Inr u \<Rightarrow> Inr (u, t + presignTTL))"

definition Minio_GetPresignedURL ::
  "'b presign_ops \<Rightarrow> MinioStorage \<Rightarrow> gotime \<Rightarrow> string \<Rightarrow> presigned" where
  "Minio_GetPresignedURL X m t key =
     (case ps_minio_get X (mn_bucket m) key presignTTL of
        Inl e \<Rightarrow> Inl (''presign get: '' @ e)
      | Inr u \<Rightarrow> Inr (u, t + presignTTL))"

section \<open>S3\<close>

record S3Config =
  s3_Bucket :: string
  s3_Region :: string
  s3_Endpoint :: string
  s3_AccessKeyID :: string
  s3_SecretAccessKey :: string
  s3_ForcePathStyle :: bool

datatype s3_load_option = WithCredentialsProvider string string | WithRegion string

record S3Storage =
  s3s_load :: "s3_load_option list"
  s3s_endpoint :: "(string \<times> bool) option" \<comment> \<open>base endpoint and path style\<close>
  s3s_bucket :: string

text \<open>\<open>load\<close> is the outcome of \<open>awsconfig.LoadDefaultConfig\<close> on the options.\<close>

definition NewS3Storage ::
  "(s3_load_option list \<Rightarrow> unit go_result) \<Rightarrow> S3Config \<Rightarrow> S3Storage option go_result" where
  "NewS3Storage load cfg =
     (if s3_Bucket cfg = [] then Inr None
      else let opts =
                 (if s3_AccessKeyID cfg \<noteq> []
                  then [WithCredentialsProvider (s3_AccessKeyID cfg) (s3_SecretAccessKey cfg)] else [])
                 @ (if s3_Region cfg \<noteq> [] then [WithRegion (s3_Region cfg)] else [])
           in case load opts of
                Inl e \<Rightarrow> Inl (''s3 config: '' @ e)
              | Inr _ \<Rightarrow>
                  Inr (Some \<lparr>s3s_load = opts,
                    s3s_endpoint = (if s3_Endpoint cfg \<noteq> []
                                    then Some (s3_Endpoint cfg, s3_ForcePathStyle cfg) else None),
                    s3s_bucket = s3_Bucket cfg\<rparr>))"

text \<open>\<open>%02d\<close> of a month or a day; \<open>ObjectKey\<close> takes the civil date of the clock.\<close>

definition pad2 :: "int \<Rightarrow> string" where
  "pad2 n = (if 0 \<le> n \<and> n < 10 then CHR ''0'' # FormatInt n else FormatInt n)"

definition ObjectKey :: "int \<times> int \<times> int \<Rightarrow> string \<Rightarrow> string \<Rightarrow> string" where
  "ObjectKey date roomID fileName =
     (case date of (year, month, day) \<Rightarrow>
        ''rooms/'' @ roomID @ ''/'' @ FormatInt year @ ''/'' @ pad2 month @ ''/'' @ pad2 day
        @ ''/'' @ fileName)"

definition S3_PutPresignedURL ::
  "'b presign_ops \<Rightarrow> S3Storage \<Rightarrow> gotime \<Rightarrow> string \<Rightarrow> string \<Rightarrow> presigned" where
  "S3_PutPresignedURL X s t key mimeType =
     (case ps_s3_put X (s3s_bucket s) key mimeType s3PresignTTL of
        Inl e \<Rightarrow> Inl (''presign put: '' @ e)
      | Inr u \<Rightarrow> Inr (u, t + s3PresignTTL))"

definition S3_GetPresignedURL :: "'b presign_ops \<Rightarrow> S3Storage \<Rightarrow> gotime \<Rightarrow> string \<Rightarrow> presigned" where
  "S3_GetPresignedURL X s t key =
     (case ps_s3_get X (s3s_bucket s) key s3PresignTTL of
        Inl e \<Rightarrow> Inl (''presign get: '' @ e)
      | Inr u \<Rightarrow> Inr (u, t + s3PresignTTL))"

section \<open>The interface value\<close>

datatype Storage = NoopStorage | Cloudinary CloudinaryStorage | Minio MinioStorage | S3 S3Storage

fun PutPresignedURL ::
  "'b presign_ops \<Rightarrow> Storage \<Rightarrow> gotime \<Rightarrow> gotime \<Rightarrow> string \<Rightarrow> string \<Rightarrow> int \<Rightarrow> presigned" where
  "PutPresignedURL X NoopStorage t1 t2 key mimeType sizeBytes = Noop_PutPresignedURL"
| "PutPresignedURL X (Cloudinary c) t1 t2 key mimeType sizeBytes = Cloudinary_PutPresignedURL X c t1 t2 key"
| "PutPresignedURL X (Minio m) t1 t2 key mimeType sizeBytes = Minio_PutPresignedURL X m t2 key"
| "PutPresignedURL X (S3 s) t1 t2 key mimeType sizeBytes = S3_PutPresignedURL X s t2 key mimeType"

fun GetPresignedURL :: "'b presign_ops \<Rightarrow> Storage \<Rightarrow> gotime \<Rightarrow> string \<Rightarrow> presigned" where
  "GetPresignedURL X NoopStorage t key = Noop_GetPresignedURL"
| "GetPresignedURL X (Cloudinary c) t key = Cloudinary_GetPresignedURL c t key"
| "GetPresignedURL X (Minio m) t key = Minio_GetPresignedURL X m t key"
| "GetPresignedURL X (S3 s) t key = S3_GetPresignedURL X s t key"

section \<open>The contract of a storage back end\<close>

locale storage_backend =
  fixes put :: "gotime \<Rightarrow> gotime \<Rightarrow> string \<Rightarrow> string \<Rightarrow> int \<Rightarrow> presigned"
    and get :: "gotime \<Rightarrow> string \<Rightarrow> presigned"
  assumes put_valid: "put t1 t2 key mime n = Inr (url, expiry) \<Longrightarrow> t2 + 15 * Minute \<le> expiry"
    and get_valid: "get t key = Inr (url, expiry) \<Longrightarrow> t + 15 * Minute \<le> expiry"
begin

lemma valid_ms: "t + 15 * Minute \<le> e \<Longrightarrow> toUnixMilli t + 900000 \<le> toUnixMilli e"
  by (simp add: toUnixMilli_def Minute_def)

lemma put_valid_ms: "put t1 t2 key mime n = Inr (url, expiry) \<Longrightarrow> toUnixMilli t2 + 900000 \<le> toUnixMilli expiry"
  using valid_ms put_valid by blast

lemma get_valid_ms: "get t key = Inr (url, expiry) \<Longrightarrow> toUnixMilli t + 900000 \<le> toUnixMilli expiry"
  using valid_ms get_valid by blast

end

lemmas storage_defs = Noop_PutPresignedURL_def Noop_GetPresignedURL_def
  Cloudinary_PutPresignedURL_def Cloudinary_GetPresignedURL_def Minio_PutPresignedURL_def
  Minio_GetPresignedURL_def S3_PutPresignedURL_def S3_GetPresignedURL_def
  presignTTL_def s3PresignTTL_def Minute_def

interpretation presigned: storage_backend "PutPresignedURL X st" "GetPresignedURL X st"
  by unfold_locales (cases st; auto simp: storage_defs Let_def split: sum.splits)+

section \<open>Lemmas\<close>

text \<open>The signature does not depend on the iteration order of the parameter map.\<close>

lemma sort_perm: "distinct xs \<Longrightarrow> distinct ys \<Longrightarrow> set xs = set ys \<Longrightarrow> sort xs = sort (ys :: string list)"
  by (simp add: sorted_distinct_set_unique)

lemma sign_order:
  assumes "distinct (map fst ps)" "distinct (map fst qs)" "set ps = set qs"
  shows "sign X c ps = sign X c qs"
proof -
  have "sort (map fst ps) = sort (map fst qs)"
    by (rule sort_perm) (use assms in \<open>simp_all add: image_set[symmetric] del: image_set\<close>)
  moreover have "map_of ps = map_of qs"
    using assms map_of_inject_set by blast
  ultimately show ?thesis by (simp add: sign_def)
qed

text \<open>What an upload URL for \<open>key\<close> is, asked for at \<open>t\<close>: the one that the signer gave for this bucket, key
  and, for S3, content type with a validity of 900 seconds; for Cloudinary the upload address with the
  SHA-1 of the key, the time and the secret.\<close>

fun signed_upload :: "'b presign_ops \<Rightarrow> Storage \<Rightarrow> gotime \<Rightarrow> string \<Rightarrow> string \<Rightarrow> string \<Rightarrow> bool" where
  "signed_upload X NoopStorage t key mime url \<longleftrightarrow> False"
| "signed_upload X (Cloudinary c) t key mime url \<longleftrightarrow>
     url = ''https://api.cloudinary.com/v1_1/'' @ cl_cloudName c @ ''/auto/upload?api_key='' @ cl_apiKey c
       @ ''&timestamp='' @ FormatInt (toUnix t) @ ''&public_id='' @ key @ ''&signature=''
       @ ps_sha1_hex X (''public_id='' @ key @ ''&timestamp='' @ FormatInt (toUnix t) @ cl_apiSecret c)"
| "signed_upload X (Minio m) t key mime url \<longleftrightarrow> ps_minio_put X (mn_bucket m) key 900000000000 = Inr url"
| "signed_upload X (S3 s) t key mime url \<longleftrightarrow> ps_s3_put X (s3s_bucket s) key mime 900000000000 = Inr url"

lemma sign_two:
  "sign X c [(''public_id'', k), (''timestamp'', v)] =
     ps_sha1_hex X (''public_id='' @ k @ ''&timestamp='' @ v @ cl_apiSecret c)"
proof -
  have "sort [''public_id'', ''timestamp''] = [''public_id'', ''timestamp'']"
    by (rule sort_key_id_if_sorted) (simp add: list_le_def list_less_def less_char_def)
  then show ?thesis by (simp add: sign_def Let_def)
qed

lemma PutPresignedURL_signed:
  assumes "PutPresignedURL X st t1 t2 key mime n = Inr (url, expiry)"
  shows "signed_upload X st t1 key mime url" "toUnixMilli expiry = toUnixMilli t2 + 900000"
  using assms by (cases st; auto simp: storage_defs sign_two Let_def toUnixMilli_def split: sum.splits)+

text \<open>A concrete backend for the witnesses of the handlers.\<close>

definition demo_presign :: "unit presign_ops" where
  "demo_presign =
     \<lparr>ps_minio_put = (\<lambda>b k n. Inr k), ps_minio_get = (\<lambda>b k n. Inr k), ps_bucket_exists = (\<lambda>b u. Inr True),
      ps_make_bucket = (\<lambda>b u. (Inr (), u)), ps_s3_put = (\<lambda>b k m n. Inr k), ps_s3_get = (\<lambda>b k n. Inr k),
      ps_sha1_hex = rev\<rparr>"

end
