(* ===== verification/Server.thy ===== *)
theory Server
  imports Hub Presence Room_Store Message_Repo Room_Repo Storage
begin

text \<open>
  \<open>app/server/grpc_server.go\<close>: the state of \<open>ChatServer\<close> and every RPC handler but the
  bidirectional stream, which is in \<open>Chat_Stream\<close>.

  A handler takes the surroundings \<open>E\<close> (the outcomes of third-party calls), the clock
  readings \<open>clk 0\<close>, \<open>clk 1\<close>, ... of the call in their order, the UUID a call generates, the
  request and the state. A goroutine that a handler starts is appended to \<open>sv_tasks\<close>;
  \<open>run_task\<close> is its body, run later with its own clock. A nil repository is \<^term>\<open>None\<close>, and every
  handler returns \<^term>\<open>None\<close> where the Go code would panic: where it follows a nil pointer, takes an
  element or a part of a slice out of its range, or broadcasts into a closed channel.
\<close>

section \<open>State\<close>

datatype 'p presence = LocalPresenceStore local_presence | RedisPresenceStore "('p, string) redis_ops" 'p

fun SetOnline :: "int \<Rightarrow> string \<Rightarrow> bool \<Rightarrow> 'p presence \<Rightarrow> 'p presence" where
  "SetOnline now u online (LocalPresenceStore d) = LocalPresenceStore (local_SetOnline now u online d)"
| "SetOnline now u online (RedisPresenceStore R r) = RedisPresenceStore R (redis_SetOnline R now u online r)"

fun presence_Get :: "'p presence \<Rightarrow> string list \<Rightarrow> PresenceInfo list" where
  "presence_Get (LocalPresenceStore d) us = local_Get d us"
| "presence_Get (RedisPresenceStore R r) us = redis_Get R r us"

text \<open>The goroutines: their captured variables. A read receipt carries its time when it was
  taken before the goroutine started.\<close>

datatype task =
    PersistMessage ServerMessage
  | ReadReceipt string string string "gotime option"
  | SaveMedia string string string string string int gotime

record ('r, 'p) ChatServer =
  sv_hub :: Hub
  sv_rooms :: "'r RoomStore"
  sv_pgRooms :: "pg_db option"
  sv_msgRepo :: "mongo_db option"
  sv_storage :: "Storage option"
  sv_presence :: "'p presence"
  sv_tasks :: "task list"

record 'b surroundings =
  e_mongo :: mongo_ops
  e_pg :: pg_fail
  e_presign :: "'b presign_ops"
  e_regex :: "string \<Rightarrow> string \<Rightarrow> string \<Rightarrow> bool" \<comment> \<open>options, pattern, text\<close>
  e_aggregate :: "messageDoc pipeline \<Rightarrow> messageDoc list \<Rightarrow> agg_row list mongo_result"
  e_decode_oid :: "nat \<Rightarrow> string option"
  e_map_order :: "string list \<Rightarrow> string list"
  e_oid :: nat

definition NewChatServer ::
  "Hub \<Rightarrow> 'r RoomStore \<Rightarrow> pg_db option \<Rightarrow> mongo_db option \<Rightarrow> Storage option \<Rightarrow> 'p presence option
   \<Rightarrow> ('r, 'p) ChatServer" where
  "NewChatServer h rs pg msg st ps =
     \<lparr>sv_hub = h, sv_rooms = rs, sv_pgRooms = pg, sv_msgRepo = msg, sv_storage = st,
      sv_presence = (case ps of None \<Rightarrow> LocalPresenceStore NewLocalPresenceStore | Some p \<Rightarrow> p),
      sv_tasks = []\<rparr>"

type_synonym clock = "nat \<Rightarrow> gotime"

definition hub_Broadcast :: "ServerMessage \<Rightarrow> bool \<Rightarrow> ('r, 'p) ChatServer \<Rightarrow> ('r, 'p) ChatServer option" where
  "hub_Broadcast msg publish s = map_option (\<lambda>h. s\<lparr>sv_hub := h\<rparr>) (Broadcast msg publish (sv_hub s))"

definition spawn :: "task \<Rightarrow> ('r, 'p) ChatServer \<Rightarrow> ('r, 'p) ChatServer" where
  "spawn t s = s\<lparr>sv_tasks := sv_tasks s @ [t]\<rparr>"

section \<open>Incoming frames\<close>

definition toServerMsg :: "gotime \<Rightarrow> ClientMessage \<Rightarrow> ServerMessage" where
  "toServerMsg now m =
     ServerMessage_zero
       \<lparr>sm_RoomId := normalizeRoomID (cm_RoomId m), sm_UserId := cm_UserId m,
        sm_MessageId := cm_MessageId m, sm_Text := cm_Text m, sm_SentAtUnixMs := cm_SentAtUnixMs m,
        sm_DeliveredAtUnixMs := toUnixMilli now, sm_Type := cm_Type m, sm_MediaKey := cm_MediaKey m,
        sm_MediaName := cm_MediaName m, sm_MediaSizeBytes := cm_MediaSizeBytes m,
        sm_MediaMimeType := cm_MediaMimeType m, sm_EventType := EVENT_TYPE_MESSAGE,
        sm_ReplyToMessageId := cm_ReplyToMessageId m\<rparr>"

definition persistMessage :: "ServerMessage \<Rightarrow> ('r, 'p) ChatServer \<Rightarrow> ('r, 'p) ChatServer" where
  "persistMessage msg s =
     (if sv_msgRepo s = None \<and> sv_pgRooms s = None then s else spawn (PersistMessage msg) s)"

definition incoming_delete ::
  "'b surroundings \<Rightarrow> string \<Rightarrow> ClientMessage \<Rightarrow> ('r, 'p) ChatServer \<Rightarrow> ('r, 'p) ChatServer option" where
  "incoming_delete E roomID inp s =
     (if cm_MessageId inp = [] then Some s
      else if sv_msgRepo s = None then Some s
      else deref (sv_msgRepo s) (\<lambda>db.
               (case SoftDeleteMessageByOwner (e_mongo E) (cm_MessageId inp) (cm_UserId inp) db of
                  (res, db') \<Rightarrow>
                    (let s' = s\<lparr>sv_msgRepo := Some db'\<rparr>
                     in case res of
                          Inl _ \<Rightarrow> Some s'
                        | Inr False \<Rightarrow> Some s'
                        | Inr True \<Rightarrow>
                            hub_Broadcast (ServerMessage_zero\<lparr>sm_RoomId := roomID, sm_UserId := cm_UserId inp,
                              sm_MessageId := cm_MessageId inp, sm_EventType := EVENT_TYPE_DELETE,
                              sm_IsDeleted := True\<rparr>) True s'))))"

definition incoming_edit ::
  "'b surroundings \<Rightarrow> clock \<Rightarrow> string \<Rightarrow> ClientMessage \<Rightarrow> ('r, 'p) ChatServer \<Rightarrow> ('r, 'p) ChatServer option" where
  "incoming_edit E clk roomID inp s =
     (if cm_MessageId inp \<noteq> [] \<and> TrimSpace (cm_Text inp) \<noteq> [] then
        (let announce = (\<lambda>editedAt. hub_Broadcast
               (ServerMessage_zero\<lparr>sm_RoomId := roomID, sm_UserId := cm_UserId inp,
                  sm_MessageId := cm_MessageId inp, sm_Text := TrimSpace (cm_Text inp),
                  sm_EventType := EVENT_TYPE_EDIT, sm_EditedAtUnixMs := editedAt\<rparr>) True)
         in if sv_msgRepo s = None then announce (toUnixMilli (clk 0)) s
            else deref (sv_msgRepo s) (\<lambda>db.
                (case EditMessage (e_mongo E) (clk 1) (cm_MessageId inp) (cm_UserId inp)
                        (TrimSpace (cm_Text inp)) db of
                   (Inl _, db') \<Rightarrow> Some (s\<lparr>sv_msgRepo := Some db'\<rparr>)
                 | (Inr at, db') \<Rightarrow> announce at (s\<lparr>sv_msgRepo := Some db'\<rparr>))))
      else Some s)"

definition processIncoming ::
  "'b surroundings \<Rightarrow> clock \<Rightarrow> ClientMessage \<Rightarrow> ('r, 'p) ChatServer \<Rightarrow> ('r, 'p) ChatServer option" where
  "processIncoming E clk inp s =
     (let roomID = normalizeRoomID (cm_RoomId inp); ev = cm_EventType inp
      in if ev = EVENT_TYPE_TYPING_START \<or> ev = EVENT_TYPE_TYPING_STOP then
           hub_Broadcast (ServerMessage_zero\<lparr>sm_RoomId := roomID, sm_UserId := cm_UserId inp,
             sm_EventType := ev\<rparr>) False s
         else if ev = EVENT_TYPE_READ_RECEIPT then
           (if cm_MessageId inp \<noteq> [] then
              hub_Broadcast (ServerMessage_zero\<lparr>sm_RoomId := roomID, sm_UserId := cm_UserId inp,
                  sm_MessageId := cm_MessageId inp, sm_EventType := EVENT_TYPE_READ_RECEIPT,
                  sm_Status := MESSAGE_STATUS_READ\<rparr>) False
                (spawn (ReadReceipt roomID (cm_UserId inp) (cm_MessageId inp) (Some (clk 0))) s)
            else Some s)
         else if ev = EVENT_TYPE_REACTION then
           (if cm_MessageId inp \<noteq> [] \<and> cm_ReactionEmoji inp \<noteq> [] then
              hub_Broadcast (ServerMessage_zero\<lparr>sm_RoomId := roomID, sm_UserId := cm_UserId inp,
                sm_MessageId := cm_MessageId inp, sm_EventType := EVENT_TYPE_REACTION,
                sm_ReactionEmoji := cm_ReactionEmoji inp\<rparr>) True s
            else Some s)
         else if ev = EVENT_TYPE_DELETE then incoming_delete E roomID inp s
         else if ev = EVENT_TYPE_EDIT then incoming_edit E clk roomID inp s
         else if cm_Text inp = [] \<and> cm_MediaKey inp = [] then Some s
         else let sm = (toServerMsg (clk 0) inp)\<lparr>sm_Status := MESSAGE_STATUS_SENT\<rparr>
              in map_option (persistMessage sm) (hub_Broadcast sm True s))"

section \<open>Goroutine bodies\<close>

definition mongo_do ::
  "(mongo_db \<Rightarrow> 'a go_result \<times> mongo_db) \<Rightarrow> ('r, 'p) ChatServer \<Rightarrow> ('r, 'p) ChatServer" where
  "mongo_do f s = s\<lparr>sv_msgRepo := map_option (\<lambda>db. snd (f db)) (sv_msgRepo s)\<rparr>"

definition pg_do ::
  "(pg_db \<Rightarrow> 'a go_result \<times> pg_db) \<Rightarrow> ('r, 'p) ChatServer \<Rightarrow> ('r, 'p) ChatServer" where
  "pg_do f s = s\<lparr>sv_pgRooms := map_option (\<lambda>db. snd (f db)) (sv_pgRooms s)\<rparr>"

definition preview_of :: "ServerMessage \<Rightarrow> string" where
  "preview_of msg =
     (let preview = (if sm_Text msg = [] \<and> sm_MediaName msg \<noteq> [] then clip @ sm_MediaName msg
                     else sm_Text msg)
      in if length preview > 120 then take 120 preview else preview)"

definition run_persist ::
  "'b surroundings \<Rightarrow> clock \<Rightarrow> string \<Rightarrow> ServerMessage \<Rightarrow> ('r, 'p) ChatServer \<Rightarrow> ('r, 'p) ChatServer" where
  "run_persist E clk uuid msg s =
     (let s1 = mongo_do (SaveMessage (e_mongo E) uuid (clk 0) msg) s
      in if sv_pgRooms s1 = None then s1
         else let at = fromUnixMilli (sm_SentAtUnixMs msg);
                  s2 = pg_do (UpdateLastActivity (e_pg E) (sm_RoomId msg) (sm_MessageId msg)
                         (sm_UserId msg) (preview_of msg) at) s1
              in if sm_UserId msg = [] then s2
                 else let at' = (if IsZero at then clk 1 else at);
                          s3 = pg_do (UpdateReadReceipt_pg (e_pg E) (sm_RoomId msg) (sm_UserId msg)
                                 (sm_MessageId msg) at') s2
                      in mongo_do (UpdateReadReceipt (e_mongo E) (sm_RoomId msg) (sm_UserId msg)
                           (sm_MessageId msg) at') s3)"

fun run_task ::
  "'b surroundings \<Rightarrow> clock \<Rightarrow> string \<Rightarrow> task \<Rightarrow> ('r, 'p) ChatServer \<Rightarrow> ('r, 'p) ChatServer" where
  "run_task E clk uuid (PersistMessage msg) s = run_persist E clk uuid msg s"
| "run_task E clk uuid (ReadReceipt room user msgID taken) s =
     (let now = (case taken of None \<Rightarrow> clk 0 | Some t \<Rightarrow> t)
      in pg_do (UpdateReadReceipt_pg (e_pg E) room user msgID now)
           (mongo_do (UpdateReadReceipt (e_mongo E) room user msgID now) s))"
| "run_task E clk uuid (SaveMedia key user room file mime sz expiry) s =
     mongo_do (SaveMediaUpload (e_mongo E) (clk 0) key user room file mime sz expiry) s"

section \<open>History and presence\<close>

definition page_limit :: "int \<Rightarrow> int" where
  "page_limit n = (if n \<le> 0 \<or> n > 200 then 50 else n)"

definition GetMessages ::
  "'b surroundings \<Rightarrow> GetMessagesRequest \<Rightarrow> ('r, 'p) ChatServer
   \<Rightarrow> (GetMessagesResponse rpc_result \<times> ('r, 'p) ChatServer) option" where
  "GetMessages E req s =
     (let roomID = normalizeRoomID (gmr_RoomId req)
      in if roomID = [] then Some (rpc_err InvalidArgument ''room_id is required'', s)
         else if sv_msgRepo s = None then Some (Inr \<lparr>gmr_Messages = [], gmr_HasMore = False\<rparr>, s)
         else deref (sv_msgRepo s) (\<lambda>db.
           (let limit = page_limit (gmr_Limit req)
            in case GetMessagesBefore (e_mongo E) roomID (gmr_BeforeUnixMs req) (limit + 1) db of
                 Inl e \<Rightarrow> Some (rpc_err Internal (''get messages: '' @ e), s)
               | Inr msgs0 \<Rightarrow>
                   (let msgs1 = map (\<lambda>m. m\<lparr>sm_RoomId := roomID\<rparr>) msgs0;
                        hasMore = (int (length msgs1) > limit)
                    in Option.bind (if hasMore then slice_to msgs1 limit else Some msgs1) (\<lambda>msgs.
                         map_option (\<lambda>s'. (Inr \<lparr>gmr_Messages = msgs, gmr_HasMore = hasMore\<rparr>, s'))
                           (if gmr_UserId req \<noteq> [] \<and> length msgs > 0
                            then map_option (\<lambda>newest. spawn (ReadReceipt roomID (gmr_UserId req)
                                   (sm_MessageId newest) None) s) (index_at msgs 0)
                            else Some s))))))"

definition GetPresence ::
  "string list \<Rightarrow> ('r, 'p) ChatServer \<Rightarrow> PresenceInfo list rpc_result option" where
  "GetPresence userIds s =
     (if length userIds = 0 then Some (rpc_err InvalidArgument ''user_ids is required'')
      else Some (Inr (presence_Get (sv_presence s) userIds)))"

section \<open>Rooms\<close>

text \<open>\<open>CreateRoom\<close> for a direct message, in its three parts: the room of Postgres when there is one
  (its id and name, or the error that ends the call), the conversation of the message store, and
  the fallback store when neither gave an id.\<close>

definition dm_pg ::
  "'b surroundings \<Rightarrow> clock \<Rightarrow> string \<Rightarrow> string \<Rightarrow> string \<Rightarrow> ('r, 'p) ChatServer
   \<Rightarrow> ((string \<times> string) go_result \<times> ('r, 'p) ChatServer) option" where
  "dm_pg E clk userA userB by s =
     (if sv_pgRooms s = None then Some (Inr ([], []), s)
      else deref (sv_pgRooms s) (\<lambda>db.
        (case GetOrCreateDM (e_pg E) (clk 0) userA userB by db of
           (Inl e, db') \<Rightarrow> Some (Inl e, s\<lparr>sv_pgRooms := Some db'\<rparr>)
         | (Inr m, db') \<Rightarrow> Some (Inr (pgm_RoomID m, pgm_Name m), s\<lparr>sv_pgRooms := Some db'\<rparr>))))"

definition dm_mongo ::
  "'b surroundings \<Rightarrow> clock \<Rightarrow> string \<Rightarrow> string \<Rightarrow> string \<Rightarrow> string \<Rightarrow> ('r, 'p) ChatServer
   \<Rightarrow> (string \<times> ('r, 'p) ChatServer) option" where
  "dm_mongo E clk userA userB by roomID s =
     (if sv_msgRepo s = None then Some (roomID, s)
      else deref (sv_msgRepo s) (\<lambda>db.
        (case CreateOrGetDirectConversation (e_mongo E) (clk 1) userA userB by db of
           (Inl _, db') \<Rightarrow> Some (roomID, s\<lparr>sv_msgRepo := Some db'\<rparr>)
         | (Inr c, db') \<Rightarrow>
             Some (if roomID = [] then cd_ConversationId c else roomID, s\<lparr>sv_msgRepo := Some db'\<rparr>))))"

definition create_dm ::
  "'b surroundings \<Rightarrow> clock \<Rightarrow> CreateRoomRequest \<Rightarrow> ('r, 'p) ChatServer
   \<Rightarrow> (CreateRoomResponse rpc_result \<times> ('r, 'p) ChatServer) option" where
  "create_dm E clk req s =
     (if length (crr_MemberIds req) \<noteq> 2
      then Some (rpc_err InvalidArgument ''DM requires exactly 2 member_ids'', s)
      else Option.bind (index_at (crr_MemberIds req) 0) (\<lambda>userA.
        Option.bind (index_at (crr_MemberIds req) 1) (\<lambda>userB.
          Option.bind (dm_pg E clk userA userB (crr_CreatedBy req) s) (\<lambda>(pgres, s1).
            (case pgres of
               Inl e \<Rightarrow> Some (rpc_err Internal (''create DM (pg): '' @ e), s1)
             | Inr (roomID0, name) \<Rightarrow>
                 Option.bind (dm_mongo E clk userA userB (crr_CreatedBy req) roomID0 s1) (\<lambda>(roomID, s2).
                   if roomID = []
                   then (case RoomStore_CreateDM (clk 2) userA userB (crr_CreatedBy req) (sv_rooms s2) of
                           (Inl e, rs) \<Rightarrow>
                             Some (rpc_err Internal (''create DM: '' @ e), s2\<lparr>sv_rooms := rs\<rparr>)
                         | (Inr m, rs) \<Rightarrow>
                             Some (Inr \<lparr>crr_RoomId = rm_RoomID m, crr_RoomName = rm_Name m\<rparr>,
                                   s2\<lparr>sv_rooms := rs\<rparr>))
                   else Some (Inr \<lparr>crr_RoomId = roomID, crr_RoomName = name\<rparr>, s2)))))))"

text \<open>The group branch: the message store, whose failure is passed over; then Postgres; then the fallback
  store.\<close>

definition group_mongo ::
  "'b surroundings \<Rightarrow> clock \<Rightarrow> CreateRoomRequest \<Rightarrow> ('r, 'p) ChatServer
   \<Rightarrow> (ConversationDetail option \<times> ('r, 'p) ChatServer) option" where
  "group_mongo E clk req s =
     (if sv_msgRepo s = None then Some (None, s)
      else deref (sv_msgRepo s) (\<lambda>db.
        (case CreateGroupConversation (e_mongo E) (e_map_order E) (clk 0) (clk 1)
                (crr_Name req) [] [] (crr_CreatedBy req) (crr_MemberIds req) db of
           (Inl _, db') \<Rightarrow> Some (None, s\<lparr>sv_msgRepo := Some db'\<rparr>)
         | (Inr c, db') \<Rightarrow> Some (Some c, s\<lparr>sv_msgRepo := Some db'\<rparr>))))"

definition group_fallback ::
  "'b surroundings \<Rightarrow> clock \<Rightarrow> string \<Rightarrow> CreateRoomRequest \<Rightarrow> ('r, 'p) ChatServer
   \<Rightarrow> (CreateRoomResponse rpc_result \<times> ('r, 'p) ChatServer) option" where
  "group_fallback E clk uuid req s =
     (if sv_pgRooms s = None then
        (case RoomStore_CreateGroup uuid (clk 2) (crr_Name req) (crr_CreatedBy req)
                (crr_MemberIds req) (sv_rooms s) of
           (Inl e, rs) \<Rightarrow> Some (rpc_err Internal (''create group: '' @ e), s\<lparr>sv_rooms := rs\<rparr>)
         | (Inr m, rs) \<Rightarrow>
             Some (Inr \<lparr>crr_RoomId = rm_RoomID m, crr_RoomName = rm_Name m\<rparr>, s\<lparr>sv_rooms := rs\<rparr>))
      else deref (sv_pgRooms s) (\<lambda>db.
        (case CreateGroup_pg (e_pg E) (clk 2) (''group:'' @ uuid) (crr_Name req)
                (crr_CreatedBy req) (crr_MemberIds req) db of
           (Inl e, db') \<Rightarrow>
             Some (rpc_err Internal (''create group (pg): '' @ e), s\<lparr>sv_pgRooms := Some db'\<rparr>)
         | (Inr m, db') \<Rightarrow>
             Some (Inr \<lparr>crr_RoomId = pgm_RoomID m, crr_RoomName = pgm_Name m\<rparr>,
                   s\<lparr>sv_pgRooms := Some db'\<rparr>))))"

definition create_group ::
  "'b surroundings \<Rightarrow> clock \<Rightarrow> string \<Rightarrow> CreateRoomRequest \<Rightarrow> ('r, 'p) ChatServer
   \<Rightarrow> (CreateRoomResponse rpc_result \<times> ('r, 'p) ChatServer) option" where
  "create_group E clk uuid req s =
     (if crr_Name req = [] then Some (rpc_err InvalidArgument ''name is required for a group room'', s)
      else Option.bind (group_mongo E clk req s) (\<lambda>(conv, s1).
        (case conv of
           Some c \<Rightarrow> Some (Inr \<lparr>crr_RoomId = cd_ConversationId c, crr_RoomName = cd_GroupName c\<rparr>, s1)
         | None \<Rightarrow> group_fallback E clk uuid req s1)))"

definition CreateRoom ::
  "'b surroundings \<Rightarrow> clock \<Rightarrow> string \<Rightarrow> CreateRoomRequest \<Rightarrow> ('r, 'p) ChatServer
   \<Rightarrow> (CreateRoomResponse rpc_result \<times> ('r, 'p) ChatServer) option" where
  "CreateRoom E clk uuid req s =
     (if crr_CreatedBy req = [] then Some (rpc_err InvalidArgument ''created_by is required'', s)
      else if crr_Type req = ROOM_TYPE_DM then create_dm E clk req s
      else if crr_Type req = ROOM_TYPE_GROUP then create_group E clk uuid req s
      else Some (rpc_err InvalidArgument ''unknown room type'', s))"

section \<open>Media\<close>

definition maxFileBytes :: int where
  "maxFileBytes = 100 * 1024 * 1024"

definition media_key :: "gotime \<Rightarrow> UploadRequest \<Rightarrow> string" where
  "media_key now req =
     ReplaceAll (CHR '':'') (CHR ''_'')
       (''rooms/'' @ ur_RoomId req @ ''/'' @ ur_UserId req @ ''/'' @ FormatInt (toUnixMilli now)
        @ ''/'' @ ur_FileName req)"

definition RequestUpload ::
  "'b surroundings \<Rightarrow> clock \<Rightarrow> UploadRequest \<Rightarrow> ('r, 'p) ChatServer
   \<Rightarrow> (UploadResponse rpc_result \<times> ('r, 'p) ChatServer) option" where
  "RequestUpload E clk req s =
     (if sv_storage s = None
      then Some (rpc_err Unimplemented ''object storage is not configured on this server'', s)
      else if ur_UserId req = [] \<or> ur_RoomId req = [] \<or> ur_FileName req = []
      then Some (rpc_err InvalidArgument ''user_id, room_id, and file_name are required'', s)
      else if ur_FileSizeBytes req > maxFileBytes
      then Some (rpc_err InvalidArgument
              (''file too large: max '' @ FormatInt (maxFileBytes div 1024 div 1024) @ '' MB''), s)
      else deref (sv_storage s) (\<lambda>st.
        (let key = media_key (clk 0) req
         in case PutPresignedURL (e_presign E) st (clk 1) (clk 2) key (ur_MimeType req)
                   (ur_FileSizeBytes req) of
              Inl e \<Rightarrow> Some (rpc_err Internal (''generate upload URL: '' @ e), s)
            | Inr (uploadURL, expiresAt) \<Rightarrow>
                Some (Inr \<lparr>ur_MediaKey = key, ur_UploadUrl = uploadURL,
                           ur_ExpiresAtUnixMs = toUnixMilli expiresAt\<rparr>,
                      if sv_msgRepo s = None then s
                      else spawn (SaveMedia key (ur_UserId req) (ur_RoomId req) (ur_FileName req)
                             (ur_MimeType req) (ur_FileSizeBytes req) expiresAt) s))))"

definition GetDownloadUrl ::
  "'b surroundings \<Rightarrow> clock \<Rightarrow> string \<Rightarrow> ('r, 'p) ChatServer \<Rightarrow> GetDownloadUrlResponse rpc_result option" where
  "GetDownloadUrl E clk mediaKey s =
     (if sv_storage s = None
      then Some (rpc_err Unimplemented ''object storage is not configured on this server'')
      else if mediaKey = [] then Some (rpc_err InvalidArgument ''media_key is required'')
      else deref (sv_storage s) (\<lambda>st.
        (case GetPresignedURL (e_presign E) st (clk 0) mediaKey of
           Inl e \<Rightarrow> Some (rpc_err Internal (''generate download URL: '' @ e))
         | Inr (u, expiresAt) \<Rightarrow> Some (Inr \<lparr>du_Url = u, du_ExpiresAtUnixMs = toUnixMilli expiresAt\<rparr>))))"

section \<open>The room list\<close>

text \<open>The map \<open>byID\<close> and the slice \<open>order\<close>; an entry is updated in place.\<close>

type_synonym room_acc = "string list \<times> (string \<rightharpoonup> UserRoom)"

definition merge_room :: "UserRoom \<Rightarrow> UserRoom \<Rightarrow> UserRoom" where
  "merge_room existing r =
     (let e1 = (if ur_LastMessageAt r > ur_LastMessageAt existing
                then existing\<lparr>ur_LastMessage := ur_LastMessage r, ur_LastMessageAt := ur_LastMessageAt r\<rparr>
                else existing);
          e2 = (if ur_Name e1 = [] \<and> ur_Name r \<noteq> [] then e1\<lparr>ur_Name := ur_Name r\<rparr> else e1);
          e3 = (if length (ur_MemberIds e2) = 0 \<and> length (ur_MemberIds r) > 0
                then e2\<lparr>ur_MemberIds := ur_MemberIds r\<rparr> else e2)
      in if ur_HasUnread r then e3\<lparr>ur_HasUnread := True\<rparr> else e3)"

definition addRoom :: "UserRoom \<Rightarrow> room_acc \<Rightarrow> room_acc" where
  "addRoom r0 acc =
     (case acc of (order, byID) \<Rightarrow>
        if ur_RoomID r0 = [] then acc
        else let r = r0\<lparr>ur_RoomID := normalizeRoomID (ur_RoomID r0)\<rparr>
             in case byID (ur_RoomID r) of
                  Some existing \<Rightarrow> (order, byID(ur_RoomID r \<mapsto> merge_room existing r))
                | None \<Rightarrow> (order @ [ur_RoomID r], byID(ur_RoomID r \<mapsto> r)))"

definition pg_user_room :: "PgUserRoom \<Rightarrow> UserRoom" where
  "pg_user_room r =
     \<lparr>ur_RoomID = pgu_RoomID r,
      ur_RoomType = (if pgu_RoomType r = 1 then ROOM_TYPE_GROUP else ROOM_TYPE_DM),
      ur_Name = pgu_Name r, ur_LastMessage = pgu_LastMessage r, ur_LastMessageAt = pgu_LastMessageAt r,
      ur_HasUnread = pgu_HasUnread r, ur_MemberIds = pgu_MemberIDs r\<rparr>"

definition mongo_user_room :: "UserRoomSummary \<Rightarrow> UserRoom option" where
  "mongo_user_room r =
     (let rid = normalizeRoomID (us_RoomID r)
      in map_option (\<lambda>isGroup.
           \<lparr>ur_RoomID = rid, ur_RoomType = (if isGroup then ROOM_TYPE_GROUP else ROOM_TYPE_DM),
            ur_Name = [], ur_LastMessage = us_LastMessage r,
            ur_LastMessageAt = toUnixMilli (us_LastMessageAt r), ur_HasUnread = False,
            ur_MemberIds = us_MemberIDs r\<rparr>)
           (if HasPrefix rid ''group:'' then Some True
            else if length (us_RoomID r) > 6 then map_option (\<lambda>p. p = ''group:'') (slice_to (us_RoomID r) 6)
            else Some False))"

text \<open>What the two stores contribute; a store that answers with an error contributes nothing.\<close>

definition user_rooms_pg :: "'b surroundings \<Rightarrow> string \<Rightarrow> ('r, 'p) ChatServer \<Rightarrow> UserRoom list option" where
  "user_rooms_pg E userID s =
     (if sv_pgRooms s = None then Some []
      else deref (sv_pgRooms s) (\<lambda>db.
        (case GetUserRoomsDetailed (e_pg E) userID db of
           Inl _ \<Rightarrow> Some [] | Inr rs \<Rightarrow> Some (map pg_user_room rs))))"

definition user_rooms_mongo :: "'b surroundings \<Rightarrow> string \<Rightarrow> ('r, 'p) ChatServer \<Rightarrow> UserRoom list option" where
  "user_rooms_mongo E userID s =
     (if sv_msgRepo s = None then Some []
      else deref (sv_msgRepo s) (\<lambda>db.
        (case GetUserRooms_repo (e_mongo E) (e_aggregate E) (e_regex E []) (e_map_order E) userID db of
           Inl _ \<Rightarrow> Some [] | Inr rs \<Rightarrow> those (map mongo_user_room rs))))"

definition GetUserRooms ::
  "'b surroundings \<Rightarrow> string \<Rightarrow> ('r, 'p) ChatServer \<Rightarrow> UserRoom list rpc_result option" where
  "GetUserRooms E userID s =
     (if userID = [] then Some (rpc_err InvalidArgument ''user_id is required'')
      else Option.bind (user_rooms_pg E userID s) (\<lambda>pg.
        Option.bind (user_rooms_mongo E userID s) (\<lambda>mg.
          (let (order, byID) = fold addRoom (pg @ mg) ([], Map.empty)
           in Some (Inr (List.map_filter byID order))))))"

end
