(* ===== verification/Server_Rpc.thy ===== *)
theory Server_Rpc
  imports Server
begin

text \<open>
  The conversation, message and group RPCs of \<open>app/server/grpc_server.go\<close> (from
  \<open>GetConversation\<close> on). Success flags of the response messages are the result value.
\<close>

section \<open>Conversations and messages\<close>

definition GetConversation_rpc ::
  "'b surroundings \<Rightarrow> string \<Rightarrow> ('r, 'p) ChatServer \<Rightarrow> (ConversationDetail \<times> GroupMember list) rpc_result option" where
  "GetConversation_rpc E convID s =
     (if convID = [] then Some (rpc_err InvalidArgument ''conversation_id is required'')
      else if sv_msgRepo s = None then Some (rpc_err Unimplemented ''message repo not configured'')
      else deref (sv_msgRepo s) (\<lambda>db.
        (case GetConversation (e_mongo E) (e_decode_oid E) convID db of
           Inl e \<Rightarrow> Some (rpc_err NotFound (''conversation not found: '' @ e))
         | Inr cm \<Rightarrow> Some (Inr cm))))"

definition sent_message :: "string \<Rightarrow> gotime \<Rightarrow> SendMessageRequest \<Rightarrow> ServerMessage" where
  "sent_message msgID now req =
     ServerMessage_zero
       \<lparr>sm_RoomId := normalizeRoomID (smr_ConversationId req), sm_UserId := smr_SenderId req,
        sm_MessageId := msgID, sm_Text := smr_Content req, sm_SentAtUnixMs := toUnixMilli now,
        sm_DeliveredAtUnixMs := toUnixMilli now, sm_Type := smr_MessageType req,
        sm_MediaKey := smr_MediaKey req, sm_MediaName := smr_MediaName req,
        sm_MediaSizeBytes := smr_MediaSizeBytes req, sm_MediaMimeType := smr_MediaMimeType req,
        sm_ReplyToMessageId := smr_ReplyToMessageId req, sm_EventType := EVENT_TYPE_MESSAGE,
        sm_Status := MESSAGE_STATUS_SENT\<rparr>"

definition SendMessage ::
  "clock \<Rightarrow> string \<Rightarrow> SendMessageRequest \<Rightarrow> ('r, 'p) ChatServer
   \<Rightarrow> (ServerMessage rpc_result \<times> ('r, 'p) ChatServer) option" where
  "SendMessage clk uuid req s =
     (let convID = normalizeRoomID (smr_ConversationId req)
      in if convID = [] \<or> smr_SenderId req = []
         then Some (rpc_err InvalidArgument ''conversation_id and sender_id are required'', s)
         else let sm = sent_message uuid (clk 0) req
              in map_option (\<lambda>s'. (Inr sm, persistMessage sm s')) (hub_Broadcast sm True s))"

definition SearchMessages_rpc ::
  "'b surroundings \<Rightarrow> string \<Rightarrow> string \<Rightarrow> int \<Rightarrow> ('r, 'p) ChatServer \<Rightarrow> ServerMessage list rpc_result option" where
  "SearchMessages_rpc E convID query limit s =
     (if convID = [] \<or> query = []
      then Some (rpc_err InvalidArgument ''conversation_id and query are required'')
      else if sv_msgRepo s = None then Some (Inr [])
      else deref (sv_msgRepo s) (\<lambda>db.
        (case SearchMessages (e_mongo E) (e_regex E ''i'') convID query limit db of
           Inl e \<Rightarrow> Some (rpc_err Internal (''search messages: '' @ e))
         | Inr msgs \<Rightarrow> Some (Inr msgs))))"

definition DeleteMessage ::
  "'b surroundings \<Rightarrow> DeleteMessageRequest \<Rightarrow> ('r, 'p) ChatServer
   \<Rightarrow> (bool rpc_result \<times> ('r, 'p) ChatServer) option" where
  "DeleteMessage E req s =
     (if dmr_MessageId req = [] \<or> dmr_UserId req = []
      then Some (rpc_err InvalidArgument ''message_id and user_id are required'', s)
      else if sv_msgRepo s = None then Some (rpc_err Unimplemented ''message repo not configured'', s)
      else deref (sv_msgRepo s) (\<lambda>db.
               (case SoftDeleteMessageByOwner (e_mongo E) (dmr_MessageId req) (dmr_UserId req) db of
                  (Inl e, db') \<Rightarrow> Some (rpc_err Internal (''delete message: '' @ e), s\<lparr>sv_msgRepo := Some db'\<rparr>)
                | (Inr deleted, db') \<Rightarrow>
                    (let s' = s\<lparr>sv_msgRepo := Some db'\<rparr>; convID = normalizeRoomID (dmr_ConversationId req)
                     in if deleted \<and> convID \<noteq> []
                        then map_option (\<lambda>s''. (Inr deleted, s''))
                               (hub_Broadcast (ServerMessage_zero\<lparr>sm_RoomId := convID,
                                  sm_UserId := dmr_UserId req, sm_MessageId := dmr_MessageId req,
                                  sm_EventType := EVENT_TYPE_DELETE, sm_IsDeleted := True\<rparr>) True s')
                        else Some (Inr deleted, s')))))"

definition EditMessage_rpc ::
  "'b surroundings \<Rightarrow> clock \<Rightarrow> EditMessageRequest \<Rightarrow> ('r, 'p) ChatServer
   \<Rightarrow> (ServerMessage rpc_result \<times> ('r, 'p) ChatServer) option" where
  "EditMessage_rpc E clk req s =
     (if emr_MessageId req = [] \<or> emr_UserId req = [] \<or> emr_NewContent req = []
      then Some (rpc_err InvalidArgument ''message_id, user_id, and new_content are required'', s)
      else if sv_msgRepo s = None then Some (rpc_err Unimplemented ''message repo not configured'', s)
      else deref (sv_msgRepo s) (\<lambda>db.
               (case EditMessage (e_mongo E) (clk 0) (emr_MessageId req) (emr_UserId req) (emr_NewContent req) db of
                  (Inl e, db') \<Rightarrow> Some (rpc_err Internal (''edit message: '' @ e), s\<lparr>sv_msgRepo := Some db'\<rparr>)
                | (Inr editedAt, db') \<Rightarrow>
                    (let s' = s\<lparr>sv_msgRepo := Some db'\<rparr>; convID = normalizeRoomID (emr_ConversationId req);
                         sm = ServerMessage_zero\<lparr>sm_RoomId := convID, sm_UserId := emr_UserId req,
                                sm_MessageId := emr_MessageId req, sm_Text := emr_NewContent req,
                                sm_EventType := EVENT_TYPE_EDIT, sm_EditedAtUnixMs := editedAt\<rparr>
                     in if convID \<noteq> [] then map_option (\<lambda>s''. (Inr sm, s'')) (hub_Broadcast sm True s')
                        else Some (Inr sm, s')))))"

definition MarkMessageRead_rpc ::
  "'b surroundings \<Rightarrow> clock \<Rightarrow> string \<Rightarrow> string \<Rightarrow> string \<Rightarrow> ('r, 'p) ChatServer
   \<Rightarrow> (bool rpc_result \<times> ('r, 'p) ChatServer) option" where
  "MarkMessageRead_rpc E clk convID userID msgID s =
     (if convID = [] \<or> userID = []
      then Some (rpc_err InvalidArgument ''conversation_id and user_id are required'', s)
      else if sv_msgRepo s = None then Some (Inr True, s)
      else deref (sv_msgRepo s) (\<lambda>db.
        Some (Inr True, s\<lparr>sv_msgRepo := Some (snd (MarkMessageRead (e_mongo E) (clk 0) convID userID msgID db))\<rparr>)))"

definition GetUnreadCount_rpc ::
  "'b surroundings \<Rightarrow> string \<Rightarrow> string \<Rightarrow> ('r, 'p) ChatServer \<Rightarrow> int rpc_result option" where
  "GetUnreadCount_rpc E userID convID s =
     (if userID = [] then Some (rpc_err InvalidArgument ''user_id is required'')
      else if sv_msgRepo s = None then Some (Inr 0)
      else deref (sv_msgRepo s) (\<lambda>db.
        (case GetUnreadCount (e_mongo E) userID convID db of
           Inl e \<Rightarrow> Some (rpc_err Internal (''get unread count: '' @ e))
         | Inr n \<Rightarrow> Some (Inr n))))"

section \<open>Groups\<close>

text \<open>The common tail of the group handlers: the nil check, the repository call, the wrapped
  error.\<close>

definition repo_call ::
  "string \<Rightarrow> (mongo_db \<Rightarrow> 'a go_result \<times> mongo_db) \<Rightarrow> ('r, 'p) ChatServer
   \<Rightarrow> ('a rpc_result \<times> ('r, 'p) ChatServer) option" where
  "repo_call what f s =
     (if sv_msgRepo s = None then Some (rpc_err Unimplemented ''message repo not configured'', s)
      else deref (sv_msgRepo s) (\<lambda>db.
        (case f db of
           (Inl e, db') \<Rightarrow> Some (rpc_err Internal (what @ '': '' @ e), s\<lparr>sv_msgRepo := Some db'\<rparr>)
         | (Inr x, db') \<Rightarrow> Some (Inr x, s\<lparr>sv_msgRepo := Some db'\<rparr>))))"

definition CreateGroup ::
  "'b surroundings \<Rightarrow> clock \<Rightarrow> CreateGroupRequest \<Rightarrow> ('r, 'p) ChatServer
   \<Rightarrow> (ConversationDetail rpc_result \<times> ('r, 'p) ChatServer) option" where
  "CreateGroup E clk req s =
     (if cgr_GroupName req = [] \<or> cgr_CreatedBy req = []
      then Some (rpc_err InvalidArgument ''group_name and created_by are required'', s)
      else repo_call ''create group''
             (CreateGroupConversation (e_mongo E) (e_map_order E) (clk 0) (clk 1) (cgr_GroupName req)
                (cgr_GroupPhoto req) (cgr_Description req) (cgr_CreatedBy req) (cgr_MemberIds req)) s)"

definition AddGroupMember_rpc ::
  "'b surroundings \<Rightarrow> clock \<Rightarrow> AddGroupMemberRequest \<Rightarrow> ('r, 'p) ChatServer
   \<Rightarrow> (unit rpc_result \<times> ('r, 'p) ChatServer) option" where
  "AddGroupMember_rpc E clk req s =
     (if agm_ConversationId req = [] \<or> agm_UserId req = []
      then Some (rpc_err InvalidArgument ''conversation_id and user_id are required'', s)
      else repo_call ''add group member''
             (AddGroupMember (e_mongo E) (e_oid E) (clk 0) (agm_ConversationId req) (agm_UserId req)
                (agm_OperatorId req) (agm_Role req)) s)"

definition RemoveGroupMember_rpc ::
  "'b surroundings \<Rightarrow> string \<Rightarrow> string \<Rightarrow> string \<Rightarrow> ('r, 'p) ChatServer \<Rightarrow> (unit rpc_result \<times> ('r, 'p) ChatServer) option" where
  "RemoveGroupMember_rpc E convID userID operatorID s =
     (if convID = [] \<or> userID = [] then Some (rpc_err InvalidArgument ''conversation_id and user_id are required'', s)
      else repo_call ''remove group member'' (RemoveGroupMember (e_mongo E) convID userID operatorID) s)"

definition LeaveGroup_rpc ::
  "'b surroundings \<Rightarrow> string \<Rightarrow> string \<Rightarrow> ('r, 'p) ChatServer \<Rightarrow> (unit rpc_result \<times> ('r, 'p) ChatServer) option" where
  "LeaveGroup_rpc E convID userID s =
     (if convID = [] \<or> userID = [] then Some (rpc_err InvalidArgument ''conversation_id and user_id are required'', s)
      else repo_call ''leave group'' (LeaveGroup (e_mongo E) convID userID) s)"

definition PromoteAdmin_rpc ::
  "'b surroundings \<Rightarrow> string \<Rightarrow> string \<Rightarrow> string \<Rightarrow> ('r, 'p) ChatServer \<Rightarrow> (unit rpc_result \<times> ('r, 'p) ChatServer) option" where
  "PromoteAdmin_rpc E convID userID operatorID s =
     (if convID = [] \<or> userID = [] then Some (rpc_err InvalidArgument ''conversation_id and user_id are required'', s)
      else repo_call ''promote admin'' (PromoteAdmin (e_mongo E) convID userID operatorID) s)"

definition TransferOwnership_rpc ::
  "'b surroundings \<Rightarrow> string \<Rightarrow> string \<Rightarrow> string \<Rightarrow> ('r, 'p) ChatServer \<Rightarrow> (unit rpc_result \<times> ('r, 'p) ChatServer) option" where
  "TransferOwnership_rpc E convID currentOwnerID newOwnerID s =
     (if convID = [] \<or> newOwnerID = []
      then Some (rpc_err InvalidArgument ''conversation_id and new_owner_id are required'', s)
      else repo_call ''transfer ownership'' (TransferOwnership (e_mongo E) convID currentOwnerID newOwnerID) s)"

definition DeleteGroup_rpc ::
  "'b surroundings \<Rightarrow> string \<Rightarrow> string \<Rightarrow> ('r, 'p) ChatServer \<Rightarrow> (unit rpc_result \<times> ('r, 'p) ChatServer) option" where
  "DeleteGroup_rpc E convID ownerID s =
     (if convID = [] \<or> ownerID = [] then Some (rpc_err InvalidArgument ''conversation_id and owner_id are required'', s)
      else repo_call ''delete group'' (DeleteGroup (e_mongo E) convID ownerID) s)"

end
