(* ===== verification/Server_Facts.thy ===== *)
theory Server_Facts
  imports Server_Rpc
begin

text \<open>
  Lemmas on the RPC layer: no handler panics while the hub invariant holds and every handler
  keeps it; who receives what; what is persisted; paging; the merged room list; direct-message
  ids.
\<close>

section \<open>Broadcasting handlers\<close>

lemma hub_Broadcast_ok:
  assumes "hub_inv (sv_hub s)"
  obtains h where "hub_Broadcast msg publish s = Some (s\<lparr>sv_hub := h\<rparr>)"
    "Broadcast msg publish (sv_hub s) = Some h" "hub_inv h" "in_room h = in_room (sv_hub s)"
proof -
  obtain h where h: "Broadcast msg publish (sv_hub s) = Some h"
    unfolding Broadcast_spec[OF assms] by blast
  with Broadcast_inv[OF assms h] Broadcast_in_room[OF assms h] that show ?thesis by (simp add: hub_Broadcast_def)
qed

text \<open>An outcome that did not panic, in which the hub invariant holds and the same clients are
  registered in the same rooms.\<close>

definition keeps_hub :: "('r, 'p) ChatServer \<Rightarrow> ('r, 'p) ChatServer option \<Rightarrow> bool" where
  "keeps_hub s out \<longleftrightarrow> (\<exists>s'. out = Some s' \<and> hub_inv (sv_hub s')
     \<and> in_room (sv_hub s') = in_room (sv_hub s))"

lemma spawn_simps [simp]:
  "sv_hub (spawn t s) = sv_hub s" "sv_msgRepo (spawn t s) = sv_msgRepo s"
  "sv_pgRooms (spawn t s) = sv_pgRooms s" "sv_tasks (spawn t s) = sv_tasks s @ [t]"
  by (simp_all add: spawn_def)

lemma persistMessage_hub [simp]: "sv_hub (persistMessage m s) = sv_hub s"
  by (simp add: persistMessage_def)

lemma keeps_same: "hub_inv (sv_hub s) \<Longrightarrow> sv_hub t = sv_hub s \<Longrightarrow> keeps_hub s (Some t)"
  by (simp add: keeps_hub_def)

lemma keeps_broadcast:
  assumes "hub_inv (sv_hub s)" "sv_hub t = sv_hub s"
  shows "keeps_hub s (hub_Broadcast msg publish t)"
proof -
  have "hub_inv (sv_hub t)" using assms by simp
  then obtain h where "hub_Broadcast msg publish t = Some (t\<lparr>sv_hub := h\<rparr>)" "hub_inv h"
      "in_room h = in_room (sv_hub t)"
    by (rule hub_Broadcast_ok[of t msg publish])
  then show ?thesis using assms by (simp add: keeps_hub_def)
qed

lemma keeps_persist: "keeps_hub s out \<Longrightarrow> keeps_hub s (map_option (persistMessage m) out)"
  by (auto simp: keeps_hub_def)

lemma incoming_delete_keeps: "hub_inv (sv_hub s) \<Longrightarrow> keeps_hub s (incoming_delete E roomID inp s)"
  by (simp add: incoming_delete_def Let_def keeps_same keeps_broadcast
      split: option.split prod.split sum.split bool.split)

lemma incoming_edit_keeps: "hub_inv (sv_hub s) \<Longrightarrow> keeps_hub s (incoming_edit E clk roomID inp s)"
  by (simp add: incoming_edit_def Let_def keeps_same keeps_broadcast
      split: option.split prod.split sum.split)

lemma processIncoming_keeps: "hub_inv (sv_hub s) \<Longrightarrow> keeps_hub s (processIncoming E clk inp s)"
  unfolding processIncoming_def Let_def
  by (simp add: keeps_same keeps_broadcast keeps_persist incoming_delete_keeps incoming_edit_keeps)

text \<open>A frame that carries a chat message: everyone registered in the canonical room is offered
  it, the broker gets one copy, and it is handed to the persisting goroutine exactly when
  there is a store.\<close>

definition chat_frame :: "ClientMessage \<Rightarrow> bool" where
  "chat_frame inp \<longleftrightarrow> cm_EventType inp \<notin> {1, 2, 3, 4, 5, 7} \<and> (cm_Text inp \<noteq> [] \<or> cm_MediaKey inp \<noteq> [])"

lemma processIncoming_chat:
  assumes "hub_inv (sv_hub s)" "chat_frame inp"
    and sm: "sm = (toServerMsg (clk 0) inp)\<lparr>sm_Status := MESSAGE_STATUS_SENT\<rparr>"
  shows "\<exists>h. Broadcast sm True (sv_hub s) = Some h
    \<and> processIncoming E clk inp s = Some (persistMessage sm (s\<lparr>sv_hub := h\<rparr>))"
proof -
  obtain h where "hub_Broadcast sm True s = Some (s\<lparr>sv_hub := h\<rparr>)" "Broadcast sm True (sv_hub s) = Some h"
    by (rule hub_Broadcast_ok[OF assms(1), of sm True])
  then show ?thesis
    using assms(2) by (auto simp: processIncoming_def chat_frame_def Let_def sm)
qed

lemma toServerMsg_room [simp]: "sm_RoomId (toServerMsg now m) = normalizeRoomID (cm_RoomId m)"
  by (simp add: toServerMsg_def)

section \<open>Persistence\<close>

lemma preview_of_length: "length (preview_of m) \<le> 120"
  by (simp add: preview_of_def Let_def)

lemma pg_do_simps [simp]:
  "sv_pgRooms (pg_do f s) = map_option (\<lambda>db. snd (f db)) (sv_pgRooms s)"
  "sv_msgRepo (pg_do f s) = sv_msgRepo s" "sv_hub (pg_do f s) = sv_hub s"
  by (simp_all add: pg_do_def)

lemma mongo_do_simps [simp]:
  "sv_msgRepo (mongo_do f s) = map_option (\<lambda>db. snd (f db)) (sv_msgRepo s)"
  "sv_pgRooms (mongo_do f s) = sv_pgRooms s" "sv_hub (mongo_do f s) = sv_hub s"
  by (simp_all add: mongo_do_def)

lemma pg_no_fail [simp]: "no_fail x = None"
  by (simp add: no_fail_def)

lemma IsZero_ms: "ms > - 62135596800000 \<Longrightarrow> \<not> IsZero (fromUnixMilli ms)"
  by (simp add: IsZero_def fromUnixMilli_def zero_time_def)

text \<open>What the persisting goroutine leaves in Postgres.\<close>

lemma run_persist_pg:
  assumes "sv_pgRooms s = Some db" "e_pg E = no_fail" "room_exists (sm_RoomId m) db"
    "sm_UserId m \<noteq> []" "sm_SentAtUnixMs m > - 62135596800000"
  obtains db1 db2 where
    "run_stmt (UpsertActivity (sm_RoomId m) (fromUnixMilli (sm_SentAtUnixMs m)) (sm_MessageId m)
       (sm_UserId m) (preview_of m)) db = Inr db1"
    "run_stmt (UpsertReceipt (sm_RoomId m) (sm_UserId m) (fromUnixMilli (sm_SentAtUnixMs m))
       (sm_MessageId m)) db1 = Inr db2"
    "sv_pgRooms (run_persist E clk uuid m s) = Some db2"
proof -
  obtain db1 where db1: "run_stmt (UpsertActivity (sm_RoomId m) (fromUnixMilli (sm_SentAtUnixMs m))
      (sm_MessageId m) (sm_UserId m) (preview_of m)) db = Inr db1"
    using UpsertActivity_ok[OF assms(3)] by blast
  have "room_exists (sm_RoomId m) db1" using run_stmt_rooms_mono[OF db1 assms(3)] .
  then obtain db2 where db2: "run_stmt (UpsertReceipt (sm_RoomId m) (sm_UserId m)
      (fromUnixMilli (sm_SentAtUnixMs m)) (sm_MessageId m)) db1 = Inr db2"
    using UpsertReceipt_ok[OF _ assms(4)] by blast
  have "sv_pgRooms (run_persist E clk uuid m s) = Some db2"
    using db1 db2 assms IsZero_ms[OF assms(5)]
    by (simp add: run_persist_def Let_def UpdateLastActivity_def UpdateReadReceipt_pg_def pg_exec_def
        del: run_stmt.simps)
  then show ?thesis using that db1 db2 by blast
qed

section \<open>Paging\<close>

lemma page_limit_bounds: "1 \<le> page_limit n \<and> page_limit n \<le> 200"
  by (auto simp: page_limit_def)

text \<open>The documents a history request selects.\<close>

definition history_filter :: "string \<Rightarrow> int \<Rightarrow> messageDoc \<Rightarrow> bool" where
  "history_filter roomID before d \<longleftrightarrow>
     in_rooms (roomIDAliases roomID) d \<and> (before = 0 \<or> before_cursor (fromUnixMilli before) d)"

lemma GetMessagesBefore_query:
  "limit > 0 \<Longrightarrow> GetMessagesBefore M roomID before limit db =
     queryMessages M (history_filter roomID before) limit db"
proof -
  assume "limit > 0"
  moreover have "history_filter roomID 0 = in_rooms (roomIDAliases roomID)"
    by (auto simp: history_filter_def fun_eq_iff)
  moreover have "before \<noteq> 0 \<Longrightarrow> history_filter roomID before =
      (\<lambda>d. in_rooms (roomIDAliases roomID) d \<and> before_cursor (fromUnixMilli before) d)"
    by (auto simp: history_filter_def fun_eq_iff)
  ultimately show ?thesis
    by (simp add: GetMessagesBefore_def GetMessages_repo_def Let_def)
qed

lemma GetMessages_spec:
  assumes M: "mongo_repo (e_mongo E)" and db: "sv_msgRepo s = Some db"
    and res: "GetMessages E req s = Some (Inr r, s')"
    and room: "roomID = normalizeRoomID (gmr_RoomId req)" and lim: "lim = page_limit (gmr_Limit req)"
    and cand: "cand = filter (history_filter roomID (gmr_BeforeUnixMs req)) (db_messages db)"
  shows "\<exists>a. mset a = mset cand \<and> sorted_desc newest_first a
    \<and> gmr_Messages r = map (\<lambda>d. (docToServerMessage d)\<lparr>sm_RoomId := roomID\<rparr>) (take (nat lim) a)
    \<and> gmr_HasMore r = (length cand > nat lim)"
proof -
  have lim0: "lim > 0" using page_limit_bounds lim by (metis int_one_le_iff_zero_less)
  obtain ms where ms: "queryMessages (e_mongo E) (history_filter roomID (gmr_BeforeUnixMs req)) (lim + 1) db = Inr ms"
    and r: "gmr_HasMore r = (int (length ms) > lim)"
      "gmr_Messages r = (if int (length ms) > lim
         then take (nat lim) (map (\<lambda>m. m\<lparr>sm_RoomId := roomID\<rparr>) ms) else map (\<lambda>m. m\<lparr>sm_RoomId := roomID\<rparr>) ms)"
    using res db lim0 GetMessagesBefore_query[of "lim + 1" "e_mongo E" roomID "gmr_BeforeUnixMs req" db]
    by (auto simp: GetMessages_def Let_def rpc_err_def room[symmetric] lim[symmetric]
        split: if_splits sum.splits)
  obtain a where a: "mset a = mset cand" "sorted_desc newest_first a" "ms = map docToServerMessage (take (nat (lim + 1)) a)"
    using mongo_repo.query_spec[OF M ms] cand by auto
  have len: "length a = length cand" using a(1) mset_eq_length by blast
  have "gmr_Messages r = map (\<lambda>d. (docToServerMessage d)\<lparr>sm_RoomId := roomID\<rparr>) (take (nat lim) a)"
    using r(2) a(3) lim0 by (auto simp: take_map min_def nat_add_distrib)
  moreover have "gmr_HasMore r = (length cand > nat lim)" using r(1) a(3) len lim0 by auto
  ultimately show ?thesis using a(1,2) by blast
qed

text \<open>The slice and the first element that the handler takes are in range, so that it answers.\<close>

lemma GetMessages_answers:
  assumes "normalizeRoomID (gmr_RoomId req) \<noteq> []" "sv_msgRepo s = Some db"
    and "GetMessagesBefore (e_mongo E) (normalizeRoomID (gmr_RoomId req)) (gmr_BeforeUnixMs req)
      (page_limit (gmr_Limit req) + 1) db = Inr ms"
  obtains r s' where "GetMessages E req s = Some (Inr r, s')" "sv_msgRepo s' = Some db" "sv_hub s' = sv_hub s"
proof -
  let ?lim = "page_limit (gmr_Limit req)" and ?l = "map (\<lambda>m. m\<lparr>sm_RoomId := normalizeRoomID (gmr_RoomId req)\<rparr>) ms"
  have "\<exists>msgs. (if ?lim < int (length ?l) then slice_to ?l ?lim else Some ?l) = Some msgs"
    using page_limit_bounds[of "gmr_Limit req"] by auto
  then obtain msgs where msgs: "(if ?lim < int (length ?l) then slice_to ?l ?lim else Some ?l) = Some msgs" by blast
  have "\<exists>r s'. GetMessages E req s = Some (Inr r, s') \<and> sv_msgRepo s' = Some db \<and> sv_hub s' = sv_hub s"
    unfolding GetMessages_def Let_def using assms msgs by (cases msgs) auto
  then show ?thesis using that by blast
qed

lemma GetMessages_total: "\<exists>res s'. GetMessages E req s = Some (res, s') \<and> sv_hub s' = sv_hub s"
proof (cases "sv_msgRepo s = None \<or> normalizeRoomID (gmr_RoomId req) = []")
  case False
  then obtain db where db: "sv_msgRepo s = Some db" "normalizeRoomID (gmr_RoomId req) \<noteq> []" by auto
  show ?thesis
  proof (cases "GetMessagesBefore (e_mongo E) (normalizeRoomID (gmr_RoomId req)) (gmr_BeforeUnixMs req)
      (page_limit (gmr_Limit req) + 1) db")
    case (Inl e)
    then show ?thesis using db by (simp add: GetMessages_def Let_def)
  next
    case (Inr ms)
    then show ?thesis by (rule GetMessages_answers[OF db(2,1)]) blast
  qed
qed (auto simp: GetMessages_def Let_def)

section \<open>Ownership\<close>

lemma hub_only_sv [simp]: "sv_hub (s\<lparr>sv_msgRepo := r\<rparr>) = sv_hub s" "sv_hub (s\<lparr>sv_pgRooms := p\<rparr>) = sv_hub s"
  by simp_all

text \<open>The event that announces a deletion, and a stored message that the user may delete.\<close>

definition deletion :: "string \<Rightarrow> string \<Rightarrow> string \<Rightarrow> ServerMessage" where
  "deletion room user msgID = ServerMessage_zero\<lparr>sm_RoomId := room, sm_UserId := user, sm_MessageId := msgID,
     sm_EventType := EVENT_TYPE_DELETE, sm_IsDeleted := True\<rparr>"

definition owned_message :: "string \<Rightarrow> string \<Rightarrow> ('r, 'p) ChatServer \<Rightarrow> bool" where
  "owned_message user msgID s \<longleftrightarrow> (\<exists>db d. sv_msgRepo s = Some db \<and> d \<in> set (db_messages db)
     \<and> has_msg_id msgID d \<and> owned_by user d)"

lemma incoming_delete_owner:
  assumes M: "mongo_repo (e_mongo E)" and out: "incoming_delete E roomID inp s = Some s'"
  shows "sv_hub s' = sv_hub s \<or> owned_message (cm_UserId inp) (cm_MessageId inp) s
    \<and> Broadcast (deletion roomID (cm_UserId inp) (cm_MessageId inp)) True (sv_hub s) = Some (sv_hub s')"
proof -
  { assume ch: "sv_hub s' \<noteq> sv_hub s"
    obtain db db' where db: "sv_msgRepo s = Some db"
      "SoftDeleteMessageByOwner (e_mongo E) (cm_MessageId inp) (cm_UserId inp) db = (Inr True, db')"
      "hub_Broadcast (deletion roomID (cm_UserId inp) (cm_MessageId inp)) True (s\<lparr>sv_msgRepo := Some db'\<rparr>) = Some s'"
      using out ch by (auto simp: incoming_delete_def deletion_def Let_def
          split: if_splits option.splits prod.splits sum.splits bool.splits)
    moreover have "owned_message (cm_UserId inp) (cm_MessageId inp) s"
      unfolding owned_message_def using db(1) mongo_repo.soft_delete_owner[OF M db(2)] by blast
    ultimately have ?thesis by (auto simp: hub_Broadcast_def) }
  then show ?thesis by blast
qed

lemma DeleteMessage_owner:
  assumes M: "mongo_repo (e_mongo E)" and out: "DeleteMessage E req s = Some (Inr True, s')"
  shows "owned_message (dmr_UserId req) (dmr_MessageId req) s"
    and "if normalizeRoomID (dmr_ConversationId req) = [] then sv_hub s' = sv_hub s
         else Broadcast (deletion (normalizeRoomID (dmr_ConversationId req)) (dmr_UserId req) (dmr_MessageId req))
           True (sv_hub s) = Some (sv_hub s')"
proof -
  obtain db db' where db: "sv_msgRepo s = Some db"
    "SoftDeleteMessageByOwner (e_mongo E) (dmr_MessageId req) (dmr_UserId req) db = (Inr True, db')"
    using out
    by (auto simp: DeleteMessage_def Let_def rpc_err_def
        split: if_splits option.splits prod.splits sum.splits)
  then show "owned_message (dmr_UserId req) (dmr_MessageId req) s"
    unfolding owned_message_def using mongo_repo.soft_delete_owner[OF M db(2)] by blast
  show "if normalizeRoomID (dmr_ConversationId req) = [] then sv_hub s' = sv_hub s
         else Broadcast (deletion (normalizeRoomID (dmr_ConversationId req)) (dmr_UserId req) (dmr_MessageId req))
           True (sv_hub s) = Some (sv_hub s')"
    using out db by (auto simp: DeleteMessage_def deletion_def hub_Broadcast_def Let_def rpc_err_def split: if_splits)
qed

lemma DeleteMessage_denied:
  "DeleteMessage E req s = Some (res, s') \<Longrightarrow> res \<noteq> Inr True \<Longrightarrow> sv_hub s' = sv_hub s"
  by (auto simp: DeleteMessage_def Let_def rpc_err_def
      split: if_splits option.splits prod.splits sum.splits)

lemma EditMessage_rpc_owner:
  assumes M: "mongo_repo (e_mongo E)" and out: "EditMessage_rpc E clk req s = Some (Inr m, s')"
  shows "\<exists>db d. sv_msgRepo s = Some db \<and> d \<in> set (db_messages db)
    \<and> editable (emr_MessageId req) (emr_UserId req) d \<and> sm_EditedAtUnixMs m = toUnixMilli (clk 0)"
proof -
  obtain db at db' where e: "sv_msgRepo s = Some db" "sm_EditedAtUnixMs m = at"
    "EditMessage (e_mongo E) (clk 0) (emr_MessageId req) (emr_UserId req) (emr_NewContent req) db = (Inr at, db')"
    using out
    by (auto simp: EditMessage_rpc_def Let_def rpc_err_def
        split: if_splits option.splits prod.splits sum.splits)
  then show ?thesis using mongo_repo.edit_editable[OF M e(3)] by blast
qed

section \<open>The merged room list\<close>

definition acc_ok :: "room_acc \<Rightarrow> bool" where
  "acc_ok acc \<longleftrightarrow> distinct (fst acc) \<and> set (fst acc) = dom (snd acc)
     \<and> (\<forall>i r. snd acc i = Some r \<longrightarrow> ur_RoomID r = i)"

text \<open>\<open>covers acc x\<close>: the list holds \<open>x\<close>'s room, with a stamp at least as new and its unread mark.\<close>

definition covers :: "room_acc \<Rightarrow> UserRoom \<Rightarrow> bool" where
  "covers acc x \<longleftrightarrow> (\<exists>r. snd acc (normalizeRoomID (ur_RoomID x)) = Some r
     \<and> ur_LastMessageAt x \<le> ur_LastMessageAt r \<and> (ur_HasUnread x \<longrightarrow> ur_HasUnread r))"

lemma merge_room_simps [simp]:
  "ur_RoomID (merge_room e r) = ur_RoomID e"
  "ur_LastMessageAt (merge_room e r) = max (ur_LastMessageAt e) (ur_LastMessageAt r)"
  "ur_HasUnread (merge_room e r) \<longleftrightarrow> ur_HasUnread e \<or> ur_HasUnread r"
  by (simp_all add: merge_room_def Let_def max_def)

lemma addRoom_ok: "acc_ok acc \<Longrightarrow> acc_ok (addRoom x acc)"
  by (auto simp: addRoom_def acc_ok_def Let_def dom_def split: prod.splits option.splits if_splits)

lemma addRoom_covers: "ur_RoomID x \<noteq> [] \<Longrightarrow> covers (addRoom x acc) x"
  by (auto simp: addRoom_def covers_def Let_def split: prod.splits option.splits)

lemma addRoom_keeps: "covers acc y \<Longrightarrow> covers (addRoom x acc) y"
  by (auto simp: addRoom_def covers_def Let_def split: prod.splits option.splits if_splits)

lemma fold_addRoom:
  "acc_ok acc \<Longrightarrow> acc_ok (fold addRoom xs acc)
     \<and> (\<forall>y. covers acc y \<longrightarrow> covers (fold addRoom xs acc) y)
     \<and> (\<forall>x\<in>set xs. ur_RoomID x \<noteq> [] \<longrightarrow> covers (fold addRoom xs acc) x)"
proof (induction xs arbitrary: acc)
  case (Cons x xs)
  from Cons.IH[OF addRoom_ok[OF Cons.prems]] show ?case
    by (auto simp: addRoom_covers addRoom_keeps)
qed simp

lemma acc_ok_empty: "acc_ok ([], Map.empty)"
  by (simp add: acc_ok_def)

lemma map_filter_ids:
  "set order \<subseteq> dom m \<Longrightarrow> (\<And>i r. m i = Some r \<Longrightarrow> ur_RoomID r = i) \<Longrightarrow>
   map ur_RoomID (List.map_filter m order) = order"
  by (induction order) (auto simp: List.map_filter_def)

lemma map_filter_set: "set (List.map_filter m xs) = {r. \<exists>x\<in>set xs. m x = Some r}"
  by (auto simp: List.map_filter_def image_iff) force

text \<open>The lists the two stores contribute to a room list.\<close>

definition pg_list :: "'b surroundings \<Rightarrow> string \<Rightarrow> ('r, 'p) ChatServer \<Rightarrow> UserRoom list" where
  "pg_list E userID s = (case user_rooms_pg E userID s of None \<Rightarrow> [] | Some rs \<Rightarrow> rs)"

definition mongo_list :: "'b surroundings \<Rightarrow> string \<Rightarrow> ('r, 'p) ChatServer \<Rightarrow> UserRoom list" where
  "mongo_list E userID s = (case user_rooms_mongo E userID s of None \<Rightarrow> [] | Some rs \<Rightarrow> rs)"

lemma those_total: "(\<And>x. x \<in> set xs \<Longrightarrow> f x \<noteq> None) \<Longrightarrow> those (map f xs) \<noteq> None"
  by (induction xs) (auto split: option.splits)

lemma mongo_user_room_total: "mongo_user_room r \<noteq> None"
  by (auto simp: mongo_user_room_def Let_def)

lemma store_rooms_total: "\<exists>rs. user_rooms_pg E userID s = Some rs" "\<exists>rs. user_rooms_mongo E userID s = Some rs"
  using those_total[of _ mongo_user_room, OF mongo_user_room_total]
  by (auto simp: user_rooms_pg_def user_rooms_mongo_def split: option.split sum.split)

lemma GetUserRooms_total: "\<exists>res. GetUserRooms E userID s = Some res"
  using store_rooms_total[of E userID s] by (auto simp: GetUserRooms_def Let_def split: prod.split)

lemma GetUserRooms_merge:
  assumes "GetUserRooms E userID s = Some (Inr rs)"
  shows "distinct (map ur_RoomID rs)"
    and "x \<in> set (pg_list E userID s @ mongo_list E userID s) \<Longrightarrow> ur_RoomID x \<noteq> [] \<Longrightarrow>
      \<exists>r\<in>set rs. ur_RoomID r = normalizeRoomID (ur_RoomID x)
        \<and> ur_LastMessageAt x \<le> ur_LastMessageAt r \<and> (ur_HasUnread x \<longrightarrow> ur_HasUnread r)"
proof -
  let ?l = "pg_list E userID s @ mongo_list E userID s"
  obtain order byID where acc: "fold addRoom ?l ([], Map.empty) = (order, byID)" by fastforce
  have rs: "rs = List.map_filter byID order"
    using assms acc by (auto simp: GetUserRooms_def pg_list_def mongo_list_def Let_def rpc_err_def bind_eq_Some_conv
        split: if_splits)
  note inv = fold_addRoom[OF acc_ok_empty, of ?l, unfolded acc]
  then have "map ur_RoomID rs = order" unfolding rs
    by (intro map_filter_ids) (auto simp: acc_ok_def)
  then show "distinct (map ur_RoomID rs)" using inv by (simp add: acc_ok_def)
  show "\<exists>r\<in>set rs. ur_RoomID r = normalizeRoomID (ur_RoomID x)
        \<and> ur_LastMessageAt x \<le> ur_LastMessageAt r \<and> (ur_HasUnread x \<longrightarrow> ur_HasUnread r)"
    if x: "x \<in> set ?l" "ur_RoomID x \<noteq> []"
  proof -
    have "covers (order, byID) x" using inv x by blast
    then obtain r where r: "byID (normalizeRoomID (ur_RoomID x)) = Some r"
      "ur_LastMessageAt x \<le> ur_LastMessageAt r" "ur_HasUnread x \<longrightarrow> ur_HasUnread r"
      by (auto simp: covers_def)
    then have "r \<in> set rs" "ur_RoomID r = normalizeRoomID (ur_RoomID x)"
      using inv unfolding rs map_filter_set acc_ok_def by (auto intro: domI)
    with r show ?thesis by blast
  qed
qed

section \<open>Direct-message rooms\<close>

lemma direct_conversation_cases:
  assumes "mongo_repo M" "CreateOrGetDirectConversation M now a b cby db = (Inr c, db')"
  shows "cd_ConversationId c = dm_id a b \<or> cd_ConversationId c = []"
proof -
  have conv: "mongo_coll (mo_conversations M) conv_clash" using assms(1) by (simp add: mongo_repo_def)
  have id: "cv_ID d = dm_id a b" if "c_find_one (mo_conversations M) (\<lambda>d. cv_ID d = dm_id a b) cs = Inr (Some d)" for cs d
    using mongo_coll.find_one_Some[OF conv that] by simp
  have zero: "cv_ID conversationDoc_zero = []" "cv_ID (direct_doc now a b cby) = dm_id a b"
    by (simp_all add: conversationDoc_zero_def direct_doc_def)
  show ?thesis
    using assms(2) id zero
    by (auto simp: CreateOrGetDirectConversation_def Let_def
        split: if_splits sum.splits option.splits prod.splits)
qed

text \<open>Metadata in the fallback store carries the id it is stored under.\<close>

definition rooms_ok :: "'r RoomStore \<Rightarrow> bool" where
  "rooms_ok rs \<longleftrightarrow> (\<forall>i m. RoomStore_Get rs i = Inr (Some m) \<longrightarrow> rm_RoomID m = i)"

lemma RoomStore_CreateDM_id:
  assumes "rooms_ok rs" "RoomStore_CreateDM now a b cby rs = (Inr m, rs')"
  shows "rm_RoomID m = dm_id a b"
proof -
  have ne: "a \<noteq> []" "b \<noteq> []" using assms(2) by (auto simp: RoomStore_CreateDM_def split: if_splits)
  have "rm_RoomID (dm_meta now a b cby) = dm_id a b" by (simp add: dm_meta_def)
  with assms ne show ?thesis
    by (auto simp: CreateDM_pattern[OF ne refl] rooms_ok_def split: sum.splits option.splits prod.splits)
qed

text \<open>The three stores are asked in turn for the id; whichever answers gives the canonical one.\<close>

lemma dm_pg_id:
  assumes "\<And>db. sv_pgRooms s = Some db \<Longrightarrow> pg_inv db" "dm_pg E clk a b by s = Some (Inr (i, n), s')"
  shows "i = dm_id a b \<or> i = []" "sv_rooms s' = sv_rooms s"
  using assms(2) GetOrCreateDM_result[OF _ assms(1)]
  by (auto simp: dm_pg_def split: option.splits sum.splits prod.splits)

lemma dm_mongo_id:
  assumes "mongo_repo (e_mongo E)" "dm_mongo E clk a b by i s = Some (j, s')"
  shows "j = i \<or> i = [] \<and> j = dm_id a b" "sv_rooms s' = sv_rooms s"
  using assms(2)
  by (auto simp: dm_mongo_def dest: direct_conversation_cases[OF assms(1)] split: option.splits sum.splits prod.splits if_splits)

lemma create_dm_id:
  assumes M: "mongo_repo (e_mongo E)" and rooms: "rooms_ok (sv_rooms s)"
    and pg: "\<And>db. sv_pgRooms s = Some db \<Longrightarrow> pg_inv db"
    and ids: "crr_MemberIds req = [a, b]"
    and out: "create_dm E clk req s = Some (Inr r, s')"
  shows "crr_RoomId r = dm_id a b"
proof -
  have ne: "dm_id a b \<noteq> []" by (simp add: dm_id_def)
  obtain x s1 where x: "dm_pg E clk a b (crr_CreatedBy req) s = Some (x, s1)"
    using out ids by (auto simp: create_dm_def bind_eq_Some_conv)
  obtain i n where "x = Inr (i, n)"
    using out ids x by (cases x) (auto simp: create_dm_def rpc_err_def)
  with x have p1: "dm_pg E clk a b (crr_CreatedBy req) s = Some (Inr (i, n), s1)" by simp
  obtain j s2 where p2: "dm_mongo E clk a b (crr_CreatedBy req) i s1 = Some (j, s2)"
    using out ids p1 by (auto simp: create_dm_def bind_eq_Some_conv)
  have r: "j \<noteq> [] \<Longrightarrow> crr_RoomId r = j"
      "j = [] \<Longrightarrow> \<exists>m rs. RoomStore_CreateDM (clk 2) a b (crr_CreatedBy req) (sv_rooms s2) = (Inr m, rs) \<and> crr_RoomId r = rm_RoomID m"
    using out ids p1 p2 by (auto simp: create_dm_def rpc_err_def split: sum.splits prod.splits)
  have i: "i = dm_id a b \<or> i = []" "sv_rooms s1 = sv_rooms s" using dm_pg_id[OF _ p1] pg by blast+
  note j = dm_mongo_id[OF M p2]
  have "rooms_ok (sv_rooms s2)" using rooms i(2) j(2) by simp
  then show ?thesis using r i(1) j(1) ne by (cases "j = []") (auto dest: RoomStore_CreateDM_id)
qed

section \<open>A small pod\<close>

text \<open>One connected client in one room, both stores, no failures.\<close>

definition demo_env :: "unit surroundings" where
  "demo_env = \<lparr>e_mongo = ref_mongo_ops, e_pg = no_fail, e_presign = demo_presign, e_regex = (\<lambda>_ _ _. False),
     e_aggregate = ref_aggregate, e_decode_oid = (\<lambda>_. None), e_map_order = id, e_oid = 0\<rparr>"

definition demo_server :: "(room_json keyspace, string keyspace) ChatServer" where
  "demo_server = NewChatServer demo_hub (NewRoomStore None Map.empty) (Some demo_pg) (Some mongo_db_empty)
     (Some (Cloudinary \<lparr>cl_cloudName = ''c'', cl_apiKey = ''k'', cl_apiSecret = ''s''\<rparr>)) None"

definition demo_minio :: MinioStorage where
  "demo_minio = \<lparr>mn_endpoint = ''m'', mn_accessKey = [], mn_secretKey = [], mn_useSSL = False, mn_bucket = ''b''\<rparr>"

lemma demo_server_simps [simp]:
  "sv_hub demo_server = demo_hub" "sv_pgRooms demo_server = Some demo_pg"
  "sv_msgRepo demo_server = Some mongo_db_empty" "sv_tasks demo_server = []"
  "e_mongo demo_env = ref_mongo_ops" "e_pg demo_env = no_fail"
  by (simp_all add: demo_server_def NewChatServer_def demo_env_def)

section \<open>Properties\<close>

text \<open>A chat message that arrives on a stream reaches every client of this pod that is registered
  in the canonical form of its room, and no other client; one copy goes to the broker; and the same
  message is handed to the persisting goroutine exactly when a store is configured.\<close>

lemma chat_message_delivery:
  assumes "hub_inv (sv_hub s)" "chat_frame inp"
    and sm: "sm = (toServerMsg (clk 0) inp)\<lparr>sm_Status := MESSAGE_STATUS_SENT\<rparr>"
  shows "\<exists>s'. processIncoming E clk inp s = Some s' \<and> hub_inv (sv_hub s')
    \<and> (\<forall>p. h_heap (sv_hub s') p =
         (if in_room (sv_hub s) (normalizeRoomID (cm_RoomId inp)) p then map_option (offer sm) (h_heap (sv_hub s) p)
          else h_heap (sv_hub s) p))
    \<and> h_calls (sv_hub s') = h_calls (sv_hub s) @ [CallPublish (normalizeRoomID (cm_RoomId inp)) (json_Marshal sm)]
    \<and> sv_tasks s' = sv_tasks s @ (if sv_msgRepo s = None \<and> sv_pgRooms s = None then [] else [PersistMessage sm])"
proof -
  obtain h where h: "Broadcast sm True (sv_hub s) = Some h"
    "processIncoming E clk inp s = Some (persistMessage sm (s\<lparr>sv_hub := h\<rparr>))"
    using processIncoming_chat[where clk = clk, OF assms] by blast
  have room: "sm_RoomId sm = normalizeRoomID (cm_RoomId inp)" using sm by simp
  note fr = Broadcast_frame(4,5)[OF assms(1) h(1)] and inv = Broadcast_inv(1)[OF assms(1) h(1)]
  have "sv_tasks (persistMessage sm (s\<lparr>sv_hub := h\<rparr>)) =
      sv_tasks s @ (if sv_msgRepo s = None \<and> sv_pgRooms s = None then [] else [PersistMessage sm])"
    by (simp add: persistMessage_def)
  then show ?thesis using h(2) fr inv room by (intro exI[of _ "persistMessage sm (s\<lparr>sv_hub := h\<rparr>)"]) simp
qed

definition demo_frame :: ClientMessage where
  "demo_frame = ClientMessage_zero\<lparr>cm_RoomId := ''r'', cm_UserId := ''u'', cm_Text := ''hi'', cm_MessageId := ''m''\<rparr>"

lemma demo_frame_chat: "chat_frame demo_frame"
  by (simp add: chat_frame_def demo_frame_def ClientMessage_zero_def)

text \<open>No frame a client can send makes the handler panic, whatever its event type, and every frame
  keeps the hub well formed and the same clients registered in the same rooms.\<close>

lemma processIncoming_safe:
  assumes "hub_inv (sv_hub s)"
  shows "\<exists>s'. processIncoming E clk inp s = Some s' \<and> hub_inv (sv_hub s')
    \<and> in_room (sv_hub s') = in_room (sv_hub s)"
  using processIncoming_keeps[OF assms, of E clk inp] by (simp add: keeps_hub_def)

text \<open>C11. A deletion is announced to a room only after the store has confirmed that the message exists
  and belongs to the requesting user, on the stream as in the RPC: whenever either changes the hub at
  all, such a message was stored, and what the broker gets is one deletion event of this user for this
  message in the canonical room. An RPC that is answered with an error or with a denial leaves the hub as
  it was.\<close>

theorem delete_announced_by_owner_only:
  assumes M: "mongo_repo (e_mongo E)" and ev: "cm_EventType inp = EVENT_TYPE_DELETE"
  shows "(\<forall>s'. processIncoming E clk inp s = Some s' \<longrightarrow>
      sv_hub s' = sv_hub s \<or> owned_message (cm_UserId inp) (cm_MessageId inp) s
        \<and> Broadcast (deletion (normalizeRoomID (cm_RoomId inp)) (cm_UserId inp) (cm_MessageId inp)) True (sv_hub s)
            = Some (sv_hub s'))
    \<and> (\<forall>s'. DeleteMessage E req s = Some (Inr True, s') \<longrightarrow>
      owned_message (dmr_UserId req) (dmr_MessageId req) s
        \<and> (if normalizeRoomID (dmr_ConversationId req) = [] then sv_hub s' = sv_hub s
           else Broadcast (deletion (normalizeRoomID (dmr_ConversationId req)) (dmr_UserId req) (dmr_MessageId req))
             True (sv_hub s) = Some (sv_hub s')))
    \<and> (\<forall>res s'. DeleteMessage E req s = Some (res, s') \<longrightarrow> res \<noteq> Inr True \<longrightarrow> sv_hub s' = sv_hub s)"
proof -
  have eq: "processIncoming E clk inp s = incoming_delete E (normalizeRoomID (cm_RoomId inp)) inp s"
    using ev by (simp add: processIncoming_def Let_def)
  have "\<forall>s'. DeleteMessage E req s = Some (Inr True, s') \<longrightarrow> owned_message (dmr_UserId req) (dmr_MessageId req) s
        \<and> (if normalizeRoomID (dmr_ConversationId req) = [] then sv_hub s' = sv_hub s
           else Broadcast (deletion (normalizeRoomID (dmr_ConversationId req)) (dmr_UserId req) (dmr_MessageId req))
             True (sv_hub s) = Some (sv_hub s'))"
    using DeleteMessage_owner[OF M] by blast
  then show ?thesis unfolding eq using incoming_delete_owner[OF M] DeleteMessage_denied by blast
qed

definition demo_stored :: "(room_json keyspace, string keyspace) ChatServer" where
  "demo_stored = demo_server\<lparr>sv_msgRepo := Some (mongo_db_empty
     \<lparr>db_messages := [message_doc ''m'' 0 (toServerMsg 0 demo_frame)]\<rparr>)\<rparr>"

theorem delete_announced_by_owner_only_witness:
  "\<exists>s' s''. processIncoming demo_env (\<lambda>_. 0) (demo_frame\<lparr>cm_EventType := 5, cm_UserId := ''v''\<rparr>) demo_stored = Some s'
     \<and> sv_hub s' = demo_hub
     \<and> DeleteMessage demo_env \<lparr>dmr_MessageId = ''m'', dmr_UserId = ''u'', dmr_ConversationId = ''r''\<rparr> demo_stored = Some (Inr True, s'')
     \<and> Broadcast (deletion ''r'' ''u'' ''m'') True demo_hub = Some (sv_hub s'')"
proof -
  let ?f = "demo_frame\<lparr>cm_EventType := 5, cm_UserId := ''v''\<rparr>"
    and ?req = "\<lparr>dmr_MessageId = ''m'', dmr_UserId = ''u'', dmr_ConversationId = ''r''\<rparr>"
  have hub: "sv_hub demo_stored = demo_hub" by (simp add: demo_stored_def)
  then have inv: "hub_inv (sv_hub demo_stored)" using demo_hub_facts(1) by simp
  then obtain s' where run: "processIncoming demo_env (\<lambda>_. 0) ?f demo_stored = Some s'"
    using processIncoming_keeps[of demo_stored demo_env "\<lambda>_. 0" ?f] by (auto simp: keeps_hub_def)
  have M: "mongo_repo (e_mongo demo_env)" using ref_repo.mongo_repo_axioms by simp
  have nr: "normalizeRoomID ''r'' = ''r''"
    by (intro normalizeRoomID_other) (simp_all add: HasPrefix_def TrimSpace_solid solid_def)
  have doc: "owned_by x (message_doc ''m'' 0 (toServerMsg 0 demo_frame)) \<longleftrightarrow> x = ''u''"
    "has_msg_id ''m'' (message_doc ''m'' 0 (toServerMsg 0 demo_frame))" for x
    by (auto simp: owned_by_def has_msg_id_def message_doc_def toServerMsg_def demo_frame_def Let_def)
  obtain db' where del: "SoftDeleteMessageByOwner (e_mongo demo_env) ''m'' ''u''
      (mongo_db_empty\<lparr>db_messages := [message_doc ''m'' 0 (toServerMsg 0 demo_frame)]\<rparr>) = (Inr True, db')"
    using doc by (simp add: SoftDeleteMessageByOwner_def ref_mongo_ops_def ref_coll_def ref_update_one_def set_deleted_def)
  obtain h where h: "hub_Broadcast (deletion ''r'' ''u'' ''m'') True (demo_stored\<lparr>sv_msgRepo := Some db'\<rparr>)
      = Some (demo_stored\<lparr>sv_msgRepo := Some db'\<rparr>\<lparr>sv_hub := h\<rparr>)"
    by (rule hub_Broadcast_ok[of "demo_stored\<lparr>sv_msgRepo := Some db'\<rparr>"]) (use inv in simp_all)
  then have run2: "\<exists>s''. DeleteMessage demo_env ?req demo_stored = Some (Inr True, s'')"
    using del by (simp add: DeleteMessage_def demo_stored_def deletion_def nr Let_def)
  note announced = delete_announced_by_owner_only[OF M, of ?f "\<lambda>_. 0" demo_stored ?req]
  have "sv_hub s' = demo_hub"
    using announced run hub doc(1) by (auto simp: demo_stored_def owned_message_def)
  with run run2 announced hub nr show ?thesis by auto
qed

text \<open>C6. A page of history is the newest part of the room: the messages stored under any alias of the room
  and before the cursor, newest first, as many as the request asks for when that is between 1 and 200,
  and 50 for any other number; \<open>HasMore\<close> says exactly whether some are left; and every message carries
  the canonical room id.\<close>

theorem history_page:
  assumes "mongo_repo (e_mongo E)" "sv_msgRepo s = Some db" "GetMessages E req s = Some (Inr r, s')"
    and "roomID = normalizeRoomID (gmr_RoomId req)"
    and lim: "lim = (if 1 \<le> gmr_Limit req \<and> gmr_Limit req \<le> 200 then gmr_Limit req else 50)"
    and "cand = filter (history_filter roomID (gmr_BeforeUnixMs req)) (db_messages db)"
  shows "\<exists>a. mset a = mset cand \<and> sorted_desc newest_first a
    \<and> gmr_Messages r = map (\<lambda>d. (docToServerMessage d)\<lparr>sm_RoomId := roomID\<rparr>) (take (nat lim) a)
    \<and> gmr_HasMore r = (length cand > nat lim)"
proof -
  have "lim = page_limit (gmr_Limit req)" by (simp add: lim page_limit_def)
  then show ?thesis by (rule GetMessages_spec[OF assms(1-4) _ assms(6)])
qed

theorem history_page_witness:
  "\<exists>r s' m. GetMessages demo_env \<lparr>gmr_RoomId = ''r'', gmr_UserId = ''u'', gmr_Limit = 0, gmr_BeforeUnixMs = 0\<rparr>
      demo_stored = Some (Inr r, s') \<and> gmr_Messages r = [m] \<and> \<not> gmr_HasMore r"
proof -
  let ?req = "\<lparr>gmr_RoomId = ''r'', gmr_UserId = ''u'', gmr_Limit = 0, gmr_BeforeUnixMs = 0\<rparr>"
  let ?d = "message_doc ''m'' 0 (toServerMsg 0 demo_frame)"
  have trim: "TrimSpace ''r'' = ''r''" by (rule TrimSpace_solid) (simp_all add: solid_def)
  then have norm: "normalizeRoomID ''r'' = ''r''" by (intro normalizeRoomID_other) (simp_all add: HasPrefix_def)
  have db: "sv_msgRepo demo_stored = Some (mongo_db_empty\<lparr>db_messages := [?d]\<rparr>)" by (simp add: demo_stored_def)
  obtain r s' where run: "GetMessages demo_env ?req demo_stored = Some (Inr r, s')"
    by (rule GetMessages_answers[of ?req demo_stored _ demo_env, OF _ db])
      (simp_all add: norm GetMessagesBefore_def GetMessages_repo_def queryMessages_def ref_mongo_ops_def ref_coll_def Let_def)
  have "md_ConversationID ?d = ''r''"
    by (simp add: message_doc_def toServerMsg_def demo_frame_def norm Let_def)
  moreover have "''r'' \<in> set (roomIDAliases ''r'')" by (simp add: roomIDAliases_def trim HasPrefix_def Let_def)
  ultimately have "history_filter ''r'' 0 ?d" by (simp add: history_filter_def in_rooms_def)
  moreover have "mongo_repo (e_mongo demo_env)" using ref_repo.mongo_repo_axioms by simp
  ultimately have "length (gmr_Messages r) = 1 \<and> \<not> gmr_HasMore r"
    using history_page[OF _ db run refl refl refl] by (auto simp: norm page_limit_def)
  with run show ?thesis by (auto simp: length_Suc_conv)
qed

text \<open>C14. Let Postgres be configured and have a row for the room (a room that only Mongo knows, such as one
  made by the \<open>CreateGroup\<close> RPC, has none), let no statement fail, and let the message have a sender and a
  time after the zero time. When the persisting goroutine has run, the room is not unread for the sender,
  and for another user it is unread unless that user has a read receipt at least as late; once the read
  receipt of such a user with a non-empty id has run, at a time not before the message, it is not unread
  for that user either. The preview is at most 120 bytes.\<close>

theorem persisted_unread_marks:
  assumes pg: "sv_pgRooms s = Some db" "e_pg E = no_fail" "room_exists (sm_RoomId m) db"
    and m: "sm_UserId m \<noteq> []" "sm_SentAtUnixMs m > - 62135596800000"
    and u: "u \<noteq> sm_UserId m" "u \<noteq> []" "fromUnixMilli (sm_SentAtUnixMs m) \<le> t"
    and s1: "s1 = run_task E clk uuid (PersistMessage m) s"
    and s2: "s2 = run_task E clk2 uuid2 (ReadReceipt (sm_RoomId m) u (sm_MessageId m) (Some t)) s1"
  shows "\<exists>db1 db2. sv_pgRooms s1 = Some db1 \<and> sv_pgRooms s2 = Some db2
    \<and> \<not> unread_flag (sm_RoomId m) (sm_UserId m) db1
    \<and> (unread_flag (sm_RoomId m) u db1 \<longleftrightarrow> (case receipt_of (sm_RoomId m) u db of None \<Rightarrow> True
         | Some rr \<Rightarrow> timestamptz (fromUnixMilli (sm_SentAtUnixMs m)) > prr_last_read_at rr))
    \<and> \<not> unread_flag (sm_RoomId m) u db2 \<and> length (preview_of m) \<le> 120"
proof -
  let ?at = "fromUnixMilli (sm_SentAtUnixMs m)"
  obtain da db1 where da: "run_stmt (UpsertActivity (sm_RoomId m) ?at (sm_MessageId m) (sm_UserId m)
      (preview_of m)) db = Inr da"
    and db1: "run_stmt (UpsertReceipt (sm_RoomId m) (sm_UserId m) ?at (sm_MessageId m)) da = Inr db1"
    and res: "sv_pgRooms (run_persist E clk uuid m s) = Some db1"
    by (rule run_persist_pg[OF pg m, of clk uuid])
  note act = UpsertActivity_tables[OF da] and rec = UpsertReceipt_tables[OF db1]
  have ex: "room_exists (sm_RoomId m) db1"
    using run_stmt_rooms_mono[OF db1 run_stmt_rooms_mono[OF da pg(3)]] .
  obtain db2 where db2: "run_stmt (UpsertReceipt (sm_RoomId m) u t (sm_MessageId m)) db1 = Inr db2"
    using UpsertReceipt_ok[OF ex u(2)] by blast
  note rec2 = UpsertReceipt_tables[OF db2]
  have s1pg: "sv_pgRooms s1 = Some db1" using res s1 by simp
  have s2pg: "sv_pgRooms s2 = Some db2"
    using s1pg s2 pg(2) db2 by (simp add: UpdateReadReceipt_pg_def pg_exec_def Let_def del: run_stmt.simps)
  have la: "activity_of (sm_RoomId m) db1 = activity_of (sm_RoomId m) da"
    "activity_of (sm_RoomId m) db2 = activity_of (sm_RoomId m) da"
    using rec(2) rec2(2) by (simp_all add: activity_of_def)
  have rr: "receipt_of (sm_RoomId m) u db1 = receipt_of (sm_RoomId m) u db"
    using rec(4)[of "sm_RoomId m" u] u(1) act(2) by (simp add: receipt_of_def)
  have "timestamptz ?at \<le> timestamptz t"
    using u(3) by (simp add: timestamptz_def zdiv_mono1)
  then show ?thesis
    using s1pg s2pg act(1) la rr rec2(1) u(1) preview_of_length[of m]
    by (auto simp: unread_flag_def split: option.split)
qed

definition demo_dm :: ServerMessage where
  "demo_dm = ServerMessage_zero\<lparr>sm_RoomId := ''dm:u:v'', sm_UserId := ''u'', sm_MessageId := ''m'',
     sm_Text := ''hi'', sm_SentAtUnixMs := 1000\<rparr>"

definition demo_persisted :: "(room_json keyspace, string keyspace) ChatServer" where
  "demo_persisted = run_task demo_env (\<lambda>_. 0) ''x'' (PersistMessage demo_dm) demo_server"

theorem persisted_unread_marks_witness:
  "\<exists>db1 db2. sv_pgRooms demo_persisted = Some db1 \<and> \<not> unread_flag ''dm:u:v'' ''u'' db1
     \<and> unread_flag ''dm:u:v'' ''v'' db1
     \<and> sv_pgRooms (run_task demo_env (\<lambda>_. 0) ''x'' (ReadReceipt ''dm:u:v'' ''v'' ''m'' (Some 2000000000)) demo_persisted) = Some db2
     \<and> \<not> unread_flag ''dm:u:v'' ''v'' db2"
proof -
  have ex: "room_exists (sm_RoomId demo_dm) demo_pg"
    by (simp add: room_exists_def demo_pg_eq demo_dm_def)
  have m: "sm_UserId demo_dm \<noteq> []" "sm_SentAtUnixMs demo_dm > - 62135596800000" "''v'' \<noteq> sm_UserId demo_dm"
    "''v'' \<noteq> []" "fromUnixMilli (sm_SentAtUnixMs demo_dm) \<le> 2000000000"
    and dm: "sm_RoomId demo_dm = ''dm:u:v''" "sm_UserId demo_dm = ''u''" "sm_MessageId demo_dm = ''m''"
    by (simp_all add: demo_dm_def fromUnixMilli_def)
  have none: "receipt_of ''dm:u:v'' ''v'' demo_pg = None" by (simp add: receipt_of_def demo_pg_eq)
  from persisted_unread_marks[OF demo_server_simps(2,6) ex m demo_persisted_def refl, of "\<lambda>_. 0" "''x''"]
  show ?thesis unfolding dm none by auto
qed

text \<open>C30. The room list an RPC returns lists every room once, and every room either store reports
  appears in it under its normalised id, with a last-message time at least as new as reported and the
  unread mark if any report has it.\<close>

theorem room_list_merge:
  assumes "GetUserRooms E userID s = Some (Inr rs)"
  shows "distinct (map ur_RoomID rs)
    \<and> (\<forall>x\<in>set (pg_list E userID s @ mongo_list E userID s). ur_RoomID x \<noteq> [] \<longrightarrow>
         (\<exists>r\<in>set rs. ur_RoomID r = normalizeRoomID (ur_RoomID x)
            \<and> ur_LastMessageAt x \<le> ur_LastMessageAt r \<and> (ur_HasUnread x \<longrightarrow> ur_HasUnread r)))"
  using GetUserRooms_merge[OF assms] by blast

theorem room_list_merge_witness:
  "\<exists>rs. GetUserRooms demo_env ''u'' demo_server = Some (Inr rs) \<and> distinct (map ur_RoomID rs)"
proof -
  obtain rs where rs: "GetUserRooms demo_env ''u'' demo_server = Some (Inr rs)"
    using store_rooms_total[of demo_env "''u''" demo_server] by (auto simp: GetUserRooms_def Let_def case_prod_beta)
  from room_list_merge[OF rs] rs show ?thesis by blast
qed

text \<open>\<open>CreateRoom\<close> for two users answers with the canonical direct-message id of the unordered pair,
  whichever of Postgres, the message store and the fallback store is configured or fails.\<close>

lemma CreateRoom_dm_canonical:
  assumes "mongo_repo (e_mongo E)" "rooms_ok (sv_rooms s)" "\<And>db. sv_pgRooms s = Some db \<Longrightarrow> pg_inv db"
    and "crr_Type req = ROOM_TYPE_DM" "crr_MemberIds req = [a, b]"
    and "CreateRoom E clk uuid req s = Some (Inr r, s')"
  shows "crr_RoomId r = dm_id b a"
  using create_dm_id[OF assms(1,2,3,5)] assms(4,6) dm_id_commute[of a b]
  by (auto simp: CreateRoom_def rpc_err_def split: if_splits)

text \<open>C34. An upload URL is handed out only for a complete request for at most 100 MB, under a key
  without colons, by a configured back end: it is what the MinIO or S3 signer returned for exactly this
  key (and content type) when asked for a validity of fifteen minutes, or the signed address of
  Cloudinary with the key and the time; the expiry reported to the client is fifteen minutes after the
  clock reading of the call. The only trace of the request is the record of the upload handed to a
  goroutine when there is a message store.\<close>

theorem RequestUpload_bounds:
  assumes "RequestUpload E clk req s = Some (Inr r, s')"
  shows "ur_UserId req \<noteq> [] \<and> ur_RoomId req \<noteq> [] \<and> ur_FileName req \<noteq> []
    \<and> ur_FileSizeBytes req \<le> 104857600 \<and> CHR '':'' \<notin> set (ur_MediaKey r)
    \<and> (\<exists>st. sv_storage s = Some st
         \<and> signed_upload (e_presign E) st (clk 1) (ur_MediaKey r) (ur_MimeType req) (ur_UploadUrl r))
    \<and> ur_ExpiresAtUnixMs r = toUnixMilli (clk 2) + 900000
    \<and> s' = s\<lparr>sv_tasks := sv_tasks s'\<rparr>
    \<and> (\<exists>e. toUnixMilli e = ur_ExpiresAtUnixMs r \<and> sv_tasks s' = sv_tasks s @ (if sv_msgRepo s = None then []
         else [SaveMedia (ur_MediaKey r) (ur_UserId req) (ur_RoomId req) (ur_FileName req) (ur_MimeType req)
           (ur_FileSizeBytes req) e]))"
proof -
  obtain st u e where put: "PutPresignedURL (e_presign E) st (clk 1) (clk 2) (media_key (clk 0) req)
      (ur_MimeType req) (ur_FileSizeBytes req) = Inr (u, e)"
    and r: "sv_storage s = Some st" "ur_MediaKey r = media_key (clk 0) req" "ur_ExpiresAtUnixMs r = toUnixMilli e"
      "ur_UploadUrl r = u"
      "s' = (if sv_msgRepo s = None then s else spawn (SaveMedia (media_key (clk 0) req) (ur_UserId req)
        (ur_RoomId req) (ur_FileName req) (ur_MimeType req) (ur_FileSizeBytes req) e) s)"
    and g: "ur_UserId req \<noteq> []" "ur_RoomId req \<noteq> []" "ur_FileName req \<noteq> []" "ur_FileSizeBytes req \<le> maxFileBytes"
    using assms by (auto simp: RequestUpload_def rpc_err_def Let_def split: if_splits sum.splits prod.splits)
  note signed = PutPresignedURL_signed[OF put]
  moreover have "CHR '':'' \<notin> set (media_key (clk 0) req)" unfolding media_key_def by (rule set_ReplaceAll) simp
  ultimately show ?thesis using r g by (auto simp: maxFileBytes_def spawn_def)
qed

theorem RequestUpload_bounds_witness:
  "\<exists>r s'. RequestUpload demo_env (\<lambda>_. 0) \<lparr>ur_UserId = ''u'', ur_RoomId = ''dm:u:v'', ur_FileName = ''f'',
      ur_MimeType = ''image/png'', ur_FileSizeBytes = 10\<rparr> (demo_server\<lparr>sv_storage := Some (Minio demo_minio)\<rparr>)
        = Some (Inr r, s')
     \<and> ps_minio_put demo_presign ''b'' (ur_MediaKey r) 900000000000 = Inr (ur_UploadUrl r) \<and> ur_ExpiresAtUnixMs r = 900000"
proof -
  let ?req = "\<lparr>ur_UserId = ''u'', ur_RoomId = ''dm:u:v'', ur_FileName = ''f'', ur_MimeType = ''image/png'',
      ur_FileSizeBytes = 10\<rparr>" and ?s = "demo_server\<lparr>sv_storage := Some (Minio demo_minio)\<rparr>"
  obtain r s' where run: "RequestUpload demo_env (\<lambda>_. 0) ?req ?s = Some (Inr r, s')"
    by (simp add: RequestUpload_def maxFileBytes_def demo_env_def demo_presign_def demo_minio_def Minio_PutPresignedURL_def Let_def)
  from RequestUpload_bounds[OF run] run show ?thesis
    by (auto simp: toUnixMilli_def demo_env_def demo_minio_def)
qed

end
