(* ===== verification/Chat_Stream.thy ===== *)
theory Chat_Stream
  imports Server_Facts
begin

text \<open>
  The bidirectional stream handler \<open>Chat\<close> of \<open>app/server/grpc_server.go\<close> as a step relation:
  the handler's goroutine with its program counter, the sender goroutine it starts, the deferred
  clean-up, and the rest of the pod.

  The stream's transport decides when \<open>Recv\<close> fails and whether a \<open>Send\<close> succeeds. A step
  \<open>other\<close> is anything the other streams and RPCs do: they keep the hub invariant and never
  unregister this stream's client, whose pointer only this handler holds. The handler's own calls
  between two points where it can block are one step.
\<close>

section \<open>Definitions\<close>

datatype chat_result = StatusError code string | RecvError string

datatype chat_pc =
    Entering
  | AwaitFirst
  | FirstFrame ClientMessage
  | Serving
  | WaitDone string
  | Returned chat_result

record chat_stream =
  st_pc :: chat_pc
  st_user :: string
  st_room :: string
  st_client :: cptr
  st_ctx :: nat
  st_connected :: bool
  st_heartbeat :: bool
  st_sender_done :: bool
  st_send_failed :: bool
  st_sent :: "ServerMessage list"

definition new_stream :: "cptr \<Rightarrow> nat \<Rightarrow> chat_stream" where
  "new_stream p ctx =
     \<lparr>st_pc = Entering, st_user = [], st_room = [], st_client = p, st_ctx = ctx,
      st_connected = False, st_heartbeat = False, st_sender_done = False,
      st_send_failed = False, st_sent = []\<rparr>"

definition Chat_enter :: "('r, 'p) ChatServer \<Rightarrow> chat_stream \<Rightarrow> chat_stream" where
  "Chat_enter s st =
     (if AtCapacity (sv_hub s)
      then st\<lparr>st_pc := Returned (StatusError ResourceExhausted
             (''server at capacity ('' @ FormatInt (ConnCount (sv_hub s)) @ '' connections): try another pod''))\<rparr>
      else st\<lparr>st_pc := AwaitFirst\<rparr>)"

definition presence_event :: "string \<Rightarrow> string \<Rightarrow> bool \<Rightarrow> int \<Rightarrow> ServerMessage" where
  "presence_event roomID userID online lastSeen =
     ServerMessage_zero\<lparr>sm_RoomId := roomID, sm_UserId := userID, sm_EventType := EVENT_TYPE_PRESENCE,
       sm_IsOnline := online, sm_LastSeenUnixMs := lastSeen\<rparr>"

definition is_redis :: "'p presence \<Rightarrow> bool" where
  "is_redis ps \<longleftrightarrow> (case ps of RedisPresenceStore _ _ \<Rightarrow> True | LocalPresenceStore _ \<Rightarrow> False)"

text \<open>From the first frame to the start of the sender goroutine.\<close>

definition Chat_first ::
  "clock \<Rightarrow> string + ClientMessage \<Rightarrow> chat_stream \<Rightarrow> ('r, 'p) ChatServer
   \<Rightarrow> (chat_stream \<times> ('r, 'p) ChatServer) option" where
  "Chat_first clk frame st s =
     (case frame of
        Inl e \<Rightarrow> Some (st\<lparr>st_pc := Returned (RecvError e)\<rparr>, s)
      | Inr first \<Rightarrow>
          if cm_UserId first = [] \<or> cm_RoomId first = []
          then Some (st\<lparr>st_pc := Returned (StatusError InvalidArgument
                   ''user_id and room_id are required in the first message'')\<rparr>, s)
          else let userID = cm_UserId first; roomID = normalizeRoomID (cm_RoomId first);
                   p = st_client st; client = NewClient userID roomID;
                   s1 = s\<lparr>sv_hub := Register (st_ctx st) p client (alloc p client (sv_hub s))\<rparr>;
                   s2 = s1\<lparr>sv_presence := SetOnline (toUnixMilli (clk 0)) userID True (sv_presence s1)\<rparr>
               in map_option (\<lambda>s3. (st\<lparr>st_pc := FirstFrame first, st_user := userID, st_room := roomID,
                                      st_connected := True, st_heartbeat := is_redis (sv_presence s)\<rparr>, s3))
                    (hub_Broadcast (presence_event roomID userID True 0) True s2))"

text \<open>One pass of the sender goroutine's loop body: a presigned URL is attached to a media
  message; \<open>ok\<close> is the outcome of \<open>stream.Send\<close>. A closed and drained channel ends the loop.\<close>

definition attach_url ::
  "'b surroundings \<Rightarrow> gotime \<Rightarrow> ('r, 'p) ChatServer \<Rightarrow> ServerMessage \<Rightarrow> ServerMessage" where
  "attach_url E now s m =
     (if sm_MediaKey m \<noteq> [] \<and> sm_EventType m = EVENT_TYPE_MESSAGE
      then case sv_storage s of
             None \<Rightarrow> m
           | Some store \<Rightarrow>
               (case GetPresignedURL (e_presign E) store now (sm_MediaKey m) of
                  Inl _ \<Rightarrow> m
                | Inr (u, _) \<Rightarrow> m\<lparr>sm_MediaUrl := u\<rparr>)
      else m)"

definition sender_pass ::
  "'b surroundings \<Rightarrow> gotime \<Rightarrow> bool \<Rightarrow> chat_stream \<Rightarrow> ('r, 'p) ChatServer
   \<Rightarrow> (chat_stream \<times> ('r, 'p) ChatServer) option" where
  "sender_pass E now ok st s =
     (case h_heap (sv_hub s) (st_client st) of
        None \<Rightarrow> None
      | Some c \<Rightarrow>
          (case range_next (c_Send c) of
             (Received m, ch) \<Rightarrow>
               (let s' = s\<lparr>sv_hub := alloc (st_client st) (c\<lparr>c_Send := ch\<rparr>) (sv_hub s)\<rparr>
                in Some (if ok then st\<lparr>st_sent := st_sent st @ [attach_url E now s m]\<rparr>
                         else st\<lparr>st_sender_done := True, st_send_failed := True\<rparr>, s'))
           | (RangeEnds, _) \<Rightarrow> Some (st\<lparr>st_sender_done := True\<rparr>, s)
           | (Blocks, _) \<Rightarrow> None))"

text \<open>The deferred function.\<close>

definition Chat_cleanup ::
  "clock \<Rightarrow> chat_stream \<Rightarrow> ('r, 'p) ChatServer \<Rightarrow> ('r, 'p) ChatServer option" where
  "Chat_cleanup clk st s =
     (case h_heap (sv_hub s) (st_client st) of
        None \<Rightarrow> None
      | Some c \<Rightarrow>
          (case Unregister (st_client st) c (sv_hub s) of
             None \<Rightarrow> None
           | Some h \<Rightarrow>
               (let s1 = s\<lparr>sv_hub := h\<rparr>;
                    s2 = s1\<lparr>sv_presence := SetOnline (toUnixMilli (clk 0)) (st_user st) False (sv_presence s1)\<rparr>
                in hub_Broadcast (presence_event (st_room st) (st_user st) False (toUnixMilli (clk 1))) True s2)))"

text \<open>The steps of the handler and of its sender goroutine.\<close>

inductive chat_act ::
  "'b surroundings \<Rightarrow> chat_stream \<times> ('r, 'p) ChatServer \<Rightarrow> chat_stream \<times> ('r, 'p) ChatServer \<Rightarrow> bool"
  for E :: "'b surroundings" where
  enter: "st_pc st = Entering \<Longrightarrow> chat_act E (st, s) (Chat_enter s st, s)"
| first: "st_pc st = AwaitFirst \<Longrightarrow> h_heap (sv_hub s) (st_client st) = None \<Longrightarrow>
    Chat_first clk frame st s = Some out \<Longrightarrow> chat_act E (st, s) out"
| first_frame: "st_pc st = FirstFrame inp \<Longrightarrow> processIncoming E clk inp s = Some s' \<Longrightarrow>
    chat_act E (st, s) (st\<lparr>st_pc := Serving\<rparr>, s')"
| recv: "st_pc st = Serving \<Longrightarrow> processIncoming E clk inp s = Some s' \<Longrightarrow> chat_act E (st, s) (st, s')"
| recv_err: "st_pc st = Serving \<Longrightarrow> chat_act E (st, s) (st\<lparr>st_pc := WaitDone e\<rparr>, s)"
| sender: "st_connected st \<Longrightarrow> \<not> st_sender_done st \<Longrightarrow> sender_pass E now ok st s = Some out \<Longrightarrow>
    chat_act E (st, s) out"
| finish: "st_pc st = WaitDone e \<Longrightarrow> st_sender_done st \<Longrightarrow> Chat_cleanup clk st s = Some s' \<Longrightarrow>
    chat_act E (st, s) (st\<lparr>st_pc := Returned (RecvError e)\<rparr>, s')"

inductive chat_step ::
  "'b surroundings \<Rightarrow> chat_stream \<times> ('r, 'p) ChatServer \<Rightarrow> chat_stream \<times> ('r, 'p) ChatServer \<Rightarrow> bool"
  for E :: "'b surroundings" where
  act: "chat_act E x y \<Longrightarrow> chat_step E x y"
| other: "hub_inv (sv_hub s') \<Longrightarrow>
    (\<forall>r. in_room (sv_hub s) r (st_client st) \<longrightarrow> in_room (sv_hub s') r (st_client st)) \<Longrightarrow>
    chat_step E (st, s) (st, s')"

inductive chat_reachable ::
  "'b surroundings \<Rightarrow> chat_stream \<times> ('r, 'p) ChatServer \<Rightarrow> bool"
  for E :: "'b surroundings" where
  start: "hub_inv (sv_hub s) \<Longrightarrow> chat_reachable E (new_stream p ctx, s)"
| step: "chat_reachable E x \<Longrightarrow> chat_step E x y \<Longrightarrow> chat_reachable E y"

definition in_service :: "chat_stream \<Rightarrow> bool" where
  "in_service st \<longleftrightarrow> st_connected st \<and> (\<forall>res. st_pc st \<noteq> Returned res)"

text \<open>Invariant: the hub is well formed; from the registration to the return the client is
  registered in the stream's room; the handler is connected exactly between the two; the
  sender has ended only after a failed send; a connected handler has returned only after the
  sender ended.\<close>

definition chat_inv :: "chat_stream \<times> ('r, 'p) ChatServer \<Rightarrow> bool" where
  "chat_inv x \<longleftrightarrow>
     (case x of (st, s) \<Rightarrow>
        hub_inv (sv_hub s)
        \<and> (in_service st \<longrightarrow> in_room (sv_hub s) (st_room st) (st_client st))
        \<and> (st_pc st \<in> {Entering, AwaitFirst} \<longrightarrow> \<not> st_connected st \<and> \<not> st_sender_done st)
        \<and> (st_pc st \<notin> {Entering, AwaitFirst} \<and> (\<forall>res. st_pc st \<noteq> Returned res) \<longrightarrow> st_connected st)
        \<and> (in_service st \<and> st_sender_done st \<longrightarrow> st_send_failed st)
        \<and> (st_connected st \<and> \<not> in_service st \<longrightarrow> st_send_failed st \<and> st_sender_done st))"

section \<open>Lemmas\<close>

lemma Register_facts:
  assumes "hub_inv h" "h_heap h p = None" and c: "c = NewClient u r"
  shows "hub_inv (Register ctx p c (alloc p c h))" "in_room (Register ctx p c (alloc p c h)) r p"
    "registered (Register ctx p c (alloc p c h)) = insert p (registered h)"
    "h_connCnt (Register ctx p c (alloc p c h)) = h_connCnt h + 1"
proof -
  have fresh: "\<not> in_room h q p" for q
    using unregistered_fresh[OF assms(1,2)] by (auto simp: registered_def)
  then have al: "hub_inv (alloc p c h)" by (intro hub_inv_alloc[OF assms(1)]) auto
  then have "hub_inv (register_locked ctx p c (alloc p c h))"
    using c by (intro register_locked_inv) simp_all
  then show "hub_inv (Register ctx p c (alloc p c h))" by (simp add: Register_def)
  show "registered (Register ctx p c (alloc p c h)) = insert p (registered h)"
    using registered_register[OF al, of ctx p c] by (simp add: Register_def)
  have "in_room (register_locked ctx p c (alloc p c h)) r p"
    using in_room_register[OF al, of ctx p c r p] c by simp
  then show "in_room (Register ctx p c (alloc p c h)) r p"
    by (simp add: Register_def connCnt_Add_def in_room_def)
  show "h_connCnt (Register ctx p c (alloc p c h)) = h_connCnt h + 1" by (simp add: Register_def)
qed

lemma Unregister_facts:
  assumes "hub_inv h" "in_room h r p" "h_heap h p = Some c"
  obtains h' where "Unregister p c h = Some h'" "hub_inv h'" "registered h' = registered h - {p}"
    "h_connCnt h' = h_connCnt h - 1"
proof -
  have "c_RoomID c = r" using hub_inv_room[OF assms(1,2)] assms(3) by (auto simp: client_ok_def)
  then have room: "in_room h (c_RoomID c) p" using assms(2) by simp
  obtain k where k: "unregister_locked p c h = Some k"
    by (rule unregister_locked_ok[OF assms(1) room assms(3)])
  note un = unregister_locked_inv[OF assms(1) room assms(3) k]
  show ?thesis
    by (rule that[of "connCnt_Add (- 1) k"]) (simp_all add: Unregister_def k un)
qed

lemma range_next_open: "\<not> ch_closed ch \<Longrightarrow> fst (range_next ch) \<noteq> RangeEnds"
  by (simp add: range_next_def split: list.split)

section \<open>The invariant\<close>

lemma keeps_hubD:
  assumes "keeps_hub s out" "out = Some s'"
  shows "hub_inv (sv_hub s')" "in_room (sv_hub s') = in_room (sv_hub s)"
  using assms by (auto simp: keeps_hub_def)

lemmas processIncoming_facts = keeps_hubD[OF processIncoming_keeps]

lemma Chat_first_inv:
  assumes inv: "chat_inv (st, s)" and pc: "st_pc st = AwaitFirst"
    and heap: "h_heap (sv_hub s) (st_client st) = None"
    and out: "Chat_first clk frame st s = Some (st', s')"
  shows "chat_inv (st', s')"
proof (cases "st_connected st'")
  case False
  then show ?thesis
    using inv pc out by (auto simp: Chat_first_def chat_inv_def in_service_def Let_def split: sum.splits if_splits)
next
  case True
  have h: "hub_inv (sv_hub s)" "\<not> st_connected st" "\<not> st_sender_done st"
    using inv pc by (auto simp: chat_inv_def)
  then obtain f t where fr: "st' = st\<lparr>st_pc := FirstFrame f, st_user := cm_UserId f,
      st_room := normalizeRoomID (cm_RoomId f), st_connected := True, st_heartbeat := is_redis (sv_presence s)\<rparr>"
    and b: "hub_Broadcast (presence_event (normalizeRoomID (cm_RoomId f)) (cm_UserId f) True 0) True t = Some s'"
    and t: "sv_hub t = Register (st_ctx st) (st_client st)
        (NewClient (cm_UserId f) (normalizeRoomID (cm_RoomId f)))
        (alloc (st_client st) (NewClient (cm_UserId f) (normalizeRoomID (cm_RoomId f))) (sv_hub s))"
    using out True by (auto simp: Chat_first_def Let_def split: sum.splits if_splits)
  note reg = Register_facts[OF h(1) heap refl, of "st_ctx st" "cm_UserId f" "normalizeRoomID (cm_RoomId f)",
      folded t]
  note bc = keeps_hubD[OF keeps_broadcast[OF reg(1) refl] b]
  show ?thesis
    using fr bc reg(2) h by (simp add: chat_inv_def in_service_def)
qed

lemma sender_pass_inv:
  assumes inv: "chat_inv (st, s)" and run: "st_connected st" "\<not> st_sender_done st"
    and out: "sender_pass E now ok st s = Some (st', s')"
  shows "chat_inv (st', s')"
proof -
  have h: "hub_inv (sv_hub s)" and serv: "in_service st" "in_room (sv_hub s) (st_room st) (st_client st)"
    using inv run by (auto simp: chat_inv_def)
  obtain c where c: "h_heap (sv_hub s) (st_client st) = Some c" "client_ok (st_room st) c"
    using hub_inv_room[OF h serv(2)] by blast
  then have "fst (range_next (c_Send c)) \<noteq> RangeEnds"
    by (simp add: client_ok_def range_next_open)
  then obtain m ch where m: "range_next (c_Send c) = (Received m, ch)"
    using out c(1) by (auto simp: sender_pass_def split: prod.splits received.splits)
  have s': "sv_hub s' = alloc (st_client st) (c\<lparr>c_Send := ch\<rparr>) (sv_hub s)"
    "st' = (if ok then st\<lparr>st_sent := st_sent st @ [attach_url E now s m]\<rparr>
            else st\<lparr>st_sender_done := True, st_send_failed := True\<rparr>)"
    using out c(1) m by (auto simp: sender_pass_def Let_def)
  have "client_ok (st_room st) (c\<lparr>c_Send := ch\<rparr>)"
    using c(2) m by (auto simp: client_ok_def chan_ok_def range_next_def split: list.splits if_splits)
  then have "hub_inv (sv_hub s')"
    unfolding s'(1) by (intro hub_inv_alloc[OF h]) (use in_room_unique[OF h serv(2)] in blast)
  moreover have "in_room (sv_hub s') = in_room (sv_hub s)"
    unfolding s'(1) by (simp add: in_room_def fun_eq_iff)
  ultimately show ?thesis
    using inv serv run s'(2) by (auto simp: chat_inv_def in_service_def)
qed

lemma Chat_cleanup_facts:
  assumes h: "hub_inv (sv_hub s)" and room: "in_room (sv_hub s) r (st_client st)"
  obtains s' where "Chat_cleanup clk st s = Some s'" "hub_inv (sv_hub s')"
    "registered (sv_hub s') = registered (sv_hub s) - {st_client st}"
    "sv_presence s' = SetOnline (toUnixMilli (clk 0)) (st_user st) False (sv_presence s)"
    "h_connCnt (sv_hub s') = h_connCnt (sv_hub s) - 1"
proof -
  obtain c where c: "h_heap (sv_hub s) (st_client st) = Some c" using hub_inv_room[OF h room] by blast
  obtain k where k: "Unregister (st_client st) c (sv_hub s) = Some k" "hub_inv k"
    "registered k = registered (sv_hub s) - {st_client st}" "h_connCnt k = h_connCnt (sv_hub s) - 1"
    by (rule Unregister_facts[OF h room c])
  let ?t = "s\<lparr>sv_hub := k, sv_presence := SetOnline (toUnixMilli (clk 0)) (st_user st) False (sv_presence s)\<rparr>"
  let ?m = "presence_event (st_room st) (st_user st) False (toUnixMilli (clk 1))"
  have "hub_inv (sv_hub ?t)" using k(2) by simp
  then obtain h' where h': "hub_Broadcast ?m True ?t = Some (?t\<lparr>sv_hub := h'\<rparr>)"
    "Broadcast ?m True (sv_hub ?t) = Some h'" "hub_inv h'" "in_room h' = in_room (sv_hub ?t)"
    by (rule hub_Broadcast_ok[of ?t ?m True])
  have "h_connCnt h' = h_connCnt k" using Broadcast_frame(2)[OF k(2), of ?m True h'] h'(2) by simp
  moreover have "registered h' = registered k" using h'(4) by (simp add: registered_def)
  ultimately show ?thesis
    using that[of "?t\<lparr>sv_hub := h'\<rparr>"] c k h' by (simp add: Chat_cleanup_def Let_def)
qed

lemma chat_inv_act:
  assumes "chat_act E x y" "chat_inv x"
  shows "chat_inv y"
  using assms
proof (induction rule: chat_act.induct)
  case (enter st s)
  then show ?case by (auto simp: Chat_enter_def chat_inv_def in_service_def)
next
  case (first st s clk frame out)
  then show ?case by (cases out) (simp add: Chat_first_inv)
next
  case (first_frame st inp clk s s')
  then show ?case using processIncoming_facts[of s E clk inp s']
    by (auto simp: chat_inv_def in_service_def)
next
  case (recv st clk inp s s')
  then show ?case using processIncoming_facts[of s E clk inp s']
    by (auto simp: chat_inv_def in_service_def)
next
  case (recv_err st s e)
  then show ?case by (auto simp: chat_inv_def in_service_def)
next
  case (sender st now ok s out)
  then show ?case by (cases out) (simp add: sender_pass_inv)
next
  case (finish st e clk s s')
  have h: "hub_inv (sv_hub s)" using finish by (simp add: chat_inv_def)
  have serv: "in_service st" using finish by (simp add: chat_inv_def in_service_def)
  then have room: "in_room (sv_hub s) (st_room st) (st_client st)" using finish by (simp add: chat_inv_def)
  have "hub_inv (sv_hub s')"
    by (rule Chat_cleanup_facts[OF h room, of clk]) (use finish(3) in simp)
  then show ?case using finish serv by (auto simp: chat_inv_def in_service_def)
qed

lemma chat_inv_step:
  assumes "chat_step E x y" "chat_inv x"
  shows "chat_inv y"
  using assms
proof (induction rule: chat_step.induct)
  case (act x y)
  then show ?case by (rule chat_inv_act)
next
  case (other s' s st)
  then show ?case by (auto simp: chat_inv_def)
qed

lemma reachable_chat_inv: "chat_reachable E x \<Longrightarrow> chat_inv x"
proof (induction rule: chat_reachable.induct)
  case (start s p ctx)
  then show ?case by (simp add: chat_inv_def in_service_def new_stream_def)
next
  case (step x y)
  then show ?case using chat_inv_step by blast
qed

section \<open>A short run\<close>

definition demo_stream :: chat_stream where
  "demo_stream = (new_stream 7 1)\<lparr>st_pc := AwaitFirst\<rparr>"

definition demo_pod :: "(room_json keyspace, string keyspace) ChatServer" where
  "demo_pod = demo_server\<lparr>sv_hub := NewHubWithLimit 0\<rparr>"

lemma demo_stream_reachable: "chat_reachable E (demo_stream, demo_pod)"
proof -
  have "hub_inv (sv_hub demo_pod)" by (simp add: demo_pod_def hub_inv_new)
  then have "chat_reachable E (new_stream 7 1, demo_pod)" by (rule chat_reachable.start)
  moreover have "chat_step E (new_stream 7 1, demo_pod) (Chat_enter demo_pod (new_stream 7 1), demo_pod)"
    by (intro chat_step.act chat_act.enter) (simp add: new_stream_def)
  moreover have "Chat_enter demo_pod (new_stream 7 1) = demo_stream"
    by (simp add: Chat_enter_def AtCapacity_def demo_pod_def NewHubWithLimit_def demo_stream_def)
  ultimately show ?thesis using chat_reachable.step by metis
qed

lemma demo_connected:
  "\<exists>s'. Chat_first (\<lambda>_. 0) (Inr demo_frame) demo_stream demo_pod = Some (demo_stream\<lparr>st_pc := FirstFrame demo_frame,
      st_user := ''u'', st_room := normalizeRoomID ''r'', st_connected := True\<rparr>, s')
     \<and> chat_reachable E (demo_stream\<lparr>st_pc := FirstFrame demo_frame,
      st_user := ''u'', st_room := normalizeRoomID ''r'', st_connected := True\<rparr>, s')"
proof -
  let ?c = "NewClient ''u'' (normalizeRoomID ''r'')"
  let ?h = "Register 1 7 ?c (alloc 7 ?c (NewHubWithLimit 0))"
  let ?t = "demo_pod\<lparr>sv_hub := ?h, sv_presence := SetOnline 0 ''u'' True (sv_presence demo_pod)\<rparr>"
  have "h_heap (NewHubWithLimit 0) 7 = None" by (simp add: NewHubWithLimit_def)
  then have "hub_inv (sv_hub ?t)" using Register_facts(1)[OF hub_inv_new] by simp
  then obtain h where "hub_Broadcast (presence_event (normalizeRoomID ''r'') ''u'' True 0) True ?t = Some (?t\<lparr>sv_hub := h\<rparr>)"
    by (rule hub_Broadcast_ok)
  moreover have "st_client demo_stream = 7" "st_ctx demo_stream = 1" "\<not> st_heartbeat demo_stream"
    "\<not> is_redis (sv_presence demo_pod)" "sv_hub demo_pod = NewHubWithLimit 0"
    by (simp_all add: demo_stream_def new_stream_def demo_pod_def demo_server_def NewChatServer_def is_redis_def)
  ultimately have first: "\<exists>s'. Chat_first (\<lambda>_. 0) (Inr demo_frame) demo_stream demo_pod
      = Some (demo_stream\<lparr>st_pc := FirstFrame demo_frame, st_user := ''u'', st_room := normalizeRoomID ''r'',
          st_connected := True\<rparr>, s')"
    by (simp add: Chat_first_def demo_frame_def ClientMessage_zero_def toUnixMilli_def Let_def)
  then obtain s' where s': "Chat_first (\<lambda>_. 0) (Inr demo_frame) demo_stream demo_pod
      = Some (demo_stream\<lparr>st_pc := FirstFrame demo_frame, st_user := ''u'', st_room := normalizeRoomID ''r'',
          st_connected := True\<rparr>, s')" by blast
  have "st_pc demo_stream = AwaitFirst" "h_heap (sv_hub demo_pod) (st_client demo_stream) = None"
    by (simp_all add: demo_stream_def demo_pod_def NewHubWithLimit_def)
  from chat_step.act[OF chat_act.first[OF this s', of E]] s' show ?thesis
    using chat_reachable.step[OF demo_stream_reachable] by blast
qed

section \<open>Properties\<close>

text \<open>From its registration until it returns, a stream's client is registered in the canonical room
  of the first frame, so no broadcast to the room passes it by; the clean-up unregisters exactly
  this client, counts it out and marks the user offline, and cannot panic.\<close>

lemma stream_registered_while_served:
  assumes "chat_reachable E (st, s)" "in_service st"
  shows "in_room (sv_hub s) (st_room st) (st_client st)
    \<and> (\<exists>s'. Chat_cleanup clk st s = Some s' \<and> hub_inv (sv_hub s')
         \<and> registered (sv_hub s') = registered (sv_hub s) - {st_client st}
         \<and> h_connCnt (sv_hub s') = h_connCnt (sv_hub s) - 1
         \<and> sv_presence s' = SetOnline (toUnixMilli (clk 0)) (st_user st) False (sv_presence s))"
proof -
  have h: "hub_inv (sv_hub s)" and room: "in_room (sv_hub s) (st_room st) (st_client st)"
    using reachable_chat_inv[OF assms(1)] assms(2) by (auto simp: chat_inv_def)
  show ?thesis by (rule Chat_cleanup_facts[OF h room, of clk]) (use room in blast)
qed

text \<open>C37. A stream that has connected returns only after a send to its client has failed. When the
  client has stopped sending, the handler waits for its sender goroutine, which waits on a channel
  that only the deferred clean-up of the handler itself closes; until some broadcast reaches the
  room and cannot be sent, the client stays registered.\<close>

theorem stream_returns_only_after_failed_send:
  assumes "chat_reachable E (st, s)" "st_connected st"
  shows "(st_pc st = Returned res \<longrightarrow> st_send_failed st)
    \<and> (\<not> st_send_failed st \<longrightarrow> in_room (sv_hub s) (st_room st) (st_client st) \<and> Chat_cleanup clk st s \<noteq> None)"
proof -
  have inv: "chat_inv (st, s)" by (rule reachable_chat_inv[OF assms(1)])
  have "in_room (sv_hub s) (st_room st) (st_client st) \<and> Chat_cleanup clk st s \<noteq> None"
    if nf: "\<not> st_send_failed st"
  proof -
    have serv: "in_service st" using inv nf assms(2) by (auto simp: chat_inv_def)
    then have h: "hub_inv (sv_hub s)" and room: "in_room (sv_hub s) (st_room st) (st_client st)"
      using inv by (auto simp: chat_inv_def)
    show ?thesis by (rule Chat_cleanup_facts[OF h room, of clk]) (use room in simp)
  qed
  moreover have "st_pc st = Returned res \<longrightarrow> st_send_failed st"
    using inv assms(2) by (auto simp: chat_inv_def in_service_def)
  ultimately show ?thesis by blast
qed

theorem stream_returns_only_after_failed_send_witness:
  "\<exists>st (s :: (room_json keyspace, string keyspace) ChatServer). chat_reachable demo_env (st, s) \<and> st_connected st \<and> \<not> st_send_failed st
     \<and> in_room (sv_hub s) (st_room st) (st_client st)"
proof -
  let ?st = "demo_stream\<lparr>st_pc := FirstFrame demo_frame, st_user := ''u'', st_room := normalizeRoomID ''r'',
      st_connected := True\<rparr>"
  obtain s' :: "(room_json keyspace, string keyspace) ChatServer" where r: "chat_reachable demo_env (?st, s')" using demo_connected[of demo_env] by blast
  have c: "st_connected ?st" "\<not> st_send_failed ?st" by (simp_all add: demo_stream_def new_stream_def)
  with stream_returns_only_after_failed_send[OF r c(1)] r show ?thesis by blast
qed

text \<open>A stream that enters while the pod is at its limit is refused with \<open>ResourceExhausted\<close>; but the
  limit is checked before the first frame and the counter moves at the registration, so two streams
  that enter together both pass the check and the counter ends above the limit.\<close>

lemma capacity_check_then_act:
  assumes "0 < h_maxConns h" "h_connCnt h = h_maxConns h - 1" "sv_hub s = h" "st_pc st = Entering"
    and full: "sv_hub s1 = Register c1 p1 d1 h"
  shows "st_pc (Chat_enter s st) = AwaitFirst
    \<and> h_connCnt (Register c2 p2 d2 (Register c1 p1 d1 h)) = h_maxConns h + 1
    \<and> (\<exists>msg. st_pc (Chat_enter s1 st) = Returned (StatusError ResourceExhausted msg))"
proof -
  have "h_maxConns (Register c1 p1 d1 h) = h_maxConns h"
    by (simp add: Register_def connCnt_Add_def register_locked_def Let_def split: option.split)
  moreover have "h_connCnt (Register c1 p1 d1 h) = h_maxConns h" using assms(2) by (simp add: Register_def)
  ultimately show ?thesis using assms by (simp add: Chat_enter_def AtCapacity_def Register_def)
qed

end
