(* ===== verification/Main_Wiring.thy ===== *)
theory Main_Wiring
  imports Config Auth Chat_Stream
begin

text \<open>
  \<open>cmd/server/main.go\<close> and \<open>app/logger\<close>: which components \<open>main\<close> builds from a configuration
  and the outcomes of the connection attempts, and its life from serving to the end of the shutdown.

  \<open>boot\<close> holds those outcomes. \<open>Fatal\<close> is \<open>log.Fatal\<close>, \<open>Panicked\<close> the panic on a
  configuration error.
\<close>

section \<open>Definitions\<close>

datatype level = DebugLevel | InfoLevel | WarnLevel | ErrorLevel | OtherLevel string

definition logger_New :: "(string \<Rightarrow> level go_result) \<Rightarrow> string \<Rightarrow> level" where
  "logger_New parse_level lvl =
     (case parse_level (ToLower lvl) of Inl _ \<Rightarrow> InfoLevel | Inr l \<Rightarrow> l)"

record ('f, 'k) boot =
  b_parse_url :: "string \<Rightarrow> redis_options option"
  b_s3_load :: "s3_load_option list \<Rightarrow> unit go_result"
  b_minio_connect :: "string \<Rightarrow> unit go_result"
  b_mongo_connect :: "string \<Rightarrow> unit mongo_result"
  b_mongo_ping :: "string \<Rightarrow> unit mongo_result"
  b_mongo_index :: "string \<Rightarrow> IndexModel list \<Rightarrow> unit mongo_result"
  b_pg_open :: "string \<Rightarrow> unit go_result"
  b_pg_ping :: "string \<Rightarrow> unit go_result"
  b_ddl_fail :: "ddl \<Rightarrow> string option"
  b_pg_objects :: "pg_object set"
  b_read_key :: "string \<Rightarrow> 'f go_result"
  b_pem_ok :: "'f \<Rightarrow> bool"
  b_parse_key :: "'f \<Rightarrow> 'k go_result"
  b_listen :: "string \<Rightarrow> unit go_result"

text \<open>What the running service consists of.\<close>

record 'k wired =
  w_broker :: broker_kind
  w_storage :: "Storage option"
  w_msgRepo :: "string option" \<comment> \<open>the database name\<close>
  w_pgRepo :: "string option" \<comment> \<open>the DSN\<close>
  w_redis :: "redis_options option" \<comment> \<open>behind presence and the fallback room store\<close>
  w_auth :: "'k AuthInterceptor option"
  w_maxConns :: int
  w_addr :: string

datatype 'k main_outcome = Panicked string | Fatal string | Up "'k wired"

definition main_broker :: "('f, 'k) boot \<Rightarrow> environ \<Rightarrow> Config \<Rightarrow> redis_options option \<Rightarrow> broker_kind" where
  "main_broker B env cfg redisClient =
     (let b = (case NewRedisBrokerFromClient redisClient of None \<Rightarrow> NoopBroker | Some rb \<Rightarrow> rb);
          brokers = KafkaBrokers env cfg
      in if length brokers > 0
         then case NewKafkaBroker \<lparr>kc_Brokers = brokers, kc_Topic = cf_KafkaTopic cfg,
                     kc_GroupID = cf_KafkaGroupID cfg, kc_Partition = 0\<rparr> of
                Inl _ \<Rightarrow> b | Inr _ \<Rightarrow> KafkaBrokerKind
         else b)"

text \<open>The outcome of \<open>EnsureBucket\<close>, which \<open>main\<close> runs on a MinIO storage, is only logged.\<close>

definition main_storage :: "('f, 'k) boot \<Rightarrow> Config \<Rightarrow> Storage option go_result" where
  "main_storage B cfg =
     (let backend = ToLower (cf_StorageBackend cfg)
      in if backend = ''cloudinary'' then
           Inr (map_option Cloudinary (NewCloudinaryStorage (cf_CloudinaryCloudName cfg)
                  (cf_CloudinaryAPIKey cfg) (cf_CloudinaryAPISecret cfg)))
         else if backend = ''s3'' then
           (if cf_S3Bucket cfg = [] then Inr None
            else case NewS3Storage (b_s3_load B)
                        \<lparr>s3_Bucket = cf_S3Bucket cfg, s3_Region = cf_S3Region cfg,
                         s3_Endpoint = cf_S3Endpoint cfg, s3_AccessKeyID = cf_S3AccessKeyID cfg,
                         s3_SecretAccessKey = cf_S3SecretAccessKey cfg,
                         s3_ForcePathStyle = cf_S3ForcePathStyle cfg\<rparr> of
                   Inl _ \<Rightarrow> Inl ''failed to initialise S3 storage''
                 | Inr st \<Rightarrow> Inr (map_option S3 st))
         else if cf_MinioEndpoint cfg = [] then Inr None
         else case NewMinioStorage (b_minio_connect B) (cf_MinioEndpoint cfg) (cf_MinioAccessKey cfg)
                     (cf_MinioSecretKey cfg) (cf_MinioBucket cfg) (cf_MinioUseSSL cfg) of
                Inl _ \<Rightarrow> Inl ''failed to initialise MinIO storage''
              | Inr st \<Rightarrow> Inr (map_option Minio st))"

definition main_msgRepo :: "('f, 'k) boot \<Rightarrow> Config \<Rightarrow> string option" where
  "main_msgRepo B cfg =
     (if cf_MongoURI cfg \<noteq> []
      then case NewMessageRepository (b_mongo_connect B) (b_mongo_ping B) (b_mongo_index B)
                  (cf_MongoURI cfg) (cf_MongoDB cfg) of
             Inl _ \<Rightarrow> None | Inr (db, _) \<Rightarrow> Some db
      else None)"

definition main_pgRepo :: "('f, 'k) boot \<Rightarrow> Config \<Rightarrow> string option" where
  "main_pgRepo B cfg =
     (let dsn = PostgresDSNBuilt cfg
      in if dsn = [] then None
         else case NewRoomRepository (b_pg_open B) (b_pg_ping B) dsn of
                Inl _ \<Rightarrow> None
              | Inr _ \<Rightarrow> (case fst (Migrate (b_ddl_fail B) (b_pg_objects B)) of
                            Some _ \<Rightarrow> None | None \<Rightarrow> Some dsn))"

definition main_auth :: "('f, 'k) boot \<Rightarrow> Config \<Rightarrow> 'k AuthInterceptor option" where
  "main_auth B cfg =
     (if cf_JWTDisabled cfg then None
      else case NewAuthInterceptor (b_read_key B) (b_pem_ok B) (b_parse_key B)
                  (cf_JWTPublicKeyPath cfg) (cf_JWTAudience cfg) (cf_JWTIssuer cfg) of
             Inl _ \<Rightarrow> None
           | Inr a \<Rightarrow> Some a)"

text \<open>Listening, and the goroutine that serves: \<open>served\<close> is what \<open>Serve\<close> returns in the end, nil
  after a stop.\<close>

definition main_listen :: "('f, 'k) boot \<Rightarrow> 'k wired \<Rightarrow> 'k main_outcome" where
  "main_listen B w = (case b_listen B (w_addr w) of Inl _ \<Rightarrow> Fatal ''failed to listen'' | Inr _ \<Rightarrow> Up w)"

definition main_serve :: "unit go_result \<Rightarrow> 'k wired \<Rightarrow> 'k main_outcome" where
  "main_serve served w = (case served of Inl _ \<Rightarrow> Fatal ''server error'' | Inr _ \<Rightarrow> Up w)"

definition main_wire :: "('f, 'k) boot \<Rightarrow> environ \<Rightarrow> Config go_result \<Rightarrow> 'k main_outcome" where
  "main_wire B env loaded =
     (case loaded of
        Inl e \<Rightarrow> Panicked e
      | Inr cfg \<Rightarrow>
          (let redisClient = NewRedisClient (b_parse_url B) (cf_RedisURL cfg) (cf_RedisAddr cfg)
                               (cf_RedisPassword cfg)
           in case main_storage B cfg of
                Inl e \<Rightarrow> Fatal e
              | Inr st \<Rightarrow>
                  main_listen B \<lparr>w_broker = main_broker B env cfg redisClient, w_storage = st,
                           w_msgRepo = main_msgRepo B cfg, w_pgRepo = main_pgRepo B cfg,
                           w_redis = redisClient, w_auth = main_auth B cfg,
                           w_maxConns = cf_MaxConnsPerPod cfg, w_addr = Addr (cf_Port cfg)\<rparr>))"

text \<open>The hub and the handlers' state that the running service starts from.\<close>

definition main_server ::
  "'k wired \<Rightarrow> ('r, room_json) redis_ops \<Rightarrow> 'r \<Rightarrow> ('p, string) redis_ops \<Rightarrow> 'p \<Rightarrow> mongo_db \<Rightarrow> pg_db
   \<Rightarrow> ('r, 'p) ChatServer" where
  "main_server w rooms r pres p db pg =
     NewChatServer (NewHubWithLimit (w_maxConns w))
       (NewRoomStore (if w_redis w = None then None else Some rooms) r)
       (if w_pgRepo w = None then None else Some pg)
       (if w_msgRepo w = None then None else Some db)
       (w_storage w)
       (Some (if w_redis w = None then LocalPresenceStore NewLocalPresenceStore
              else RedisPresenceStore pres p))"

text \<open>The chain of a unary call in the running service: the interceptor only if there is one.\<close>

definition serve_unary ::
  "'k jwt_parse \<Rightarrow> 'k wired \<Rightarrow> string \<Rightarrow> ('q, 'r, 's) unary_handler \<Rightarrow> rpc_context \<Rightarrow> 'q rpc_result \<Rightarrow> 's
   \<Rightarrow> 'r rpc_result \<times> 's" where
  "serve_unary parse w fullMethod call ctx decode s =
     ChatService_Handler fullMethod call (map_option (UnaryServerInterceptor parse) (w_auth w)) ctx decode s"

text \<open>The chain of the one stream, in the running service: \<open>grpc.StreamInterceptor\<close> is set with the unary
  one.\<close>

definition serve_stream :: "'k jwt_parse \<Rightarrow> 'k wired \<Rightarrow> 's stream_handler \<Rightarrow> rpc_context \<Rightarrow> 's \<Rightarrow> unit rpc_result \<times> 's" where
  "serve_stream parse w chat ctx s =
     (case w_auth w of
        None \<Rightarrow> chat ctx s
      | Some a \<Rightarrow> StreamServerInterceptor parse a ctx ChatService_Chat_FullMethodName chat s)"

datatype stop_action = GracefulStop | Stop | CloseMsgRepo mongo_call | ClosePgRepo

text \<open>\<open>Close\<close> of the room repository closes the connection pool.\<close>

definition RoomRepository_Close :: "stop_action list" where
  "RoomRepository_Close = [ClosePgRepo]"

text \<open>The running process: the main goroutine waits for a signal, starts the graceful stop in a goroutine
  and waits for its end or for five seconds; the serving goroutine ends the process when \<open>Serve\<close>
  returns an error. Further signals stay in the channel's one slot or are dropped. Events that find
  no one waiting change nothing.\<close>

datatype main_event = SignalReceived | ServeReturned "unit go_result" | GracefulDone | DeadlinePassed

datatype main_phase = Running | Stopping | Exited | ExitedFatal

text \<open>What follows the end of the server.\<close>

definition main_closes :: "'k wired \<Rightarrow> stop_action list" where
  "main_closes w =
     (if w_msgRepo w \<noteq> None then map CloseMsgRepo (MessageRepository_Close (w_msgRepo w)) else [])
     @ (if w_pgRepo w \<noteq> None then RoomRepository_Close else [])"

fun main_on :: "'k wired \<Rightarrow> main_event \<Rightarrow> main_phase \<times> stop_action list \<Rightarrow> main_phase \<times> stop_action list" where
  "main_on w ev (Exited, acts) = (Exited, acts)"
| "main_on w ev (ExitedFatal, acts) = (ExitedFatal, acts)"
| "main_on w (ServeReturned res) (ph, acts) =
     (case main_serve res w of Fatal _ \<Rightarrow> (ExitedFatal, acts) | _ \<Rightarrow> (ph, acts))"
| "main_on w SignalReceived (Running, acts) = (Stopping, acts @ [GracefulStop])"
| "main_on w GracefulDone (Stopping, acts) = (Exited, acts @ main_closes w)"
| "main_on w DeadlinePassed (Stopping, acts) = (Exited, acts @ [Stop] @ main_closes w)"
| "main_on w ev (ph, acts) = (ph, acts)"

definition main_run :: "'k wired \<Rightarrow> main_event list \<Rightarrow> main_phase \<times> stop_action list" where
  "main_run w evs = fold (main_on w) evs (Running, [])"

section \<open>Lemmas\<close>

lemma main_closes_eq:
  "main_closes w = (if w_msgRepo w = None then [] else [CloseMsgRepo Disconnect]) @ (if w_pgRepo w = None then [] else [ClosePgRepo])"
  by (auto simp: main_closes_def MessageRepository_Close_def RoomRepository_Close_def)

text \<open>What has been done in each phase.\<close>

definition phase_inv :: "'k wired \<Rightarrow> main_phase \<times> stop_action list \<Rightarrow> bool" where
  "phase_inv w pd = (case pd of
       (Running, acts) \<Rightarrow> acts = []
     | (Stopping, acts) \<Rightarrow> acts = [GracefulStop]
     | (Exited, acts) \<Rightarrow> True
     | (ExitedFatal, acts) \<Rightarrow> acts = [] \<or> acts = [GracefulStop])"

lemma phase_inv_on: "phase_inv w pd \<Longrightarrow> phase_inv w (main_on w ev pd)"
  by (induction w ev pd rule: main_on.induct) (auto simp: phase_inv_def main_serve_def split: sum.split)

lemma phase_inv_fold: "phase_inv w pd \<Longrightarrow> phase_inv w (fold (main_on w) evs pd)"
  by (induction evs arbitrary: pd) (simp_all add: phase_inv_on)

lemma exited_stays: "fst pd \<in> {Exited, ExitedFatal} \<Longrightarrow> fold (main_on w) evs pd = pd"
  by (induction evs) (cases pd; auto)+

text \<open>Without a serve error the process stays in \<open>Running\<close> until the first signal and then ends at the
  first of the two things it waits for.\<close>

definition stopped_in_time :: "main_event list \<Rightarrow> bool" where
  "stopped_in_time evs \<longleftrightarrow> GracefulDone \<in> set (takeWhile (\<lambda>e. e \<noteq> DeadlinePassed) evs)"

lemma stopping_run:
  assumes "\<forall>e. ServeReturned (Inl e) \<notin> set evs"
  shows "fold (main_on w) evs (Stopping, acts) =
    (if GracefulDone \<in> set evs \<or> DeadlinePassed \<in> set evs
     then (Exited, acts @ (if stopped_in_time evs then [] else [Stop]) @ main_closes w) else (Stopping, acts))"
  using assms
proof (induction evs)
  case (Cons ev evs)
  then show ?case
    by (cases ev) (auto simp: main_serve_def exited_stays stopped_in_time_def split: sum.split)
qed simp

lemma serving_run:
  "\<forall>e. ServeReturned (Inl e) \<notin> set evs \<Longrightarrow> SignalReceived \<notin> set evs \<Longrightarrow>
     fold (main_on w) evs (Running, acts) = (Running, acts)"
proof (induction evs)
  case (Cons ev evs)
  then show ?case by (cases ev) (auto simp: main_serve_def split: sum.split)
qed simp

lemma lead_Nil: "lead encs [] = None"
  by (auto simp: lead_None HasPrefix_def)

lemma TrimSpace_Nil: "TrimSpace [] = []"
  by (simp add: TrimSpace_def strip_lead_id lead_Nil)

lemma main_storage_not_noop: "main_storage B cfg = Inr (Some st) \<Longrightarrow> st \<noteq> NoopStorage"
  by (auto simp: main_storage_def Let_def split: if_splits sum.splits)

lemma main_server_ok: "hub_inv (sv_hub (main_server w rooms r pres p db pg))"
  by (simp add: main_server_def NewChatServer_def hub_inv_new)

lemma PostgresDSNBuilt_nonempty: "cf_PostgresHost c \<noteq> [] \<Longrightarrow> PostgresDSNBuilt c \<noteq> []"
  by (simp add: PostgresDSNBuilt_def Let_def)

section \<open>Properties\<close>

text \<open>C39. Authentication fails open: whenever the object storage can be wired and the port listened on, the
  service comes up, and it has an interceptor only if authentication is not disabled and the key file could
  be read and holds a key; without one, a call of any unary method and the chat stream run their handlers
  without any token being looked at. A key file that is missing or broken does not stop the service.\<close>

theorem auth_fails_open:
  assumes "main_storage B cfg = Inr st" "b_listen B (Addr (cf_Port cfg)) = Inr l"
  shows "\<exists>w. main_wire B env (Inr cfg) = Up w
    \<and> (w_auth w = None \<longleftrightarrow> cf_JWTDisabled cfg
        \<or> \<not> (\<exists>raw key. b_read_key B (cf_JWTPublicKeyPath cfg) = Inr raw \<and> b_pem_ok B raw \<and> b_parse_key B raw = Inr key))
    \<and> (w_auth w = None \<longrightarrow> serve_unary parse w m call ctx (Inr req) s = call ctx req s
        \<and> serve_stream parse w chat ctx t = chat ctx t)"
  using assms
  by (auto simp: main_wire_def main_listen_def main_auth_def NewAuthInterceptor_def serve_unary_def serve_stream_def
      ChatService_Handler_def Let_def split: sum.splits if_splits)

definition demo_boot :: "(unit, unit) boot" where
  "demo_boot = \<lparr>b_parse_url = (\<lambda>_. None), b_s3_load = (\<lambda>_. Inr ()), b_minio_connect = (\<lambda>_. Inr ()),
     b_mongo_connect = (\<lambda>_. Inr ()), b_mongo_ping = (\<lambda>_. Inr ()), b_mongo_index = (\<lambda>_ _. Inr ()), b_pg_open = (\<lambda>_. Inr ()),
     b_pg_ping = (\<lambda>_. Inr ()), b_ddl_fail = (\<lambda>_. None), b_pg_objects = {},
     b_read_key = (\<lambda>_. Inl ''open config/public.pem: no such file or directory''), b_pem_ok = (\<lambda>_. True),
     b_parse_key = (\<lambda>_. Inr ()), b_listen = (\<lambda>_. Inr ())\<rparr>"

lemma demo_boot_wires: "main_storage demo_boot Default = Inr None" "b_listen demo_boot a = Inr ()"
proof -
  have "ToLower ''minio'' = ''minio''" by (simp add: ToLower_def to_lower_def)
  then show "main_storage demo_boot Default = Inr None" by (simp add: main_storage_def Default_def)
qed (simp add: demo_boot_def)

lemma demo_boot_up: "\<exists>w. main_wire demo_boot (\<lambda>_. []) (Inr Default) = Up w"
  by (simp add: main_wire_def main_listen_def demo_boot_wires Let_def)

theorem auth_fails_open_witness:
  "\<exists>w. main_wire demo_boot (\<lambda>_. []) (Inr Default) = Up w \<and> w_auth w = None
     \<and> serve_unary (ref_parse Map.empty) w ''/chat.v1.ChatService/DeleteGroup''
           (\<lambda>c r n. (Inr (), n + (1::nat))) demo_ctx (Inr ()) 0 = (Inr (), 1)
     \<and> serve_stream (ref_parse Map.empty) w (\<lambda>c n. (Inr (), n + (1::nat))) demo_ctx 0 = (Inr (), 1)"
proof -
  have "b_read_key demo_boot p \<noteq> Inr raw" for p raw by (simp add: demo_boot_def)
  with auth_fails_open[OF demo_boot_wires, of "\<lambda>_. []" "ref_parse Map.empty" "''/chat.v1.ChatService/DeleteGroup''"
      "\<lambda>c r n. (Inr (), n + (1::nat))" demo_ctx "()" 0 "\<lambda>c n. (Inr (), n + (1::nat))" 0]
  show ?thesis by auto
qed

text \<open>C36. Shutdown is orderly and complete: the service serves until the first signal; then the server is
  stopped gracefully, or forcibly when that has not ended within five seconds; then the client of the
  message store is disconnected if there is one, then the Postgres pool closed if there is one, each once;
  nothing is closed before the server has stopped; and the process then does nothing more. Only an error
  of \<open>Serve\<close> cuts this short.\<close>

theorem shutdown_complete:
  assumes evs: "evs = xs @ SignalReceived # ys" "\<forall>e. ServeReturned (Inl e) \<notin> set evs"
    and "SignalReceived \<notin> set xs" "GracefulDone \<in> set ys \<or> DeadlinePassed \<in> set ys"
  shows "main_run w xs = (Running, [])
    \<and> main_run w (evs @ zs) = (Exited, [GracefulStop] @ (if stopped_in_time ys then [] else [Stop])
        @ (if w_msgRepo w = None then [] else [CloseMsgRepo Disconnect]) @ (if w_pgRepo w = None then [] else [ClosePgRepo]))
    \<and> (\<forall>k. fst (main_run w (take k evs)) \<noteq> Exited \<longrightarrow> set (snd (main_run w (take k evs))) \<subseteq> {GracefulStop})"
proof (intro conjI allI impI)
  let ?acts = "[GracefulStop] @ (if stopped_in_time ys then [] else [Stop])
    @ (if w_msgRepo w = None then [] else [CloseMsgRepo Disconnect]) @ (if w_pgRepo w = None then [] else [ClosePgRepo])"
  have xs: "fold (main_on w) xs (Running, []) = (Running, [])" using serving_run[of xs] assms by simp
  then show "main_run w xs = (Running, [])" by (simp add: main_run_def)
  have "fold (main_on w) ys (Stopping, [GracefulStop]) = (Exited, ?acts)"
    using stopping_run[of ys w "[GracefulStop]"] assms by (simp add: main_closes_eq)
  then show "main_run w (evs @ zs) = (Exited, ?acts)"
    by (simp add: main_run_def evs(1) xs exited_stays)
  show "set (snd (main_run w (take k evs))) \<subseteq> {GracefulStop}" if "fst (main_run w (take k evs)) \<noteq> Exited" for k
  proof (cases "main_run w (take k evs)")
    case (Pair ph acts)
    have "phase_inv w (ph, acts)" using phase_inv_fold[of w "(Running, [])" "take k evs"] Pair
      by (simp add: main_run_def) (simp add: phase_inv_def)
    then show ?thesis using that Pair by (cases ph) (auto simp: phase_inv_def)
  qed
qed

definition demo_wired :: "unit wired" where
  "demo_wired = \<lparr>w_broker = NoopBroker, w_storage = None, w_msgRepo = Some ''chat'', w_pgRepo = Some ''dsn'', w_redis = None,
     w_auth = None, w_maxConns = 0, w_addr = []\<rparr>"

theorem shutdown_complete_witness:
  "main_run demo_wired [SignalReceived, SignalReceived, DeadlinePassed, GracefulDone] =
     (Exited, [GracefulStop, Stop, CloseMsgRepo Disconnect, ClosePgRepo])"
  using shutdown_complete[of "[SignalReceived, SignalReceived, DeadlinePassed, GracefulDone]" "[]"
      "[SignalReceived, DeadlinePassed, GracefulDone]" demo_wired "[]"]
  by (simp add: stopped_in_time_def demo_wired_def)

text \<open>The wiring chooses what the configuration asks for and never a storage that always fails: a
  Kafka broker as soon as one broker address is given, else Redis when there is a client, else none;
  message history exactly when Mongo is configured and answers, with no in-memory substitute
  otherwise; the service starts with a well-formed hub.\<close>

lemma wiring_choices:
  assumes "main_wire B env (Inr cfg) = Up w"
  shows "w_broker w = (if KafkaBrokers env cfg \<noteq> [] then KafkaBrokerKind
       else case w_redis w of None \<Rightarrow> NoopBroker | Some c \<Rightarrow> RedisBroker c)
    \<and> w_storage w \<noteq> Some NoopStorage
    \<and> (w_msgRepo w = None \<longrightarrow> (\<forall>req. gmr_RoomId req \<noteq> [] \<longrightarrow> normalizeRoomID (gmr_RoomId req) \<noteq> [] \<longrightarrow>
         GetMessages E req (main_server w rooms r pres p db pg)
           = Some (Inr \<lparr>gmr_Messages = [], gmr_HasMore = False\<rparr>, main_server w rooms r pres p db pg)))
    \<and> (w_msgRepo w \<noteq> None \<longleftrightarrow> cf_MongoURI cfg \<noteq> []
         \<and> (\<exists>name. NewMessageRepository (b_mongo_connect B) (b_mongo_ping B) (b_mongo_index B) (cf_MongoURI cfg) (cf_MongoDB cfg) = Inr name))
    \<and> hub_inv (sv_hub (main_server w rooms r pres p db pg))
    \<and> sv_msgRepo (main_server w rooms r pres p db pg) = (if w_msgRepo w = None then None else Some db)"
proof -
  obtain st where st: "main_storage B cfg = Inr st"
    and w: "w_storage w = st" "w_msgRepo w = main_msgRepo B cfg"
      "w_broker w = main_broker B env cfg (w_redis w)"
    using assms by (auto simp: main_wire_def main_listen_def Let_def split: sum.splits)
  have "w_broker w = (if KafkaBrokers env cfg \<noteq> [] then KafkaBrokerKind
       else case w_redis w of None \<Rightarrow> NoopBroker | Some c \<Rightarrow> RedisBroker c)"
    unfolding w(3) by (auto simp: main_broker_def NewKafkaBroker_def NewRedisBrokerFromClient_def Let_def split: option.splits)
  moreover have "w_storage w \<noteq> Some NoopStorage" using main_storage_not_noop[of B cfg] st w(1) by auto
  moreover have "w_msgRepo w \<noteq> None \<longleftrightarrow> cf_MongoURI cfg \<noteq> []
      \<and> (\<exists>name. NewMessageRepository (b_mongo_connect B) (b_mongo_ping B) (b_mongo_index B) (cf_MongoURI cfg) (cf_MongoDB cfg) = Inr name)"
    by (simp add: w(2) main_msgRepo_def split: sum.splits)
  moreover have "sv_msgRepo (main_server w rooms r pres p db pg) = (if w_msgRepo w = None then None else Some db)"
    by (simp add: main_server_def NewChatServer_def)
  ultimately show ?thesis by (simp add: main_server_ok GetMessages_def)
qed

end
