(* ===== verification/Hub_Broker.thy ===== *)
theory Hub_Broker
  imports Hub
begin

text \<open>
  The interface between \<open>app/chat/hub.go\<close> and a broker, and the goroutine \<open>forwardFromBroker\<close> that
  the hub starts for every room.

  The hub records the calls it makes; \<open>run_calls\<close> runs them on a broker. The locale \<open>hub_broker\<close> is
  what the hub needs of a broker; its lemma is that hub and broker stay in step: after every step of
  the hub, the broker holds exactly one subscription for every room of the table.
\<close>

section \<open>Calls\<close>

fun run_calls :: "(broker_call \<Rightarrow> 'b \<Rightarrow> 'b option) \<Rightarrow> broker_call list \<Rightarrow> 'b \<Rightarrow> 'b option" where
  "run_calls call [] x = Some x"
| "run_calls call (c # cs) x = (case call c x of None \<Rightarrow> None | Some y \<Rightarrow> run_calls call cs y)"

definition new_calls :: "Hub \<Rightarrow> Hub \<Rightarrow> broker_call list" where
  "new_calls h h' = drop (length (h_calls h)) (h_calls h')"

text \<open>What the two locked regions of the hub ask of the broker.\<close>

lemma register_calls:
  assumes "hub_inv h"
  shows "(\<exists>r. shard_lookup (h_shards h) (c_RoomID c) = Some r
      \<and> h_calls (register_locked ctx p c h) = h_calls h
      \<and> h_nextsub (register_locked ctx p c h) = h_nextsub h
      \<and> shard_lookup (h_shards (register_locked ctx p c h)) =
          (shard_lookup (h_shards h))(c_RoomID c \<mapsto> r\<lparr>r_clients := List.insert p (r_clients r)\<rparr>))
    \<or> (shard_lookup (h_shards h) (c_RoomID c) = None
      \<and> h_calls (register_locked ctx p c h) = h_calls h @ [CallSubscribe ctx (c_RoomID c) (h_nextsub h)]
      \<and> h_nextsub (register_locked ctx p c h) = Suc (h_nextsub h)
      \<and> shard_lookup (h_shards (register_locked ctx p c h)) =
          (shard_lookup (h_shards h))(c_RoomID c \<mapsto> \<lparr>r_clients = [p], r_sub = h_nextsub h\<rparr>))"
  using assms
  by (cases "shard_lookup (h_shards h) (c_RoomID c)")
    (auto simp: register_locked_def Let_def table_simps fun_eq_iff)

lemma unregister_calls:
  assumes "hub_inv h" "shard_lookup (h_shards h) (c_RoomID c) = Some r" "unregister_locked p c h = Some h'"
  shows "h_nextsub h' = h_nextsub h \<and>
    ((h_calls h' = h_calls h @ [CallCancel (r_sub r)]
        \<and> shard_lookup (h_shards h') = (shard_lookup (h_shards h))(c_RoomID c := None))
     \<or> (h_calls h' = h_calls h
        \<and> (\<exists>r'. r_sub r' = r_sub r \<and> shard_lookup (h_shards h') = (shard_lookup (h_shards h))(c_RoomID c \<mapsto> r'))))"
  using assms
  by (auto simp: unregister_locked_def Let_def table_simps fun_eq_iff split: option.splits if_splits)

text \<open>A step of the hub makes at most one call.\<close>

lemma hub_step_calls:
  assumes hub: "hub_inv (hs_hub s)" and st: "hub_step s t"
  obtains
    (none) "h_calls (hs_hub t) = h_calls (hs_hub s)" "h_nextsub (hs_hub t) = h_nextsub (hs_hub s)"
      "\<And>room. map_option r_sub (shard_lookup (h_shards (hs_hub t)) room) =
         map_option r_sub (shard_lookup (h_shards (hs_hub s)) room)"
  | (opens) ctx room r where "shard_lookup (h_shards (hs_hub s)) room = None"
      "h_calls (hs_hub t) = h_calls (hs_hub s) @ [CallSubscribe ctx room (h_nextsub (hs_hub s))]"
      "h_nextsub (hs_hub t) = Suc (h_nextsub (hs_hub s))"
      "shard_lookup (h_shards (hs_hub t)) = (shard_lookup (h_shards (hs_hub s)))(room \<mapsto> r)" "r_sub r = h_nextsub (hs_hub s)"
  | (closes) room r where "shard_lookup (h_shards (hs_hub s)) room = Some r"
      "h_calls (hs_hub t) = h_calls (hs_hub s) @ [CallCancel (r_sub r)]" "h_nextsub (hs_hub t) = h_nextsub (hs_hub s)"
      "shard_lookup (h_shards (hs_hub t)) = (shard_lookup (h_shards (hs_hub s)))(room := None)"
  | (publishes) room data where "h_calls (hs_hub t) = h_calls (hs_hub s) @ [CallPublish room data]"
      "h_nextsub (hs_hub t) = h_nextsub (hs_hub s)"
      "shard_lookup (h_shards (hs_hub t)) = shard_lookup (h_shards (hs_hub s))"
proof -
  let ?h = "hs_hub s"
  from st show ?thesis
  proof (cases rule: hub_step.cases)
    case (connect p c u r ctx)
    have "hub_inv (alloc p c ?h)"
      using unregistered_fresh[OF hub connect(2)] by (intro hub_inv_alloc[OF hub]) (auto simp: registered_def)
    from register_calls[OF this, of c ctx p] connect(1) show ?thesis
      using none opens[of "c_RoomID c" ctx] by (auto simp: alloc_def)
  next
    case (disconnect p c h)
    obtain x where x: "shard_lookup (h_shards ?h) (c_RoomID c) = Some x"
      using registered_client[OF hub disconnect(2)] disconnect(3) by (auto simp: in_room_def)
    have "unregister_locked p c ?h = Some (hs_hub t)" using disconnect(1,4) by simp
    from unregister_calls[OF hub x this] show ?thesis using none closes[OF x] x by auto
  next
    case (broadcast msg pub h)
    then show ?thesis using none publishes unfolding Broadcast_spec[OF hub] by (cases pub) auto
  next
    case (forward now raw h)
    then show ?thesis using none by (auto simp: forwardFromBroker_def Broadcast_spec[OF hub] split: option.splits)
  qed (use none in \<open>auto simp: connCnt_Add_def alloc_def\<close>)
qed

section \<open>The interface\<close>

text \<open>\<open>subs\<close> are the subscriptions a broker holds for a room, \<open>next\<close> is the number of its next one. A
  room's table entry and the broker agree when the room's subscription is the only one.\<close>

definition subs_match :: "shards \<Rightarrow> (string \<Rightarrow> nat list) \<Rightarrow> bool" where
  "subs_match sh subs \<longleftrightarrow> (\<forall>room. subs room = (case shard_lookup sh room of None \<Rightarrow> [] | Some r \<Rightarrow> [r_sub r]))"

locale hub_broker =
  fixes call :: "broker_call \<Rightarrow> 'b \<Rightarrow> 'b option"
    and subs :: "'b \<Rightarrow> string \<Rightarrow> nat list"
    and nxt :: "'b \<Rightarrow> nat"
    and invar :: "'b \<Rightarrow> bool"
  assumes subscribe: "invar b \<Longrightarrow> \<exists>b'. call (CallSubscribe ctx room (nxt b)) b = Some b' \<and> invar b'
      \<and> nxt b' = Suc (nxt b) \<and> subs b' = (subs b)(room := subs b room @ [nxt b])"
    and cancel: "invar b \<Longrightarrow> sub \<in> set (subs b room) \<Longrightarrow> \<exists>b'. call (CallCancel sub) b = Some b' \<and> invar b'
      \<and> nxt b' = nxt b \<and> subs b' = (subs b)(room := remove1 sub (subs b room))"
    and publish: "invar b \<Longrightarrow> \<exists>b'. call (CallPublish room data) b = Some b' \<and> invar b'
      \<and> nxt b' = nxt b \<and> subs b' = subs b"
begin

definition in_step :: "Hub \<Rightarrow> 'b \<Rightarrow> bool" where
  "in_step h b \<longleftrightarrow> invar b \<and> h_nextsub h = nxt b \<and> subs_match (h_shards h) (subs b)"

lemma in_step_quiet:
  assumes "in_step h b" "h_calls h' = h_calls h" "h_nextsub h' = h_nextsub h"
    and "\<And>room. map_option r_sub (shard_lookup (h_shards h') room) = map_option r_sub (shard_lookup (h_shards h) room)"
  shows "run_calls call (new_calls h h') b = Some b \<and> in_step h' b"
proof -
  have "(case shard_lookup (h_shards h') room of None \<Rightarrow> [] | Some r \<Rightarrow> [r_sub r]) =
      (case shard_lookup (h_shards h) room of None \<Rightarrow> [] | Some r \<Rightarrow> [r_sub r])" for room
    using assms(4)[of room]
    by (cases "shard_lookup (h_shards h') room"; cases "shard_lookup (h_shards h) room") simp_all
  then show ?thesis using assms(1-3) by (simp add: new_calls_def in_step_def subs_match_def)
qed

lemma in_step_subscribe:
  assumes b: "in_step h b" and new: "shard_lookup (h_shards h) room = None"
    and h': "h_calls h' = h_calls h @ [CallSubscribe ctx room (h_nextsub h)]" "h_nextsub h' = Suc (h_nextsub h)"
      "shard_lookup (h_shards h') = (shard_lookup (h_shards h))(room \<mapsto> r)" "r_sub r = h_nextsub h"
  shows "\<exists>b'. run_calls call (new_calls h h') b = Some b' \<and> in_step h' b'"
proof -
  have i: "invar b" and n: "h_nextsub h = nxt b" and m: "subs_match (h_shards h) (subs b)"
    using b by (simp_all add: in_step_def)
  obtain b' where b': "call (CallSubscribe ctx room (nxt b)) b = Some b'" "invar b'" "nxt b' = Suc (nxt b)"
    "subs b' = (subs b)(room := subs b room @ [nxt b])" using subscribe[OF i] by blast
  have "subs b room = []" using m new by (simp add: subs_match_def)
  then have "subs_match (h_shards h') (subs b')" using m h'(3,4) b'(4) n by (simp add: subs_match_def)
  then show ?thesis using b' h'(1,2) n by (simp add: new_calls_def in_step_def)
qed

lemma in_step_cancel:
  assumes b: "in_step h b" and old: "shard_lookup (h_shards h) room = Some r"
    and h': "h_calls h' = h_calls h @ [CallCancel (r_sub r)]" "h_nextsub h' = h_nextsub h"
      "shard_lookup (h_shards h') = (shard_lookup (h_shards h))(room := None)"
  shows "\<exists>b'. run_calls call (new_calls h h') b = Some b' \<and> in_step h' b'"
proof -
  have i: "invar b" and n: "h_nextsub h = nxt b" and m: "subs_match (h_shards h) (subs b)"
    using b by (simp_all add: in_step_def)
  have sub: "subs b room = [r_sub r]" using m old by (simp add: subs_match_def)
  obtain b' where b': "call (CallCancel (r_sub r)) b = Some b'" "invar b'" "nxt b' = nxt b"
    "subs b' = (subs b)(room := remove1 (r_sub r) (subs b room))" using cancel[OF i, of "r_sub r" room] sub by auto
  have "subs_match (h_shards h') (subs b')" using m h'(3) b'(4) sub by (simp add: subs_match_def)
  then show ?thesis using b' h'(1,2) n by (simp add: new_calls_def in_step_def)
qed

text \<open>Whatever the hub does, its calls succeed and both are in step again.\<close>

lemma in_step_follows:
  assumes hub: "hub_inv (hs_hub s)" and b: "in_step (hs_hub s) b" and st: "hub_step s t"
  shows "\<exists>b'. run_calls call (new_calls (hs_hub s) (hs_hub t)) b = Some b' \<and> in_step (hs_hub t) b'"
  using hub st
proof (cases rule: hub_step_calls)
  case none
  then show ?thesis using in_step_quiet[OF b] by blast
next
  case (opens ctx room r)
  then show ?thesis by (intro in_step_subscribe[OF b])
next
  case (closes room r)
  then show ?thesis by (intro in_step_cancel[OF b])
next
  case (publishes room data)
  have "invar b" using b by (simp add: in_step_def)
  then obtain b' where "call (CallPublish room data) b = Some b'" "invar b'" "nxt b' = nxt b" "subs b' = subs b"
    using publish by blast
  then show ?thesis using publishes b by (auto simp: new_calls_def in_step_def subs_match_def)
qed

end

section \<open>The forwarding goroutine\<close>

text \<open>The message a pod forwards: the decoded one, with its delivery time filled in if it has none;
  and the record a pod writes to the topic for a message it broadcasts.\<close>

definition stamp :: "int \<Rightarrow> ServerMessage \<Rightarrow> ServerMessage" where
  "stamp now m = (if sm_DeliveredAtUnixMs m = 0 then m\<lparr>sm_DeliveredAtUnixMs := now\<rparr> else m)"

text \<open>The goroutine \<open>forwardFromBroker\<close> of a room, run on its channel until it waits for the next
  payload or its loop ends.\<close>

datatype loop_end = LoopWaits | LoopEnds

function forward_run :: "int \<Rightarrow> payload chan \<Rightarrow> Hub \<Rightarrow> (loop_end \<times> Hub) option" where
  "forward_run now ch h =
     (case range_next ch of
        (Received raw, ch') \<Rightarrow>
          (case forwardFromBroker now raw h of None \<Rightarrow> None | Some h' \<Rightarrow> forward_run now ch' h')
      | (RangeEnds, _) \<Rightarrow> Some (LoopEnds, h)
      | (Blocks, _) \<Rightarrow> Some (LoopWaits, h))"
  by pat_completeness auto
termination
  by (relation "measure (\<lambda>(now, ch, h). length (ch_buf ch))")
    (auto simp: range_next_def split: list.splits if_splits)

declare forward_run.simps [simp del]

lemma forward_run_Nil:
  "ch_buf ch = [] \<Longrightarrow> forward_run now ch h = Some (if ch_closed ch then LoopEnds else LoopWaits, h)"
  by (subst forward_run.simps) (simp add: range_next_def)

lemma forward_run_Cons:
  "ch_buf ch = raw # raws \<Longrightarrow> forward_run now ch h =
    (case forwardFromBroker now raw h of None \<Rightarrow> None | Some h' \<Rightarrow> forward_run now (ch\<lparr>ch_buf := raws\<rparr>) h')"
  by (subst forward_run.simps) (simp add: range_next_def)

lemma forwardFromBroker_total:
  assumes "hub_inv h"
  obtains h' where "forwardFromBroker now raw h = Some h'"
  using that Broadcast_spec[OF assms]
  by (cases "json_Unmarshal raw") (simp_all add: forwardFromBroker_def)

lemma forward_run_total:
  assumes "hub_inv h"
  shows "\<exists>h'. forward_run now ch h = Some (if ch_closed ch then LoopEnds else LoopWaits, h')
    \<and> hub_inv h' \<and> registered h' = registered h"
  using assms
proof (induction "ch_buf ch" arbitrary: ch h)
  case Nil
  then show ?case by (simp add: forward_run_Nil)
next
  case (Cons raw raws)
  obtain h1 where h1: "forwardFromBroker now raw h = Some h1" by (rule forwardFromBroker_total[OF Cons.prems])
  note i1 = forwardFromBroker_inv[OF Cons.prems h1]
  show ?case
    using Cons.hyps(1)[of "ch\<lparr>ch_buf := raws\<rparr>" h1] i1 h1 forward_run_Cons[OF Cons.hyps(2)[symmetric]] by auto
qed

lemma forward_run_messages:
  assumes "hub_inv h" "ch_buf ch = map json_Marshal ms" "\<forall>m\<in>set ms. ServerMessage_ok m \<and> sm_RoomId m = room"
  shows "\<exists>e h'. forward_run now ch h = Some (e, h') \<and> hub_inv h'
    \<and> (\<forall>p. h_heap h' p = (if in_room h room p then map_option (fold offer (map (stamp now) ms)) (h_heap h p)
                           else h_heap h p))"
  using assms
proof (induction ms arbitrary: ch h)
  case Nil
  then show ?case by (auto simp: forward_run_Nil option.map_id)
next
  case (Cons m ms)
  have room: "sm_RoomId (stamp now m) = room" using Cons.prems(3) by (simp add: stamp_def)
  obtain h1 where h1: "Broadcast (stamp now m) False h = Some h1"
    unfolding Broadcast_spec[OF Cons.prems(1)] by blast
  have fw: "forwardFromBroker now (json_Marshal m) h = Some h1"
    using h1 Cons.prems(3) by (simp add: forwardFromBroker_def json_Unmarshal_Marshal stamp_def)
  note b1 = Broadcast_frame(4)[OF Cons.prems(1) h1] and i1 = Broadcast_inv(1)[OF Cons.prems(1) h1]
    and r1 = Broadcast_in_room[OF Cons.prems(1) h1]
  obtain e h' where h': "forward_run now (ch\<lparr>ch_buf := map json_Marshal ms\<rparr>) h1 = Some (e, h')" "hub_inv h'"
    "\<forall>p. h_heap h' p = (if in_room h1 room p then map_option (fold offer (map (stamp now) ms)) (h_heap h1 p)
                           else h_heap h1 p)"
    using Cons.IH[of h1 "ch\<lparr>ch_buf := map json_Marshal ms\<rparr>"] Cons.prems(3) i1 by auto
  have "forward_run now ch h = Some (e, h')"
    using forward_run_Cons[of ch "json_Marshal m" "map json_Marshal ms"] Cons.prems(2) fw h'(1) by simp
  moreover have "h_heap h' p = (if in_room h room p then map_option (fold offer (map (stamp now) (m # ms))) (h_heap h p)
                           else h_heap h p)" for p
    using h'(3) b1[of p] r1 room by (simp add: option.map_comp comp_def)
  ultimately show ?case using h'(2) by blast
qed

lemma offer_fits:
  "length (ch_buf (c_Send c)) + length ms \<le> ch_cap (c_Send c) \<Longrightarrow>
   ch_buf (c_Send (fold offer ms c)) = ch_buf (c_Send c) @ ms"
proof (induction ms arbitrary: c)
  case (Cons m ms)
  then have "ch_buf (c_Send (offer m c)) = ch_buf (c_Send c) @ [m]" by (simp add: offer_def)
  then show ?case using Cons.IH[of "offer m c"] Cons.prems by simp
qed simp

end
