(* ===== verification/Kafka_Pod.thy ===== *)
theory Kafka_Pod
  imports Hub_Broker
begin

text \<open>
  The hub of \<open>app/chat/hub.go\<close> together with the Kafka broker of \<open>app/broker/kafka_broker.go\<close>:
  one pod, and several pods that read one topic.

  \<open>Hub\<close> records the calls it makes on its broker; \<open>broker_do\<close> runs such a call on the model of
  the Kafka broker, where a cancel function is the pair of the room and the channel it captured.
  A step of the pod is a step of the hub with the calls it makes, a message that the consumer
  dispatches, or a payload that a room's goroutine takes from its channel and forwards. The
  dispatch of one message is a single step here; the race of its two halves with a cancel is in
  \<open>Broker\<close>.
\<close>

section \<open>Definitions\<close>

record kafka_pod =
  kp_sys :: hub_sys
  kp_broker :: KafkaBroker
  kp_cancels :: "nat \<rightharpoonup> string" \<comment> \<open>the room a cancel function has captured\<close>

abbreviation kp_hub :: "kafka_pod \<Rightarrow> Hub" where
  "kp_hub P \<equiv> hs_hub (kp_sys P)"

definition new_pod :: "int \<Rightarrow> KafkaBroker \<Rightarrow> kafka_pod" where
  "new_pod n b = \<lparr>kp_sys = \<lparr>hs_hub = NewHubWithLimit n, hs_adds = 0, hs_subs = 0\<rparr>,
     kp_broker = b, kp_cancels = Map.empty\<rparr>"

text \<open>\<open>wr\<close> is the outcome of a write to the topic, whose error the hub discards.\<close>

fun broker_do ::
  "(kafka_message \<Rightarrow> unit go_result) \<Rightarrow> broker_call \<Rightarrow> (nat \<rightharpoonup> string) \<times> KafkaBroker
   \<Rightarrow> ((nat \<rightharpoonup> string) \<times> KafkaBroker) option" where
  "broker_do wr (CallSubscribe ctx room sub) (cl, b) =
     (case Kafka_Subscribe room b of (ch, b') \<Rightarrow> Some (cl(ch \<mapsto> room), b'))"
| "broker_do wr (CallCancel sub) (cl, b) =
     (case cl sub of None \<Rightarrow> None | Some room \<Rightarrow> map_option (Pair cl) (Kafka_cancel room sub b))"
| "broker_do wr (CallPublish room data) (cl, b) = Some (cl, snd (Kafka_Publish wr room data b))"

abbreviation broker_run ::
  "(kafka_message \<Rightarrow> unit go_result) \<Rightarrow> broker_call list \<Rightarrow> (nat \<rightharpoonup> string) \<times> KafkaBroker
   \<Rightarrow> ((nat \<rightharpoonup> string) \<times> KafkaBroker) option" where
  "broker_run wr \<equiv> run_calls (broker_do wr)"

inductive pod_step :: "(kafka_message \<Rightarrow> unit go_result) \<Rightarrow> kafka_pod \<Rightarrow> kafka_pod \<Rightarrow> bool"
  for wr :: "kafka_message \<Rightarrow> unit go_result" where
  hub: "hub_step (kp_sys P) t \<Longrightarrow>
    broker_run wr (new_calls (kp_hub P) (hs_hub t)) (kp_cancels P, kp_broker P) = Some (cl, b) \<Longrightarrow>
    pod_step wr P \<lparr>kp_sys = t, kp_broker = b, kp_cancels = cl\<rparr>"
| consumes: "consume_one msg (kp_broker P) = Some b \<Longrightarrow> pod_step wr P (P\<lparr>kp_broker := b\<rparr>)"
| forwards: "kb_chans (kp_broker P) ch = Some c \<Longrightarrow> range_next c = (Received raw, c') \<Longrightarrow>
    forwardFromBroker now raw (kp_hub P) = Some h \<Longrightarrow>
    pod_step wr P (P\<lparr>kp_sys := (kp_sys P)\<lparr>hs_hub := h\<rparr>,
       kp_broker := (kp_broker P)\<lparr>kb_chans := (kb_chans (kp_broker P))(ch \<mapsto> c')\<rparr>\<rparr>)"

inductive pod_reachable :: "(kafka_message \<Rightarrow> unit go_result) \<Rightarrow> kafka_pod \<Rightarrow> bool"
  for wr :: "kafka_message \<Rightarrow> unit go_result" where
  start: "NewKafkaBroker cfg = Inr b \<Longrightarrow> pod_reachable wr (new_pod n b)"
| step: "pod_reachable wr P \<Longrightarrow> pod_step wr P Q \<Longrightarrow> pod_reachable wr Q"

text \<open>The record a pod writes to the topic for a message it broadcasts.\<close>

definition published :: "ServerMessage \<Rightarrow> kafka_message" where
  "published m = \<lparr>km_Key = sm_RoomId m, km_Value = json_Marshal m\<rparr>"

text \<open>One pod of a consumer group handles the part of the topic that the group has assigned to it:
  its consumer dispatches the messages, and the room's goroutine forwards what is in the channel.\<close>

definition pod_takes ::
  "(kafka_message \<Rightarrow> nat) \<Rightarrow> nat \<Rightarrow> kafka_message list \<Rightarrow> int \<Rightarrow> string \<Rightarrow> kafka_pod \<Rightarrow> Hub option" where
  "pod_takes assigned i topic now room P =
     (case consume (map Fetched (filter (\<lambda>m. assigned m = i) topic)) (kp_broker P) of
        None \<Rightarrow> None
      | Some (_, b) \<Rightarrow>
          (case kafka_list b room of
             [] \<Rightarrow> Some (kp_hub P)
           | ch # _ \<Rightarrow>
               (case kb_chans b ch of
                  None \<Rightarrow> None
                | Some c \<Rightarrow> map_option snd (forward_run now c (kp_hub P)))))"

section \<open>Invariant\<close>

text \<open>The registry is well formed, and the cancel function of a registered channel has captured the
  room under which it is registered.\<close>

definition kafka_ok :: "(nat \<rightharpoonup> string) \<times> KafkaBroker \<Rightarrow> bool" where
  "kafka_ok x \<longleftrightarrow> kafka_inv (snd x) \<and> (\<forall>room. \<forall>ch\<in>set (kafka_list (snd x) room). fst x ch = Some room)"

definition pod_inv :: "kafka_pod \<Rightarrow> bool" where
  "pod_inv P \<longleftrightarrow> sys_inv (kp_sys P) \<and> kafka_ok (kp_cancels P, kp_broker P)
     \<and> h_nextsub (kp_hub P) = kb_next (kp_broker P)
     \<and> subs_match (h_shards (kp_hub P)) (kafka_list (kp_broker P))"

section \<open>Lemmas\<close>

lemma Kafka_Publish_frame [simp]:
  "kb_subs (snd (Kafka_Publish w r d b)) = kb_subs b" "kb_chans (snd (Kafka_Publish w r d b)) = kb_chans b"
  "kb_next (snd (Kafka_Publish w r d b)) = kb_next b"
  by (simp_all add: Kafka_Publish_def Let_def split: sum.split)

lemma Kafka_Publish_inv [simp]:
  "kafka_list (snd (Kafka_Publish w r d b)) = kafka_list b"
  "kafka_inv (snd (Kafka_Publish w r d b)) = kafka_inv b"
  by (simp_all add: kafka_list_def fun_eq_iff kafka_inv_def)

lemma Kafka_cancel_next: "Kafka_cancel room ch b = Some b' \<Longrightarrow> kb_next b' = kb_next b"
  by (auto simp: Kafka_cancel_def Let_def split: option.splits)

lemma consume_one_frame:
  "consume_one msg b = Some b' \<Longrightarrow> kb_subs b' = kb_subs b \<and> kb_next b' = kb_next b \<and> kafka_list b' = kafka_list b"
  using consume_dispatch_frame[of "km_Value msg" "consume_snapshot msg b" b b']
  by (auto simp: consume_one_def kafka_list_def fun_eq_iff)

text \<open>The Kafka broker is what the hub needs of a broker.\<close>

interpretation kafka: hub_broker "broker_do wr" "\<lambda>x. kafka_list (snd x)" "\<lambda>x. kb_next (snd x)" kafka_ok
proof
  fix x :: "(nat \<rightharpoonup> string) \<times> KafkaBroker" and ctx room sub data
  obtain cl b where x: "x = (cl, b)" by fastforce
  assume ok: "kafka_ok x"
  then have inv: "kafka_inv b" and cl: "\<And>room ch. ch \<in> set (kafka_list b room) \<Longrightarrow> cl ch = Some room"
    by (auto simp: x kafka_ok_def)
  have fresh: "kb_next b \<notin> set (kafka_list b r)" for r using kafka_inv_open[OF inv, of "kb_next b" r] by blast
  have "kafka_list (snd (Kafka_Subscribe room b)) = (kafka_list b)(room := kafka_list b room @ [kb_next b])"
    by (simp add: fun_eq_iff kafka_list_Subscribe)
  moreover have "Kafka_Subscribe room b = (kb_next b, snd (Kafka_Subscribe room b))"
    "kb_next (snd (Kafka_Subscribe room b)) = Suc (kb_next b)" by (simp_all add: Kafka_Subscribe_def Let_def)
  ultimately show "\<exists>x'. broker_do wr (CallSubscribe ctx room (kb_next (snd x))) x = Some x' \<and> kafka_ok x'
      \<and> kb_next (snd x') = Suc (kb_next (snd x))
      \<and> kafka_list (snd x') = (kafka_list (snd x))(room := kafka_list (snd x) room @ [kb_next (snd x)])"
    using Kafka_Subscribe_inv[OF inv, of room] cl fresh by (auto simp: x kafka_ok_def split: prod.split if_splits)
  show "\<exists>x'. broker_do wr (CallPublish room data) x = Some x' \<and> kafka_ok x' \<and> kb_next (snd x') = kb_next (snd x)
      \<and> kafka_list (snd x') = kafka_list (snd x)"
    using ok by (simp add: x kafka_ok_def)
  assume sub: "sub \<in> set (kafka_list (snd x) room)"
  then have sub': "sub \<in> set (kafka_list b room)" by (simp add: x)
  obtain b' where b': "Kafka_cancel room sub b = Some b'" using Kafka_cancel_succeeds[OF inv sub'] by blast
  have lists: "kafka_list b' = (kafka_list b)(room := remove1 sub (kafka_list b room))"
    using kafka_list_cancel[OF b'] by (simp add: fun_eq_iff)
  have "kafka_ok (cl, b')"
    using Kafka_cancel_inv[OF inv sub' b'] cl by (auto simp: kafka_ok_def lists dest: notin_set_remove1 split: if_splits)
  then show "\<exists>x'. broker_do wr (CallCancel sub) x = Some x' \<and> kafka_ok x' \<and> kb_next (snd x') = kb_next (snd x)
      \<and> kafka_list (snd x') = (kafka_list (snd x))(room := remove1 sub (kafka_list (snd x) room))"
    using b' cl[OF sub'] lists Kafka_cancel_next[OF b'] by (simp add: x)
qed

lemma kafka_in_step:
  "kafka.in_step h (cl, b) \<longleftrightarrow> kafka_ok (cl, b) \<and> h_nextsub h = kb_next b \<and> subs_match (h_shards h) (kafka_list b)"
  by (simp add: kafka.in_step_def)

lemma broker_follows:
  assumes inv: "pod_inv P" and st: "hub_step (kp_sys P) t"
  shows "\<exists>cl b. broker_run wr (new_calls (kp_hub P) (hs_hub t)) (kp_cancels P, kp_broker P) = Some (cl, b)
    \<and> pod_inv \<lparr>kp_sys = t, kp_broker = b, kp_cancels = cl\<rparr>"
proof -
  have "hub_inv (kp_hub P)" "kafka.in_step (kp_hub P) (kp_cancels P, kp_broker P)"
    using inv by (simp_all add: pod_inv_def sys_inv_def kafka_in_step)
  from kafka.in_step_follows[OF this st, of wr]
  obtain cl b where "broker_run wr (new_calls (kp_hub P) (hs_hub t)) (kp_cancels P, kp_broker P) = Some (cl, b)"
    "kafka.in_step (hs_hub t) (cl, b)" by auto
  then show ?thesis using sys_inv_step[OF st] inv by (auto simp: pod_inv_def kafka_in_step)
qed

lemma kafka_inv_chan:
  assumes inv: "kafka_inv b" and c: "kb_chans b ch = Some c" "ch_closed c' = ch_closed c"
  shows "kafka_inv (b\<lparr>kb_chans := (kb_chans b)(ch \<mapsto> c')\<rparr>)"
proof -
  let ?b = "b\<lparr>kb_chans := (kb_chans b)(ch \<mapsto> c')\<rparr>"
  have lists: "kafka_list ?b = kafka_list b" by (simp add: kafka_list_def fun_eq_iff)
  have "\<exists>k. kb_chans ?b x = Some k \<and> \<not> ch_closed k \<and> x < kb_next ?b"
    if "kb_subs b room = Some l" "x \<in> set l" for room l x
  proof -
    have "x \<in> set (kafka_list b room)" using that by (simp add: kafka_list_def)
    from kafka_inv_open[OF inv this] show ?thesis using c by auto
  qed
  moreover have "l \<noteq> [] \<and> distinct l" if "kb_subs b room = Some l" for room l
    using inv that unfolding kafka_inv_def by blast
  moreover have "\<forall>r1 r2 x. r1 \<noteq> r2 \<longrightarrow> x \<in> set (kafka_list b r1) \<longrightarrow> x \<notin> set (kafka_list b r2)"
    using inv unfolding kafka_inv_def by blast
  ultimately show ?thesis unfolding kafka_inv_def lists by simp
qed

lemma pod_inv_step:
  assumes "pod_step wr P Q" "pod_inv P"
  shows "pod_inv Q"
  using assms
proof (cases rule: pod_step.cases)
  case (hub t cl b)
  then show ?thesis using broker_follows[OF assms(2) hub(2), of wr] by auto
next
  case (consumes msg b)
  have "kafka_inv b"
    using consume_one_delivers[of "kp_broker P" msg] assms(2) consumes(2) by (auto simp: pod_inv_def kafka_ok_def)
  then show ?thesis
    using consume_one_frame[OF consumes(2)] consumes(1) assms(2)
    by (simp add: pod_inv_def kafka_ok_def)
next
  case (forwards ch c raw c' now h)
  let ?b = "kp_broker P"
  let ?b' = "?b\<lparr>kb_chans := (kb_chans ?b)(ch \<mapsto> c')\<rparr>"
  have hub: "hub_inv (kp_hub P)" and kinv: "kafka_inv ?b" using assms(2) by (simp_all add: pod_inv_def kafka_ok_def sys_inv_def)
  have closed: "ch_closed c' = ch_closed c"
    using forwards(3) by (auto simp: range_next_def split: list.splits if_splits)
  have lists: "kafka_list ?b' = kafka_list ?b" by (simp add: kafka_list_def fun_eq_iff)
  have "kafka_inv ?b'" by (rule kafka_inv_chan[OF kinv forwards(2) closed])
  moreover have "h_nextsub h = h_nextsub (kp_hub P)" "h_shards h = h_shards (kp_hub P)"
    using forwards(4) by (auto simp: forwardFromBroker_def Broadcast_spec[OF hub] split: option.splits)
  moreover have "sys_inv ((kp_sys P)\<lparr>hs_hub := h\<rparr>)"
    using forwardFromBroker_inv[OF hub forwards(4)] assms(2) by (simp add: pod_inv_def kafka_ok_def sys_inv_def)
  ultimately show ?thesis
    using assms(2) forwards(1) lists by (simp add: pod_inv_def kafka_ok_def)
qed

lemma pod_inv_new: "NewKafkaBroker cfg = Inr b \<Longrightarrow> pod_inv (new_pod n b)"
proof -
  assume "NewKafkaBroker cfg = Inr b"
  then have b: "kb_subs b = Map.empty" "kb_next b = 0"
    by (auto simp: NewKafkaBroker_def Let_def split: if_splits)
  then have "kafka_inv b" "kafka_list b = (\<lambda>_. [])" by (simp_all add: kafka_inv_def kafka_list_def fun_eq_iff)
  moreover have "sys_inv (kp_sys (new_pod n b))"
    using reachable_sys_inv[OF hub_reachable.start[of n]] by (simp add: new_pod_def)
  ultimately show ?thesis
    using b by (simp add: pod_inv_def kafka_ok_def new_pod_def subs_match_def NewHubWithLimit_def shard_table.lookup_empty)
qed

lemma pod_reachable_inv: "pod_reachable wr P \<Longrightarrow> pod_inv P"
  by (induction rule: pod_reachable.induct) (auto intro: pod_inv_new pod_inv_step)

section \<open>Consuming the topic\<close>

lemma consume_fills:
  assumes "kafka_inv b" "kafka_list b room = [ch]" "kb_chans b ch = Some c"
    and "length (ch_buf c) + length (filter (\<lambda>m. km_Key m = room) ms) \<le> ch_cap c"
  shows "\<exists>b'. consume (map Fetched ms) b = Some (False, b') \<and> kafka_list b' room = [ch]
    \<and> kb_chans b' ch = Some (c\<lparr>ch_buf := ch_buf c @ map km_Value (filter (\<lambda>m. km_Key m = room) ms)\<rparr>)"
  using assms
proof (induction ms arbitrary: b c)
  case (Cons m ms)
  obtain b1 where b1: "consume_one m b = Some b1" "kafka_inv b1"
    "kb_chans b1 ch = (if ch \<in> set (kafka_list b (km_Key m)) then try_send (km_Value m) (the (kb_chans b ch))
       else kb_chans b ch)"
    using consume_one_delivers[OF Cons.prems(1), of m] by blast
  have lst: "kafka_list b1 room = [ch]" using consume_one_frame[OF b1(1)] Cons.prems(2) by simp
  have open_c: "\<not> ch_closed c"
    using kafka_inv_open[OF Cons.prems(1), of ch room] Cons.prems(2,3) by simp
  have mine: "ch \<in> set (kafka_list b (km_Key m)) \<longleftrightarrow> km_Key m = room"
    using Cons.prems(1,2) unfolding kafka_inv_def by (metis list.set_intros(1))
  define c1 where "c1 = (if km_Key m = room then c\<lparr>ch_buf := ch_buf c @ [km_Value m]\<rparr> else c)"
  have "kb_chans b1 ch = Some c1"
    using b1(3) mine open_c Cons.prems(3,4) by (auto simp: c1_def try_send_def split: if_splits)
  moreover have "length (ch_buf c1) + length (filter (\<lambda>m. km_Key m = room) ms) \<le> ch_cap c1"
    using Cons.prems(4) by (simp add: c1_def split: if_splits)
  ultimately show ?case
    using Cons.IH[OF b1(2) lst, of c1] b1(1) by (auto simp: c1_def)
qed simp

lemma broadcast_written:
  assumes "hub_inv (kp_hub Q)" "Broadcast m True (kp_hub Q) = Some h"
  shows "broker_run (\<lambda>_. Inr ()) (new_calls (kp_hub Q) h) (kp_cancels Q, kp_broker Q) =
    Some (kp_cancels Q, (kp_broker Q)\<lparr>kb_written := kb_written (kp_broker Q) @ [published m]\<rparr>)"
  using Broadcast_frame(5)[OF assms] by (simp add: new_calls_def Kafka_Publish_def published_def Let_def)

lemma room_subscription:
  assumes "pod_inv P" "in_room (kp_hub P) room p"
  obtains r c where "shard_lookup (h_shards (kp_hub P)) room = Some r"
    "kafka_list (kp_broker P) room = [r_sub r]" "kb_chans (kp_broker P) (r_sub r) = Some c" "\<not> ch_closed c"
proof -
  obtain r where r: "shard_lookup (h_shards (kp_hub P)) room = Some r" using assms(2) by (auto simp: in_room_def)
  then have l: "kafka_list (kp_broker P) room = [r_sub r]" using assms(1) by (simp add: pod_inv_def kafka_ok_def subs_match_def)
  then show ?thesis using that r kafka_inv_open[of "kp_broker P" "r_sub r" room] assms(1) by (auto simp: pod_inv_def kafka_ok_def)
qed

lemma pod_takes_delivers:
  assumes P: "pod_reachable wr P" "in_room (kp_hub P) room p" "h_heap (kp_hub P) p = Some c"
    and ms: "\<forall>m\<in>set ms. ServerMessage_ok m"
      "mine = filter (\<lambda>m. assigned (published m) = i \<and> sm_RoomId m = room) ms"
    and buffers: "\<forall>ch\<in>set (kafka_list (kp_broker P) room). \<forall>k. kb_chans (kp_broker P) ch = Some k \<longrightarrow>
        ch_buf k = [] \<and> length mine \<le> ch_cap k"
      "length (ch_buf (c_Send c)) + length mine \<le> ch_cap (c_Send c)"
  shows "\<exists>h c'. pod_takes assigned i (map published ms) now room P = Some h
      \<and> h_heap h p = Some c' \<and> ch_buf (c_Send c') = ch_buf (c_Send c) @ map (stamp now) mine"
proof -
  have inv: "pod_inv P" by (rule pod_reachable_inv[OF P(1)])
  have kinv: "kafka_inv (kp_broker P)" and hub: "hub_inv (kp_hub P)" using inv by (simp_all add: pod_inv_def kafka_ok_def sys_inv_def)
  obtain r :: room and k where r: "kafka_list (kp_broker P) room = [r_sub r]" "kb_chans (kp_broker P) (r_sub r) = Some k"
    by (rule room_subscription[OF inv P(2)]) blast
  let ?got = "filter (\<lambda>x. assigned x = i) (map published ms)"
  have vals: "map km_Value (filter (\<lambda>x. km_Key x = room) ?got) = map json_Marshal mine"
    unfolding ms(2) by (induction ms) (auto simp: published_def)
  then have len: "length (filter (\<lambda>x. km_Key x = room) ?got) = length mine" by (metis length_map)
  have k: "ch_buf k = []" "length mine \<le> ch_cap k" using buffers(1) r by simp_all
  then obtain b where b: "consume (map Fetched ?got) (kp_broker P) = Some (False, b)" "kafka_list b room = [r_sub r]"
    "kb_chans b (r_sub r) = Some (k\<lparr>ch_buf := map json_Marshal mine\<rparr>)"
    using consume_fills[OF kinv r, of ?got] len vals by auto
  have "\<forall>m\<in>set mine. ServerMessage_ok m \<and> sm_RoomId m = room" using ms by simp
  then obtain e h where h: "forward_run now (k\<lparr>ch_buf := map json_Marshal mine\<rparr>) (kp_hub P) = Some (e, h)"
    "\<forall>p. h_heap h p = (if in_room (kp_hub P) room p
        then map_option (fold offer (map (stamp now) mine)) (h_heap (kp_hub P) p) else h_heap (kp_hub P) p)"
    using forward_run_messages[OF hub, of "k\<lparr>ch_buf := map json_Marshal mine\<rparr>" mine room now] by auto
  have "pod_takes assigned i (map published ms) now room P = Some h"
    using b h(1) by (simp add: pod_takes_def)
  moreover have "h_heap h p = Some (fold offer (map (stamp now) mine) c)" using h(2) P(2,3) by simp
  ultimately show ?thesis
    using offer_fits[of c "map (stamp now) mine"] buffers(2) by simp
qed

section \<open>Properties\<close>

text \<open>The hub and the Kafka broker stay in step: in every reachable state of a pod the broker has
  exactly one subscription for every room that has a client, with an open channel, and none for
  any other room, so no subscription is leaked or made twice; and whatever the hub does next, its
  calls on the broker succeed without a panic.\<close>

lemma pod_subscriptions_exact:
  assumes "pod_reachable wr P"
  shows "(\<forall>room. kafka_list (kp_broker P) room \<noteq> [] \<longleftrightarrow> (\<exists>p. in_room (kp_hub P) room p))
    \<and> (\<forall>room p. in_room (kp_hub P) room p \<longrightarrow>
         (\<exists>ch c. kafka_list (kp_broker P) room = [ch] \<and> kb_chans (kp_broker P) ch = Some c \<and> \<not> ch_closed c))
    \<and> (\<forall>t. hub_step (kp_sys P) t \<longrightarrow>
         broker_run wr (new_calls (kp_hub P) (hs_hub t)) (kp_cancels P, kp_broker P) \<noteq> None)"
proof -
  have inv: "pod_inv P" by (rule pod_reachable_inv[OF assms])
  have hub: "hub_inv (kp_hub P)" using inv by (simp add: pod_inv_def kafka_ok_def sys_inv_def)
  have "kafka_list (kp_broker P) room \<noteq> [] \<longleftrightarrow> (\<exists>p. in_room (kp_hub P) room p)" for room
  proof (cases "shard_lookup (h_shards (kp_hub P)) room")
    case None
    then show ?thesis using inv by (simp add: pod_inv_def kafka_ok_def subs_match_def in_room_def)
  next
    case (Some r)
    then have "r_clients r \<noteq> []" using hub unfolding hub_inv_def by blast
    then obtain p where "p \<in> set (r_clients r)" by (cases "r_clients r") auto
    then show ?thesis using Some inv by (auto simp: pod_inv_def kafka_ok_def subs_match_def in_room_def)
  qed
  moreover have "\<exists>ch c. kafka_list (kp_broker P) room = [ch] \<and> kb_chans (kp_broker P) ch = Some c \<and> \<not> ch_closed c"
    if "in_room (kp_hub P) room p" for room p
    by (rule room_subscription[OF inv that]) blast
  moreover have "broker_run wr (new_calls (kp_hub P) (hs_hub t)) (kp_cancels P, kp_broker P) \<noteq> None"
    if "hub_step (kp_sys P) t" for t using broker_follows[OF inv that, of wr] by auto
  ultimately show ?thesis by blast
qed

definition demo_cfg :: KafkaConfig where
  "demo_cfg = \<lparr>kc_Brokers = [''k:9092''], kc_Topic = ''t'', kc_GroupID = ''g'', kc_Partition = 0\<rparr>"

definition demo_kafka :: KafkaBroker where
  "demo_kafka = \<lparr>kb_config = demo_cfg, kb_subs = Map.empty, kb_chans = Map.empty, kb_next = 0, kb_written = []\<rparr>"

definition demo_pod :: kafka_pod where
  "demo_pod = \<lparr>kp_sys = \<lparr>hs_hub = demo_hub, hs_adds = 1, hs_subs = 0\<rparr>,
     kp_broker = snd (Kafka_Subscribe ''r'' demo_kafka), kp_cancels = [0 \<mapsto> ''r'']\<rparr>"

lemma demo_pod_reachable: "pod_reachable wr demo_pod"
proof -
  let ?c = "NewClient ''u'' ''r''" and ?s = "\<lparr>hs_hub = NewHubWithLimit 0, hs_adds = 0, hs_subs = 0\<rparr>"
  have "NewKafkaBroker demo_cfg = Inr demo_kafka" by (simp add: NewKafkaBroker_def demo_cfg_def demo_kafka_def Let_def)
  then have start: "pod_reachable wr (new_pod 0 demo_kafka)" by (rule pod_reachable.start)
  have heap: "h_heap (hs_hub ?s) 0 = None" by (simp add: NewHubWithLimit_def)
  have st: "hub_step ?s (kp_sys demo_pod)"
    using hub_step.connect[where ctx = 0 and u = "''u''" and r = "''r''", OF heap refl] by (simp add: demo_pod_def demo_hub_def)
  have calls: "new_calls (NewHubWithLimit 0) demo_hub = [CallSubscribe 0 ''r'' 0]"
    by (simp add: new_calls_def demo_hub_def register_locked_def NewHubWithLimit_def shard_table.lookup_empty
        Let_def alloc_def)
  have run: "broker_run wr (new_calls (kp_hub (new_pod 0 demo_kafka)) (hs_hub (kp_sys demo_pod)))
      (kp_cancels (new_pod 0 demo_kafka), kp_broker (new_pod 0 demo_kafka))
    = Some ([0 \<mapsto> ''r''], snd (Kafka_Subscribe ''r'' demo_kafka))"
    using calls by (simp add: new_pod_def demo_pod_def Kafka_Subscribe_def demo_kafka_def Let_def)
  have "pod_step wr (new_pod 0 demo_kafka) demo_pod"
    using pod_step.hub[OF _ run] st by (simp add: new_pod_def demo_pod_def)
  then show ?thesis by (rule pod_reachable.step[OF start])
qed

lemma demo_pod_simps [simp]: "kp_hub demo_pod = demo_hub"
  by (simp add: demo_pod_def)

text \<open>C16. Across pods, in Kafka's order and no further than the consumer group: a message that a pod
  broadcasts is written once to the topic; a pod of the group puts the messages of the topic that
  the group has assigned to it, and no others, in their order into the buffer of every client of
  the room, while buffers last. Since a group assigns a message to one of its pods, the clients of
  every other pod do not get it.\<close>

theorem kafka_cluster_delivery:
  assumes Q: "pod_reachable wr' Q" "Broadcast m0 True (kp_hub Q) = Some h0"
    and P: "pod_reachable wr P" "in_room (kp_hub P) room p" "h_heap (kp_hub P) p = Some c"
    and ms: "\<forall>m\<in>set ms. ServerMessage_ok m"
      "mine = filter (\<lambda>m. assigned (published m) = i \<and> sm_RoomId m = room) ms"
    and buffers: "\<forall>ch\<in>set (kafka_list (kp_broker P) room). \<forall>k. kb_chans (kp_broker P) ch = Some k \<longrightarrow>
        ch_buf k = [] \<and> length mine \<le> ch_cap k"
      "length (ch_buf (c_Send c)) + length mine \<le> ch_cap (c_Send c)"
  shows "(\<exists>b. broker_run (\<lambda>_. Inr ()) (new_calls (kp_hub Q) h0) (kp_cancels Q, kp_broker Q) = Some (kp_cancels Q, b)
      \<and> kb_written b = kb_written (kp_broker Q) @ [published m0])
    \<and> (\<exists>h c'. pod_takes assigned i (map published ms) now room P = Some h
      \<and> h_heap h p = Some c' \<and> ch_buf (c_Send c') = ch_buf (c_Send c) @ map (stamp now) mine)"
proof -
  have "hub_inv (kp_hub Q)" using pod_reachable_inv[OF Q(1)] by (simp add: pod_inv_def kafka_ok_def sys_inv_def)
  from broadcast_written[OF this Q(2)] pod_takes_delivers[OF P ms buffers, of now] show ?thesis by simp
qed

theorem kafka_cluster_delivery_witness:
  "\<exists>h c'. pod_takes (\<lambda>x. if km_Value x = json_Marshal demo_message then 0 else 1) 0
       (map published [demo_message, demo_message\<lparr>sm_Text := ''no''\<rparr>]) 7 ''r'' demo_pod = Some h
     \<and> h_heap h 0 = Some c' \<and> ch_buf (c_Send c') = [demo_message]"
proof -
  let ?ms = "[demo_message, demo_message\<lparr>sm_Text := ''no''\<rparr>]"
  let ?as = "\<lambda>x. if km_Value x = json_Marshal demo_message then 0 else 1::nat"
  note reach = demo_pod_reachable[of "\<lambda>_. Inr ()"]
  obtain h0 where h0: "Broadcast demo_message True (kp_hub demo_pod) = Some h0"
    using Broadcast_spec[OF demo_hub_facts(1)] by auto
  have ok: "\<forall>m\<in>set ?ms. ServerMessage_ok m"
    using demo_message_facts(1) by (simp add: ServerMessage_ok_def)
  have "json_Marshal demo_message \<noteq> json_Marshal (demo_message\<lparr>sm_Text := ''no''\<rparr>)"
    by (simp add: json_Marshal_def demo_message_def ServerMessage_zero_def jstr_def jint_def jbool_def)
  then have mine: "[demo_message] = filter (\<lambda>m. ?as (published m) = 0 \<and> sm_RoomId m = ''r'') ?ms"
    using demo_message_facts(3) by (auto simp: published_def)
  have bufs: "\<forall>ch\<in>set (kafka_list (kp_broker demo_pod) ''r''). \<forall>k. kb_chans (kp_broker demo_pod) ch = Some k \<longrightarrow>
        ch_buf k = [] \<and> length [demo_message] \<le> ch_cap k"
    by (simp add: demo_pod_def kafka_list_Subscribe) (simp add: Kafka_Subscribe_def demo_kafka_def kafka_list_def Let_def)
  have cl: "in_room (kp_hub demo_pod) ''r'' 0" "h_heap (kp_hub demo_pod) 0 = Some (NewClient ''u'' ''r'')"
    using demo_hub_facts by simp_all
  have fits: "length (ch_buf (c_Send (NewClient ''u'' ''r''))) + length [demo_message] \<le> ch_cap (c_Send (NewClient ''u'' ''r''))"
    by (simp add: NewClient_def)
  have "stamp 7 demo_message = demo_message" using demo_message_facts(2) by (simp add: stamp_def)
  then show ?thesis
    using kafka_cluster_delivery[where now = 7, OF reach h0 reach cl ok mine bufs fits] by (auto simp: NewClient_def)
qed

text \<open>C24. In a pod with the Kafka broker the goroutine of a room ends with the room: when the last client
  leaves, the hub cancels the room's subscription, which with this broker closes its channel, and the
  goroutine's loop then forwards what is left in the buffer and terminates; while the room is there,
  the same loop empties the buffer and waits. Neither way does it panic or change who is registered.
  (With the Redis broker cancelling closes the subscription, and the pump closes the channel.)\<close>

theorem forward_goroutine_ends:
  assumes P: "pod_reachable wr P" and p: "h_heap (kp_hub P) p = Some c" "in_room (kp_hub P) (c_RoomID c) p"
    and last: "\<forall>q. in_room (kp_hub P) (c_RoomID c) q \<longrightarrow> q = p"
    and un: "unregister_locked p c (kp_hub P) = Some h"
    and run: "broker_run wr (new_calls (kp_hub P) h) (kp_cancels P, kp_broker P) = Some (cl, b)"
    and ch: "kafka_list (kp_broker P) (c_RoomID c) = [ch]" "kb_chans (kp_broker P) ch = Some k"
  shows "\<exists>k'. kb_chans b ch = Some k' \<and> ch_buf k' = ch_buf k
    \<and> (\<exists>h'. forward_run now k' h = Some (LoopEnds, h') \<and> hub_inv h' \<and> registered h' = registered (kp_hub P) - {p})
    \<and> (\<exists>h'. forward_run now k (kp_hub P) = Some (LoopWaits, h') \<and> registered h' = registered (kp_hub P))"
proof -
  have inv: "pod_inv P" by (rule pod_reachable_inv[OF P])
  have hub: "hub_inv (kp_hub P)" and kinv: "kafka_inv (kp_broker P)" using inv by (simp_all add: pod_inv_def kafka_ok_def sys_inv_def)
  obtain r where r: "shard_lookup (h_shards (kp_hub P)) (c_RoomID c) = Some r" "p \<in> set (r_clients r)"
    using p(2) by (auto simp: in_room_def)
  have sub: "r_sub r = ch" "kp_cancels P ch = Some (c_RoomID c)"
    using inv ch(1) r(1) by (auto simp: pod_inv_def kafka_ok_def subs_match_def)
  have "\<forall>q. q \<in> set (r_clients r) \<longrightarrow> q = p" using last r(1) by (auto simp: in_room_def)
  moreover have "distinct (r_clients r)" using hub r(1) unfolding hub_inv_def by blast
  ultimately have rm: "remove1 p (r_clients r) = []"
    using r(2) by (metis set_remove1_eq Diff_iff list.set_intros(1) list.exhaust singletonI set_ConsD)
  have calls: "new_calls (kp_hub P) h = [CallCancel ch]"
    using un r(1) rm sub(1) by (auto simp: unregister_locked_def new_calls_def Let_def split: option.splits)
  have op: "\<not> ch_closed k" using kafka_inv_open[OF kinv, of ch "c_RoomID c"] ch by simp
  have "kb_chans b ch = Some (k\<lparr>ch_closed := True\<rparr>)"
    using run sub(2) ch(2) op by (auto simp: calls Kafka_cancel_def close_chan_def Let_def split: option.splits)
  moreover note un_inv = unregister_locked_inv[OF hub p(2,1) un]
  ultimately show ?thesis
    using forward_run_total[OF un_inv(1), of now "k\<lparr>ch_closed := True\<rparr>"] forward_run_total[OF hub, of now k] op un_inv(2)
    by auto
qed

theorem forward_goroutine_ends_witness:
  "\<exists>h cl b k' h'. unregister_locked 0 (NewClient ''u'' ''r'') demo_hub = Some h
     \<and> broker_run (\<lambda>_. Inr ()) (new_calls demo_hub h) (kp_cancels demo_pod, kp_broker demo_pod) = Some (cl, b)
     \<and> kb_chans b 0 = Some k' \<and> forward_run 7 k' h = Some (LoopEnds, h')"
proof -
  let ?c = "NewClient ''u'' ''r''"
  note reach = demo_pod_reachable[of "\<lambda>_. Inr ()"]
  have heap: "h_heap (kp_hub demo_pod) 0 = Some ?c" and room: "in_room (kp_hub demo_pod) (c_RoomID ?c) 0"
    using demo_hub_facts by simp_all
  obtain h where h: "unregister_locked 0 ?c (kp_hub demo_pod) = Some h"
    by (rule unregister_locked_ok[OF demo_hub_facts(1), of ?c 0]) (use heap room in auto)
  have st: "hub_step (kp_sys demo_pod) ((kp_sys demo_pod)\<lparr>hs_hub := h, hs_subs := Suc 0\<rparr>)"
    using hub_step.disconnect[of 0 "kp_sys demo_pod" ?c h] heap room h by (auto simp: registered_def demo_pod_def)
  obtain cl b where run: "broker_run (\<lambda>_. Inr ()) (new_calls (kp_hub demo_pod) h) (kp_cancels demo_pod, kp_broker demo_pod) = Some (cl, b)"
    using broker_follows[OF pod_reachable_inv[OF reach] st, of "\<lambda>_. Inr ()"] by auto
  have only: "\<forall>q. in_room (kp_hub demo_pod) (c_RoomID ?c) q \<longrightarrow> q = 0"
    by (simp add: demo_hub_def in_room_def register_locked_def NewHubWithLimit_def shard_table.lookup_empty
        shard_table.lookup_update shard_table.invar_empty Let_def alloc_def)
  have ch: "kafka_list (kp_broker demo_pod) (c_RoomID ?c) = [0]" "kb_chans (kp_broker demo_pod) 0 = Some (make_chan 256)"
    by (simp_all add: demo_pod_def Kafka_Subscribe_def demo_kafka_def kafka_list_def Let_def)
  show ?thesis
    using forward_goroutine_ends[where now = 7, OF reach heap room only h run ch] h run by auto
qed

end
