(* ===== verification/Wire.thy ===== *)
theory Wire
  imports Chat_Stream Kafka_Pod
begin

text \<open>
  What travels between the pods: every payload that the handlers of \<open>app/server/grpc_server.go\<close>
  hand to the broker decodes, on any pod, to the message that was broadcast, because the integers
  of a request fit the fields of the generated structs; and the way of one frame from a stream on
  one pod to a client of another pod.
\<close>

section \<open>Definitions\<close>

text \<open>The typing of a decoded request: its integers fit the Go fields. The clock is a nanosecond
  count that fits an \<open>int64\<close> of milliseconds.\<close>

definition ClientMessage_ok :: "ClientMessage \<Rightarrow> bool" where
  "ClientMessage_ok m \<longleftrightarrow> in_int64 (cm_SentAtUnixMs m) \<and> in_int64 (cm_MediaSizeBytes m)
     \<and> in_int32 (cm_Type m) \<and> in_int32 (cm_EventType m)"

definition SendMessageRequest_ok :: "SendMessageRequest \<Rightarrow> bool" where
  "SendMessageRequest_ok r \<longleftrightarrow> in_int64 (smr_MediaSizeBytes r) \<and> in_int32 (smr_MessageType r)"

definition clock_ok :: "clock \<Rightarrow> bool" where
  "clock_ok clk \<longleftrightarrow> (\<forall>i. in_int64 (toUnixMilli (clk i)))"

definition typed_calls :: "broker_call list \<Rightarrow> bool" where
  "typed_calls cs \<longleftrightarrow> (\<forall>room data. CallPublish room data \<in> set cs \<longrightarrow>
     (\<exists>m. ServerMessage_ok m \<and> sm_RoomId m = room \<and> data = json_Marshal m))"

section \<open>Lemmas\<close>

lemma typed_calls_append [simp]: "typed_calls (cs @ ds) \<longleftrightarrow> typed_calls cs \<and> typed_calls ds"
  by (auto simp: typed_calls_def)

lemma typed_calls_Nil [simp]: "typed_calls []"
  by (simp add: typed_calls_def)

lemma small_ints [simp]: "in_int64 0" "in_int32 0" "in_int32 1" "in_int32 2" "in_int32 3" "in_int32 4"
  "in_int32 5" "in_int32 6" "in_int32 7"
  by (simp_all add: in_int64_def in_int32_def int64_min_def int64_max_def)

lemma ServerMessage_zero_ok [simp]: "ServerMessage_ok ServerMessage_zero"
  by (simp add: ServerMessage_ok_def ServerMessage_zero_def)

text \<open>A message that was built by updates is in range if the updated integers are.\<close>

lemma ServerMessage_ok_update [simp]:
  "ServerMessage_ok (m\<lparr>sm_RoomId := x\<rparr>) = ServerMessage_ok m"
  "ServerMessage_ok (m\<lparr>sm_UserId := x\<rparr>) = ServerMessage_ok m"
  "ServerMessage_ok (m\<lparr>sm_MessageId := x\<rparr>) = ServerMessage_ok m"
  "ServerMessage_ok (m\<lparr>sm_Text := x\<rparr>) = ServerMessage_ok m"
  "ServerMessage_ok (m\<lparr>sm_MediaKey := x\<rparr>) = ServerMessage_ok m"
  "ServerMessage_ok (m\<lparr>sm_MediaName := x\<rparr>) = ServerMessage_ok m"
  "ServerMessage_ok (m\<lparr>sm_MediaMimeType := x\<rparr>) = ServerMessage_ok m"
  "ServerMessage_ok (m\<lparr>sm_MediaUrl := x\<rparr>) = ServerMessage_ok m"
  "ServerMessage_ok (m\<lparr>sm_ReplyToMessageId := x\<rparr>) = ServerMessage_ok m"
  "ServerMessage_ok (m\<lparr>sm_ReactionEmoji := x\<rparr>) = ServerMessage_ok m"
  "ServerMessage_ok (m\<lparr>sm_IsDeleted := b\<rparr>) = ServerMessage_ok m"
  "ServerMessage_ok (m\<lparr>sm_IsOnline := b\<rparr>) = ServerMessage_ok m"
  "ServerMessage_ok m \<Longrightarrow> ServerMessage_ok (m\<lparr>sm_SentAtUnixMs := n\<rparr>) = in_int64 n"
  "ServerMessage_ok m \<Longrightarrow> ServerMessage_ok (m\<lparr>sm_DeliveredAtUnixMs := n\<rparr>) = in_int64 n"
  "ServerMessage_ok m \<Longrightarrow> ServerMessage_ok (m\<lparr>sm_MediaSizeBytes := n\<rparr>) = in_int64 n"
  "ServerMessage_ok m \<Longrightarrow> ServerMessage_ok (m\<lparr>sm_EditedAtUnixMs := n\<rparr>) = in_int64 n"
  "ServerMessage_ok m \<Longrightarrow> ServerMessage_ok (m\<lparr>sm_LastSeenUnixMs := n\<rparr>) = in_int64 n"
  "ServerMessage_ok m \<Longrightarrow> ServerMessage_ok (m\<lparr>sm_Type := n\<rparr>) = in_int32 n"
  "ServerMessage_ok m \<Longrightarrow> ServerMessage_ok (m\<lparr>sm_EventType := n\<rparr>) = in_int32 n"
  "ServerMessage_ok m \<Longrightarrow> ServerMessage_ok (m\<lparr>sm_Status := n\<rparr>) = in_int32 n"
  by (auto simp: ServerMessage_ok_def)

lemma toServerMsg_ok: "ClientMessage_ok inp \<Longrightarrow> clock_ok clk \<Longrightarrow> ServerMessage_ok (toServerMsg (clk i) inp)"
  by (simp add: toServerMsg_def ClientMessage_ok_def clock_ok_def)

text \<open>\<open>keeps_typed s out\<close>: if the calls made so far are typed, so are the calls of the outcome.\<close>

definition keeps_typed :: "('r, 'p) ChatServer \<Rightarrow> ('r, 'p) ChatServer option \<Rightarrow> bool" where
  "keeps_typed s out \<longleftrightarrow> (\<forall>s'. out = Some s' \<longrightarrow> typed_calls (h_calls (sv_hub s)) \<longrightarrow>
     typed_calls (h_calls (sv_hub s')))"

lemma typed_same [simp]: "sv_hub t = sv_hub s \<Longrightarrow> keeps_typed s (Some t)"
  by (simp add: keeps_typed_def)

lemma typed_broadcast:
  assumes "hub_inv (sv_hub s)" "sv_hub t = sv_hub s" "ServerMessage_ok msg"
  shows "keeps_typed s (hub_Broadcast msg publish t)"
proof -
  have "hub_inv (sv_hub t)" using assms by simp
  then have "hub_Broadcast msg publish t = Some s' \<Longrightarrow> h_calls (sv_hub s') = h_calls (sv_hub s) @
      (if publish then [CallPublish (sm_RoomId msg) (json_Marshal msg)] else [])" for s'
    using assms(2) by (auto simp: hub_Broadcast_def Broadcast_spec)
  then show ?thesis using assms(3) by (auto simp: keeps_typed_def typed_calls_def)
qed

lemma typed_map:
  "keeps_typed s out \<Longrightarrow> (\<And>t. sv_hub (f t) = sv_hub t) \<Longrightarrow> keeps_typed s (map_option f out)"
  by (auto simp: keeps_typed_def)

lemma EditMessage_time: "EditMessage M now mid uid txt db = (Inr at, db') \<Longrightarrow> at = toUnixMilli now"
  by (auto simp: EditMessage_def split: sum.splits prod.splits if_splits)

lemma incoming_delete_typed: "hub_inv (sv_hub s) \<Longrightarrow> keeps_typed s (incoming_delete E roomID inp s)"
  by (simp add: incoming_delete_def Let_def typed_broadcast split: option.split prod.split sum.split bool.split)

lemma incoming_edit_typed:
  "hub_inv (sv_hub s) \<Longrightarrow> clock_ok clk \<Longrightarrow> keeps_typed s (incoming_edit E clk roomID inp s)"
  using EditMessage_time
  by (fastforce simp: incoming_edit_def Let_def clock_ok_def intro!: typed_broadcast
      split: option.split prod.split sum.split)

lemma processIncoming_typed:
  assumes "hub_inv (sv_hub s)" "ClientMessage_ok inp" "clock_ok clk"
  shows "keeps_typed s (processIncoming E clk inp s)"
  using assms toServerMsg_ok[OF assms(2,3), of 0]
  by (simp add: processIncoming_def Let_def typed_broadcast typed_map incoming_delete_typed incoming_edit_typed
      ClientMessage_ok_def)

lemma SendMessage_typed:
  assumes "hub_inv (sv_hub s)" "SendMessageRequest_ok req" "clock_ok clk"
  shows "keeps_typed s (map_option snd (SendMessage clk uuid req s))"
proof -
  let ?sm = "sent_message uuid (clk 0) req"
  have "ServerMessage_ok ?sm" using assms by (simp add: sent_message_def SendMessageRequest_ok_def clock_ok_def)
  then have "keeps_typed s (map_option (persistMessage ?sm) (hub_Broadcast ?sm True s))"
    by (intro typed_map typed_broadcast) (simp_all add: assms)
  then show ?thesis by (simp add: SendMessage_def Let_def option.map_comp comp_def)
qed

lemma DeleteMessage_typed:
  "hub_inv (sv_hub s) \<Longrightarrow> keeps_typed s (map_option snd (DeleteMessage E req s))"
  by (simp add: DeleteMessage_def Let_def option.map_comp comp_def option.map_ident typed_broadcast
      split: option.split prod.split sum.split)

lemma EditMessage_rpc_typed:
  "hub_inv (sv_hub s) \<Longrightarrow> clock_ok clk \<Longrightarrow> keeps_typed s (map_option snd (EditMessage_rpc E clk req s))"
  using EditMessage_time
  by (fastforce simp: EditMessage_rpc_def Let_def option.map_comp comp_def option.map_ident clock_ok_def
      intro!: typed_broadcast split: option.split prod.split sum.split)

lemma Register_publishes_nothing:
  "typed_calls (h_calls (Register ctx p c (alloc p c h))) = typed_calls (h_calls h)"
  by (auto simp: Register_def connCnt_Add_def register_locked_def Let_def typed_calls_def split: option.split)

lemma Chat_first_typed:
  assumes "hub_inv (sv_hub s)" "h_heap (sv_hub s) (st_client st) = None"
    and run: "Chat_first clk frame st s = Some (st', s')" "typed_calls (h_calls (sv_hub s))"
  shows "typed_calls (h_calls (sv_hub s'))"
proof (cases frame)
  case (Inl e)
  then show ?thesis using run by (simp add: Chat_first_def)
next
  case (Inr f)
  show ?thesis
  proof (cases "cm_UserId f = [] \<or> cm_RoomId f = []")
    case True
    then show ?thesis using run Inr by (auto simp: Chat_first_def)
  next
    case False
    let ?room = "normalizeRoomID (cm_RoomId f)" and ?p = "st_client st"
    let ?c = "NewClient (cm_UserId f) ?room"
    let ?s1 = "s\<lparr>sv_hub := Register (st_ctx st) ?p ?c (alloc ?p ?c (sv_hub s))\<rparr>"
    let ?s2 = "?s1\<lparr>sv_presence := SetOnline (toUnixMilli (clk 0)) (cm_UserId f) True (sv_presence ?s1)\<rparr>"
    have "hub_Broadcast (presence_event ?room (cm_UserId f) True 0) True ?s2 = Some s'"
      using run(1) Inr False by (auto simp: Chat_first_def Let_def)
    moreover have "hub_inv (sv_hub ?s2)" using Register_facts(1)[OF assms(1,2) refl] by simp
    then have "keeps_typed ?s2 (hub_Broadcast (presence_event ?room (cm_UserId f) True 0) True ?s2)"
      by (rule typed_broadcast) (simp_all add: presence_event_def)
    ultimately show ?thesis using run(2) by (simp add: keeps_typed_def Register_publishes_nothing)
  qed
qed

lemma Unregister_publishes_nothing:
  "Unregister p c h = Some k \<Longrightarrow> typed_calls (h_calls k) = typed_calls (h_calls h)"
  by (auto simp: Unregister_def connCnt_Add_def unregister_locked_def Let_def typed_calls_def
      split: option.splits if_splits)

lemma Chat_cleanup_typed:
  assumes "hub_inv (sv_hub s)" "in_room (sv_hub s) r (st_client st)" "clock_ok clk"
    and run: "Chat_cleanup clk st s = Some s'" "typed_calls (h_calls (sv_hub s))"
  shows "typed_calls (h_calls (sv_hub s'))"
proof -
  obtain c where c: "h_heap (sv_hub s) (st_client st) = Some c" using hub_inv_room[OF assms(1,2)] by blast
  obtain k where k: "Unregister (st_client st) c (sv_hub s) = Some k" "hub_inv k"
    by (rule Unregister_facts[OF assms(1,2) c])
  let ?t = "s\<lparr>sv_hub := k, sv_presence := SetOnline (toUnixMilli (clk 0)) (st_user st) False (sv_presence s)\<rparr>"
  let ?m = "presence_event (st_room st) (st_user st) False (toUnixMilli (clk 1))"
  have "hub_Broadcast ?m True ?t = Some s'" using run(1) c k(1) by (simp add: Chat_cleanup_def Let_def)
  moreover have "keeps_typed ?t (hub_Broadcast ?m True ?t)"
    using k(2) assms(3) by (intro typed_broadcast) (simp_all add: presence_event_def clock_ok_def)
  ultimately show ?thesis using run(2) Unregister_publishes_nothing[OF k(1)] by (simp add: keeps_typed_def)
qed

section \<open>Properties\<close>

text \<open>C22. Everything the service puts on the broker is well typed: whichever of its six publishing handlers
  runs (a frame of a stream, the start of a stream, the clean-up at its end, a message sent, deleted or
  edited by RPC), on requests and clock readings in the range of their protobuf types, the payload is the
  encoding of a message in range for the room it is published under, so that every pod that receives it
  decodes exactly that message.\<close>

theorem publications_typed:
  assumes "hub_inv (sv_hub s)" "typed_calls (h_calls (sv_hub s))" "clock_ok clk"
    and "ClientMessage_ok inp" "SendMessageRequest_ok req"
    and out: "processIncoming E clk inp s = Some s' \<or> map_option snd (SendMessage clk uuid req s) = Some s'
      \<or> map_option snd (DeleteMessage E del s) = Some s' \<or> map_option snd (EditMessage_rpc E clk ed s) = Some s'
      \<or> (h_heap (sv_hub s) (st_client st) = None \<and> (\<exists>st'. Chat_first clk frame st s = Some (st', s')))
      \<or> ((\<exists>r. in_room (sv_hub s) r (st_client st)) \<and> Chat_cleanup clk st s = Some s')"
  shows "typed_calls (h_calls (sv_hub s'))
    \<and> (\<forall>room data. CallPublish room data \<in> set (h_calls (sv_hub s')) \<longrightarrow>
        (\<exists>m. data = json_Marshal m \<and> json_Unmarshal data = Some m \<and> sm_RoomId m = room))"
proof -
  have "typed_calls (h_calls (sv_hub s'))"
    using out processIncoming_typed[OF assms(1,4,3), of E] SendMessage_typed[OF assms(1,5,3), of uuid]
      DeleteMessage_typed[OF assms(1), of E del] EditMessage_rpc_typed[OF assms(1,3), of E ed]
      Chat_first_typed[OF assms(1), of st clk frame _ s'] Chat_cleanup_typed[OF assms(1) _ assms(3), of _ st s'] assms(2)
    unfolding keeps_typed_def by blast
  then show ?thesis using json_Unmarshal_Marshal unfolding typed_calls_def by blast
qed

lemma demo_frame_ok: "ClientMessage_ok demo_frame"
  by (simp add: ClientMessage_ok_def demo_frame_def ClientMessage_zero_def)

lemma demo_clock_ok: "clock_ok (\<lambda>_. 1000000)"
  by (simp add: clock_ok_def toUnixMilli_def in_int64_def int64_min_def int64_max_def)

definition demo_send :: SendMessageRequest where
  "demo_send = \<lparr>smr_ConversationId = ''r'', smr_SenderId = ''u'', smr_Content = ''hi'', smr_MessageType = 0,
     smr_MediaKey = [], smr_MediaName = [], smr_MediaSizeBytes = 0, smr_MediaMimeType = [], smr_ReplyToMessageId = []\<rparr>"

theorem publications_typed_witness:
  "\<exists>s'. Chat_cleanup (\<lambda>_. 1000000) (new_stream 0 0) demo_server = Some s' \<and> typed_calls (h_calls (sv_hub s'))"
proof -
  have inv: "hub_inv (sv_hub demo_server)" and room: "in_room (sv_hub demo_server) ''r'' (st_client (new_stream 0 0))"
    using demo_hub_facts by (simp_all add: new_stream_def)
  obtain s' where s': "Chat_cleanup (\<lambda>_. 1000000) (new_stream 0 0) demo_server = Some s'"
    by (rule Chat_cleanup_facts[OF inv room])
  have typed: "typed_calls (h_calls (sv_hub demo_server))"
    by (simp add: demo_hub_def register_locked_def NewHubWithLimit_def shard_table.lookup_empty Let_def alloc_def
        typed_calls_def)
  have send: "SendMessageRequest_ok demo_send" by (simp add: SendMessageRequest_ok_def demo_send_def)
  show ?thesis
    using publications_typed[OF inv typed demo_clock_ok demo_frame_ok send] s' room by blast
qed

text \<open>C15. From one pod to another, over Kafka: a chat message that a client sends on a stream of one pod is
  put, by whichever pod of the consumer group gets its record, into the buffer of every client of that pod
  who is registered in the canonical form of the room and whose buffer has a free slot, with the text, the
  sender and the ids it was sent with, provided that the channels of the room's subscriptions in that pod
  hold nothing else. The integers of the frame and the clock are in the range of their Go types. (A message that finds a buffer or a channel full is dropped.)\<close>

theorem frame_reaches_other_pod:
  assumes s: "hub_inv (sv_hub s)" "chat_frame inp" "ClientMessage_ok inp" "clock_ok clk"
    and room: "room = normalizeRoomID (cm_RoomId inp)"
    and P: "pod_reachable wr P" "in_room (kp_hub P) room p" "h_heap (kp_hub P) p = Some c"
    and buffers: "\<forall>ch\<in>set (kafka_list (kp_broker P) room). \<forall>k. kb_chans (kp_broker P) ch = Some k \<longrightarrow>
        ch_buf k = [] \<and> 1 \<le> ch_cap k"
      "length (ch_buf (c_Send c)) < ch_cap (c_Send c)"
  shows "\<exists>s' data. processIncoming E clk inp s = Some s'
    \<and> h_calls (sv_hub s') = h_calls (sv_hub s) @ [CallPublish room data]
    \<and> (\<exists>h c' m. pod_takes (\<lambda>_. i) i [\<lparr>km_Key = room, km_Value = data\<rparr>] now room P = Some h
        \<and> h_heap h p = Some c' \<and> ch_buf (c_Send c') = ch_buf (c_Send c) @ [m]
        \<and> sm_Text m = cm_Text inp \<and> sm_UserId m = cm_UserId inp \<and> sm_MessageId m = cm_MessageId inp
        \<and> sm_RoomId m = room \<and> sm_MediaKey m = cm_MediaKey inp)"
proof -
  let ?sm = "(toServerMsg (clk 0) inp)\<lparr>sm_Status := MESSAGE_STATUS_SENT\<rparr>"
  obtain h where h: "Broadcast ?sm True (sv_hub s) = Some h"
    "processIncoming E clk inp s = Some (persistMessage ?sm (s\<lparr>sv_hub := h\<rparr>))"
    using processIncoming_chat[where clk = clk, OF s(1,2) refl, of E] by blast
  have ok: "\<forall>m\<in>set [?sm]. ServerMessage_ok m" using toServerMsg_ok[OF s(3,4), of 0] by simp
  have mine: "[?sm] = filter (\<lambda>m. i = i \<and> sm_RoomId m = room) [?sm]" by (simp add: room)
  have fits: "length (ch_buf (c_Send c)) + length [?sm] \<le> ch_cap (c_Send c)" using buffers(2) by simp
  obtain h' c' where h': "pod_takes (\<lambda>_. i) i (map published [?sm]) now room P = Some h'" "h_heap h' p = Some c'"
    "ch_buf (c_Send c') = ch_buf (c_Send c) @ map (stamp now) [?sm]"
    using pod_takes_delivers[OF P ok mine _ fits, of now] buffers(1) by auto
  have "h_calls h = h_calls (sv_hub s) @ [CallPublish room (json_Marshal ?sm)]"
    using Broadcast_frame(5)[OF s(1) h(1)] by (simp add: room)
  moreover have "map published [?sm] = [\<lparr>km_Key = room, km_Value = json_Marshal ?sm\<rparr>]"
    by (simp add: published_def room)
  moreover have "sm_Text (stamp now ?sm) = cm_Text inp" "sm_UserId (stamp now ?sm) = cm_UserId inp"
    "sm_MessageId (stamp now ?sm) = cm_MessageId inp" "sm_RoomId (stamp now ?sm) = room"
    "sm_MediaKey (stamp now ?sm) = cm_MediaKey inp"
    by (simp_all add: stamp_def toServerMsg_def room)
  ultimately show ?thesis
    using h(2) h' by (intro exI[of _ "persistMessage ?sm (s\<lparr>sv_hub := h\<rparr>)"] exI[of _ "json_Marshal ?sm"]) auto
qed

theorem frame_reaches_other_pod_witness:
  "\<exists>s' data h c' m. processIncoming demo_env (\<lambda>_. 1000000) demo_frame demo_server = Some s'
     \<and> pod_takes (\<lambda>_. 3) 3 [\<lparr>km_Key = ''r'', km_Value = data\<rparr>] 7 ''r'' demo_pod = Some h
     \<and> h_heap h 0 = Some c' \<and> ch_buf (c_Send c') = [m] \<and> sm_Text m = ''hi''"
proof -
  have inv: "hub_inv (sv_hub demo_server)" using demo_hub_facts(1) by simp
  have "TrimSpace ''r'' = ''r''" by (rule TrimSpace_solid) (simp_all add: solid_def)
  then have "normalizeRoomID ''r'' = ''r''" by (intro normalizeRoomID_other) (simp_all add: HasPrefix_def)
  then have room: "''r'' = normalizeRoomID (cm_RoomId demo_frame)" by (simp add: demo_frame_def)
  have cl: "in_room (kp_hub demo_pod) ''r'' 0" "h_heap (kp_hub demo_pod) 0 = Some (NewClient ''u'' ''r'')"
    using demo_hub_facts by simp_all
  have bufs: "\<forall>ch\<in>set (kafka_list (kp_broker demo_pod) ''r''). \<forall>k. kb_chans (kp_broker demo_pod) ch = Some k \<longrightarrow>
        ch_buf k = [] \<and> 1 \<le> ch_cap k"
    by (simp add: demo_pod_def kafka_list_Subscribe) (simp add: Kafka_Subscribe_def demo_kafka_def kafka_list_def Let_def)
  have fits: "length (ch_buf (c_Send (NewClient ''u'' ''r''))) < ch_cap (c_Send (NewClient ''u'' ''r''))"
    by (simp add: NewClient_def)
  have body: "cm_Text demo_frame = ''hi''" by (simp add: demo_frame_def)
  show ?thesis
    using frame_reaches_other_pod[where E = demo_env and i = 3 and now = 7, OF inv demo_frame_chat demo_frame_ok
        demo_clock_ok room demo_pod_reachable[of "\<lambda>_. Inr ()"] cl bufs fits] body
    by (fastforce simp: NewClient_def)
qed

end
