(* ===== verification/Group_Map.thy ===== *)
theory Group_Map
  imports Message_Repo
begin

text \<open>
  Group membership: the operations of \<open>app/repository/mongodb.go\<close> on the collection
  \<open>group_members\<close> implement operations on one map per conversation, from a user to role and
  status. The map is what the documents of a conversation say; the unique index
  \<open>gm_conv_user\<close> makes it well defined.
\<close>

section \<open>The abstract group\<close>

type_synonym group = "string \<rightharpoonup> string \<times> string"

definition group_of :: "string \<Rightarrow> groupMemberDoc list \<Rightarrow> group" where
  "group_of convID gs = (\<lambda>u. map_option (\<lambda>g. (gm_Role g, gm_Status g)) (List.find (same_member convID u) gs))"

definition gm_unique :: "groupMemberDoc list \<Rightarrow> bool" where
  "gm_unique gs \<longleftrightarrow> distinct (map (\<lambda>g. (gm_ConversationID g, gm_UserID g)) gs)"

definition g_create :: "string \<Rightarrow> string list \<Rightarrow> group" where
  "g_create owner members = (\<lambda>u. if u = owner then Some (''OWNER'', ''ACTIVE'')
     else if u \<in> set members \<and> u \<noteq> [] then Some (''MEMBER'', ''ACTIVE'') else None)"

definition g_add :: "string \<Rightarrow> string \<Rightarrow> group \<Rightarrow> group" where
  "g_add u role g = g(u \<mapsto> (if role = [] then ''MEMBER'' else role, ''ACTIVE''))"

definition g_remove :: "string \<Rightarrow> group \<Rightarrow> group" where
  "g_remove u g = (case g u of None \<Rightarrow> g | Some (r, _) \<Rightarrow> g(u \<mapsto> (r, ''INACTIVE'')))"

definition g_active :: "string \<Rightarrow> group \<Rightarrow> bool" where
  "g_active u g \<longleftrightarrow> (\<exists>r. g u = Some (r, ''ACTIVE''))"

definition g_role :: "string \<Rightarrow> string \<Rightarrow> group \<Rightarrow> group" where
  "g_role u role g = (case g u of None \<Rightarrow> g | Some (_, st) \<Rightarrow> g(u \<mapsto> (role, st)))"

definition g_transfer :: "string \<Rightarrow> string \<Rightarrow> group \<Rightarrow> group" where
  "g_transfer cur new g =
     (let g1 = (if g_active new g then g_role new ''OWNER'' g else g)
      in if cur = [] then g1 else g_role cur ''ADMIN'' g1)"

definition owners :: "group \<Rightarrow> string set" where
  "owners g = {u. \<exists>st. g u = Some (''OWNER'', st)}"

section \<open>Documents\<close>

lemma find_Some_unique:
  assumes "gm_unique gs" "g \<in> set gs" "same_member convID u g"
  shows "List.find (same_member convID u) gs = Some g"
  using assms
proof (induction gs)
  case (Cons x gs)
  show ?case
  proof (cases "same_member convID u x")
    case True
    have "x = g"
    proof (rule ccontr)
      assume "x \<noteq> g"
      then have "g \<in> set gs" using Cons.prems(2) by simp
      then have "(gm_ConversationID x, gm_UserID x) \<in> set (map (\<lambda>g. (gm_ConversationID g, gm_UserID g)) gs)"
        using True Cons.prems(3) by (auto simp: same_member_def intro!: image_eqI[where x = g])
      then show False using Cons.prems(1) by (simp add: gm_unique_def)
    qed
    then show ?thesis using True by simp
  next
    case False
    then show ?thesis using Cons by (auto simp: gm_unique_def)
  qed
qed simp

lemma group_of_None: "group_of convID gs u = None \<longleftrightarrow> (\<forall>g\<in>set gs. \<not> same_member convID u g)"
  by (auto simp: group_of_def find_None_iff)

lemma group_of_Some:
  assumes "gm_unique gs" "g \<in> set gs" "gm_ConversationID g = convID"
  shows "group_of convID gs (gm_UserID g) = Some (gm_Role g, gm_Status g)"
  using find_Some_unique[OF assms(1,2), of convID "gm_UserID g"] assms(3) by (simp add: group_of_def same_member_def)

lemma group_of_SomeD:
  assumes "group_of convID gs u = Some (r, st)"
  obtains g where "g \<in> set gs" "same_member convID u g" "gm_Role g = r" "gm_Status g = st"
proof -
  obtain g where g: "List.find (same_member convID u) gs = Some g" "gm_Role g = r" "gm_Status g = st"
    using assms by (auto simp: group_of_def)
  then have "g \<in> set gs" "same_member convID u g" unfolding find_Some_iff by (metis nth_mem)+
  then show ?thesis using that g by blast
qed

text \<open>Rewriting one document of a conversation changes that user's entry; appending a document for
  a new user adds an entry.\<close>

lemma group_of_rewrite:
  assumes "gm_unique (xs @ d # ys)" "gm_ConversationID d' = gm_ConversationID d" "gm_UserID d' = gm_UserID d"
  shows "gm_unique (xs @ d' # ys)"
    and "group_of convID (xs @ d' # ys) = (if convID = gm_ConversationID d
      then (group_of convID (xs @ d # ys))(gm_UserID d \<mapsto> (gm_Role d', gm_Status d'))
      else group_of convID (xs @ d # ys))"
proof -
  show u: "gm_unique (xs @ d' # ys)" using assms by (simp add: gm_unique_def)
  have same: "same_member convID u d' = same_member convID u d" for u using assms(2,3) by (simp add: same_member_def)
  show "group_of convID (xs @ d' # ys) = (if convID = gm_ConversationID d
      then (group_of convID (xs @ d # ys))(gm_UserID d \<mapsto> (gm_Role d', gm_Status d'))
      else group_of convID (xs @ d # ys))"
  proof
    fix v
    show "group_of convID (xs @ d' # ys) v = (if convID = gm_ConversationID d
      then (group_of convID (xs @ d # ys))(gm_UserID d \<mapsto> (gm_Role d', gm_Status d'))
      else group_of convID (xs @ d # ys)) v"
    proof (cases "same_member convID v d")
      case True
      then show ?thesis
        using group_of_Some[OF u, of d' convID] assms(2,3) by (auto simp: same_member_def)
    next
      case False
      then have "List.find (same_member convID v) (xs @ d' # ys) = List.find (same_member convID v) (xs @ d # ys)"
        using same by (induction xs) auto
      then show ?thesis using False by (auto simp: group_of_def same_member_def)
    qed
  qed
qed

lemma group_of_append:
  assumes "gm_unique gs" "group_of (gm_ConversationID d) gs (gm_UserID d) = None"
  shows "gm_unique (gs @ [d])"
    and "group_of convID (gs @ [d]) = (if convID = gm_ConversationID d
      then (group_of convID gs)(gm_UserID d \<mapsto> (gm_Role d, gm_Status d)) else group_of convID gs)"
proof -
  have new: "\<forall>g\<in>set gs. \<not> same_member (gm_ConversationID d) (gm_UserID d) g" using assms(2) by (simp add: group_of_None)
  then show "gm_unique (gs @ [d])" using assms(1) by (auto simp: gm_unique_def same_member_def)
  have "List.find (same_member convID v) (gs @ [d]) =
      (case List.find (same_member convID v) gs of None \<Rightarrow> if same_member convID v d then Some d else None | Some g \<Rightarrow> Some g)" for v
    by (induction gs) auto
  moreover have "List.find (same_member convID v) gs = None" if "same_member convID v d" for v
    using that new by (auto simp: same_member_def find_None_iff)
  ultimately show "group_of convID (gs @ [d]) = (if convID = gm_ConversationID d
      then (group_of convID gs)(gm_UserID d \<mapsto> (gm_Role d, gm_Status d)) else group_of convID gs)"
    by (auto simp: group_of_def fun_eq_iff same_member_def split: option.splits)
qed

lemma find_other_conversation:
  "c \<noteq> convID \<Longrightarrow>
   List.find (same_member c u) (filter (\<lambda>g. gm_ConversationID g \<noteq> convID) gs) = List.find (same_member c u) gs"
  by (induction gs) (auto simp: same_member_def)

lemma gm_clash_keys:
  "gm_ID a' = gm_ID a \<Longrightarrow> gm_ConversationID a' = gm_ConversationID a \<Longrightarrow> gm_UserID a' = gm_UserID a \<Longrightarrow>
   gm_clash a' b = gm_clash a b"
  by (simp add: gm_clash_def)

section \<open>Creating a group\<close>

lemma unique_members_facts:
  "distinct (unique_members c ms)" "set (unique_members c ms) = insert c {m \<in> set ms. m \<noteq> []}"
  by (auto simp: unique_members_def)

lemma member_fields [simp]:
  "gm_ConversationID (member_doc convID now c m) = convID" "gm_UserID (member_doc convID now c m) = m"
  "gm_Role (member_doc convID now c m) = (if m = c then ''OWNER'' else ''MEMBER'')"
  "gm_Status (member_doc convID now c m) = ''ACTIVE''" "gm_ID (member_doc convID now c m) = gm_doc_id convID m"
  by (simp_all add: member_doc_def)

lemma group_of_member_docs:
  assumes "gm_unique gs" "\<forall>g\<in>set gs. gm_ConversationID g \<noteq> convID" "distinct ms"
  shows "gm_unique (gs @ map (member_doc convID now c) ms)"
    and "group_of k (gs @ map (member_doc convID now c) ms) = (if k = convID
      then (\<lambda>u. if u \<in> set ms then Some (if u = c then ''OWNER'' else ''MEMBER'', ''ACTIVE'') else None)
      else group_of k gs)"
proof -
  have "gm_unique (gs @ map (member_doc convID now c) ms)
    \<and> (\<forall>k. group_of k (gs @ map (member_doc convID now c) ms) = (if k = convID
      then (\<lambda>u. if u \<in> set ms then Some (if u = c then ''OWNER'' else ''MEMBER'', ''ACTIVE'') else None)
      else group_of k gs))" (is "?P ms")
    using assms(3)
  proof (induction ms rule: rev_induct)
    case Nil
    have "group_of convID gs = Map.empty"
      using assms(2) by (intro ext) (simp add: group_of_None same_member_def)
    then show ?case using assms(1) by simp
  next
    case (snoc m ms)
    let ?gs = "gs @ map (member_doc convID now c) ms" and ?d = "member_doc convID now c m"
    have IH: "gm_unique ?gs" "group_of convID ?gs = (\<lambda>u. if u \<in> set ms
        then Some (if u = c then ''OWNER'' else ''MEMBER'', ''ACTIVE'') else None)"
      "\<And>k. k \<noteq> convID \<Longrightarrow> group_of k ?gs = group_of k gs" using snoc by auto
    have "group_of (gm_ConversationID ?d) ?gs (gm_UserID ?d) = None"
      using IH(2) snoc.prems by simp
    note app = group_of_append[OF IH(1) this, unfolded append_assoc]
    have "group_of k (gs @ map (member_doc convID now c) (ms @ [m])) u = (if k = convID
      then if u \<in> set (ms @ [m]) then Some (if u = c then ''OWNER'' else ''MEMBER'', ''ACTIVE'') else None
      else group_of k gs u)" for k u
      using app(2)[of k] IH(2,3) by (cases "k = convID"; cases "u = m") simp_all
    then show ?case using app(1) by (auto simp: fun_eq_iff)
  qed
  then show "gm_unique (gs @ map (member_doc convID now c) ms)"
    "group_of k (gs @ map (member_doc convID now c) ms) = (if k = convID
      then (\<lambda>u. if u \<in> set ms then Some (if u = c then ''OWNER'' else ''MEMBER'', ''ACTIVE'') else None)
      else group_of k gs)" by blast+
qed

text \<open>The ids of a new group are fresh: no conversation and no member document of its id, and no
  member document whose \<open>_id\<close> is one of the new ones.\<close>

definition conv_fresh :: "string \<Rightarrow> mongo_db \<Rightarrow> bool" where
  "conv_fresh convID db \<longleftrightarrow> (\<forall>d\<in>set (db_conversations db). cv_ID d \<noteq> convID)
     \<and> (\<forall>g\<in>set (db_group_members db). gm_ConversationID g \<noteq> convID \<and> (\<forall>s. gm_ID g = StrId s \<longrightarrow>
          take (length (''GM_'' @ convID @ ''_'')) s \<noteq> ''GM_'' @ convID @ ''_''))"

lemma member_docs_no_clash:
  "distinct ms \<Longrightarrow> sorted_wrt (\<lambda>x y. \<not> gm_clash y x) (map (member_doc convID now c) ms)"
  "conv_fresh convID db \<Longrightarrow> \<forall>x\<in>set (map (member_doc convID now c) ms). \<forall>g\<in>set (db_group_members db). \<not> gm_clash x g"
proof -
  show "distinct ms \<Longrightarrow> sorted_wrt (\<lambda>x y. \<not> gm_clash y x) (map (member_doc convID now c) ms)"
    by (induction ms) (auto simp: gm_clash_def gm_doc_id_def)
  show "\<forall>x\<in>set (map (member_doc convID now c) ms). \<forall>g\<in>set (db_group_members db). \<not> gm_clash x g"
    if fresh: "conv_fresh convID db"
  proof (intro ballI notI)
    fix x g
    assume x: "x \<in> set (map (member_doc convID now c) ms)" and g: "g \<in> set (db_group_members db)" "gm_clash x g"
    obtain m where m: "x = member_doc convID now c m" using x by auto
    have ids: "gm_ConversationID g \<noteq> convID" "\<forall>s. gm_ID g = StrId s \<longrightarrow>
        take (length (''GM_'' @ convID @ ''_'')) s \<noteq> ''GM_'' @ convID @ ''_''"
      using fresh g(1) unfolding conv_fresh_def by blast+
    have "gm_ID g = StrId (''GM_'' @ convID @ ''_'' @ m)" using g(2) ids(1) m by (simp add: gm_clash_def gm_doc_id_def)
    then show False using ids(2) by simp
  qed
qed

section \<open>Operations over a server that answers\<close>

context mongo_repo_up
begin

text \<open>An update of one member that keeps the keys, with and without upsert.\<close>

lemma member_update:
  assumes u: "distinct (u_paths upd)" "\<And>g. gm_ID (u_apply upd g) = gm_ID g
      \<and> gm_ConversationID (u_apply upd g) = gm_ConversationID g \<and> gm_UserID (u_apply upd g) = gm_UserID g"
    and none: "u_insert upd = None" and uniq: "gm_unique gs" and sub: "\<And>g. p g \<Longrightarrow> same_member convID uid g"
  obtains n gs' where "c_update_one (mo_group_members M) p upd gs = (Inr n, gs')" "gm_unique gs'"
    "(n = 0 \<and> gs' = gs \<and> (\<forall>g\<in>set gs. \<not> p g))
     \<or> (n = 1 \<and> (\<exists>g. p g \<and> g \<in> set gs \<and> group_of convID gs uid = Some (gm_Role g, gm_Status g)
          \<and> (\<forall>c. group_of c gs' = (if c = convID
               then (group_of c gs)(uid \<mapsto> (gm_Role (u_apply upd g), gm_Status (u_apply upd g))) else group_of c gs))))"
proof -
  have "\<forall>x y. gm_clash (u_apply upd x) y = gm_clash x y" using u(2) gm_clash_keys by blast
  then obtain n gs' where r: "c_update_one (mo_group_members M) p upd gs = (Inr n, gs')"
    using gmu.update_one_up[OF u(1), of gs p] none by (metis prod.collapse)
  note ok = gm.update_one_ok[OF r]
  show ?thesis
  proof (cases "\<exists>g\<in>set gs. p g")
    case False
    then show ?thesis using ok none that[OF r] uniq by auto
  next
    case True
    then obtain xs d ys where n: "n = 1" and d: "gs = xs @ d # ys" "p d" "gs' = xs @ u_apply upd d # ys"
      using ok by auto
    have key: "gm_ConversationID d = convID" "gm_UserID d = uid" using sub[OF d(2)] by (simp_all add: same_member_def)
    note rw = group_of_rewrite[of xs d ys "u_apply upd d", folded d(1,3)]
    have "group_of convID gs uid = Some (gm_Role d, gm_Status d)" using group_of_Some[OF uniq, of d convID] d(1) key by simp
    then show ?thesis using that[OF r] rw uniq u(2)[of d] d key n by auto
  qed
qed

lemma set_role_update:
  assumes "gm_unique gs" "\<And>g. p g \<Longrightarrow> same_member convID uid g"
    and "\<And>g. g \<in> set gs \<Longrightarrow> same_member convID uid g \<Longrightarrow> p g \<longleftrightarrow> ok (gm_Status g)"
  obtains n gs' where "c_update_one (mo_group_members M) p (set_role role) gs = (Inr n, gs')" "gm_unique gs'"
    "n = 0 \<longleftrightarrow> \<not> (\<exists>r st. group_of convID gs uid = Some (r, st) \<and> ok st)"
    "\<And>c. group_of c gs' = (if c = convID \<and> n \<noteq> 0 then g_role uid role (group_of c gs) else group_of c gs)"
proof -
  have sr: "u_apply (set_role role) = (\<lambda>g. g\<lparr>gm_Role := role\<rparr>)" "distinct (u_paths (set_role role))"
    "u_insert (set_role role) = None" by (simp_all add: set_role_def)
  obtain n gs' where r: "c_update_one (mo_group_members M) p (set_role role) gs = (Inr n, gs')" "gm_unique gs'"
    "(n = 0 \<and> gs' = gs \<and> (\<forall>g\<in>set gs. \<not> p g))
     \<or> (n = 1 \<and> (\<exists>g. p g \<and> g \<in> set gs \<and> group_of convID gs uid = Some (gm_Role g, gm_Status g)
          \<and> (\<forall>c. group_of c gs' = (if c = convID then (group_of c gs)(uid \<mapsto> (role, gm_Status g)) else group_of c gs))))"
    by (rule member_update[OF sr(2) _ sr(3) assms(1,2), unfolded sr(1)]) (simp_all cong: if_cong)
  from r(3) show ?thesis
  proof (elim disjE conjE exE)
    assume n: "n = 0" "gs' = gs" "\<forall>g\<in>set gs. \<not> p g"
    have "\<not> ok st" if entry: "group_of convID gs uid = Some (rl, st)" for rl st
    proof -
      obtain g where "g \<in> set gs" "same_member convID uid g" "gm_Status g = st"
        by (rule group_of_SomeD[OF entry])
      then show ?thesis using n(3) assms(3) by blast
    qed
    then show ?thesis using that[OF r(1,2)] n by auto
  next
    fix g assume g: "n = 1" "p g" "g \<in> set gs" "group_of convID gs uid = Some (gm_Role g, gm_Status g)"
      "\<forall>c. group_of c gs' = (if c = convID then (group_of c gs)(uid \<mapsto> (role, gm_Status g)) else group_of c gs)"
    have "ok (gm_Status g)" using assms(2,3) g(2,3) by blast
    then show ?thesis using that[OF r(1,2)] g by (auto simp: g_role_def)
  qed
qed

lemma PromoteAdmin_refines:
  assumes "gm_unique (db_group_members db)"
  shows "\<exists>res gs'. PromoteAdmin M convID uid op db = (res, db\<lparr>db_group_members := gs'\<rparr>) \<and> gm_unique gs'
    \<and> (let g = group_of convID (db_group_members db)
       in if g_active uid g
          then res = Inr () \<and> (\<forall>c. group_of c gs' = (if c = convID then g_role uid ''ADMIN'' g else group_of c (db_group_members db)))
          else res = Inl ''active member not found in group'' \<and> (\<forall>c. group_of c gs' = group_of c (db_group_members db)))"
proof -
  obtain n gs' where r: "c_update_one (mo_group_members M) (active_member convID uid) (set_role ''ADMIN'')
      (db_group_members db) = (Inr n, gs')" "gm_unique gs'"
    "n = 0 \<longleftrightarrow> \<not> (\<exists>r st. group_of convID (db_group_members db) uid = Some (r, st) \<and> st = ''ACTIVE'')"
    "\<And>c. group_of c gs' = (if c = convID \<and> n \<noteq> 0 then g_role uid ''ADMIN'' (group_of c (db_group_members db))
       else group_of c (db_group_members db))"
    by (rule set_role_update[OF assms, of "active_member convID uid" convID uid "\<lambda>st. st = ''ACTIVE''" "''ADMIN''"])
      (auto simp: active_member_def)
  have n: "n = 0 \<longleftrightarrow> \<not> g_active uid (group_of convID (db_group_members db))"
    using r(3) by (auto simp: g_active_def)
  show ?thesis using r(1,2,4) n by (auto simp: PromoteAdmin_def Let_def)
qed

lemma RemoveGroupMember_refines:
  assumes "gm_unique (db_group_members db)"
  shows "\<exists>db'. RemoveGroupMember M convID uid op db = (Inr (), db') \<and> gm_unique (db_group_members db')
    \<and> (\<forall>c. group_of c (db_group_members db') =
         (if c = convID then g_remove uid (group_of c (db_group_members db)) else group_of c (db_group_members db)))"
proof -
  let ?u = "\<lparr>u_paths = [''status''], u_apply = (\<lambda>g. g\<lparr>gm_Status := ''INACTIVE''\<rparr>), u_insert = None\<rparr> :: groupMemberDoc update"
  let ?gs = "db_group_members db"
  obtain n gs' where r: "c_update_one (mo_group_members M) (same_member convID uid) ?u ?gs = (Inr n, gs')" "gm_unique gs'"
    "(n = 0 \<and> gs' = ?gs \<and> (\<forall>g\<in>set ?gs. \<not> same_member convID uid g))
     \<or> (n = 1 \<and> (\<exists>g. same_member convID uid g \<and> g \<in> set ?gs \<and> group_of convID ?gs uid = Some (gm_Role g, gm_Status g)
          \<and> (\<forall>c. group_of c gs' = (if c = convID then (group_of c ?gs)(uid \<mapsto> (gm_Role g, ''INACTIVE'')) else group_of c ?gs))))"
    by (rule member_update[of ?u ?gs "same_member convID uid" convID uid]) (simp_all add: assms cong: if_cong)
  have "group_of c gs' = (if c = convID then g_remove uid (group_of c ?gs) else group_of c ?gs)" for c
    using r(3) group_of_None[of convID ?gs uid] by (auto simp: g_remove_def)
  then show ?thesis using r(1,2) by (simp add: RemoveGroupMember_def)
qed

lemma AddGroupMember_refines:
  assumes uniq: "gm_unique (db_group_members db)" and oid: "\<forall>g\<in>set (db_group_members db). gm_ID g \<noteq> ObjectId oid"
  shows "\<exists>db'. AddGroupMember M oid now convID uid op role db = (Inr (), db') \<and> gm_unique (db_group_members db')
    \<and> (\<forall>c. group_of c (db_group_members db') =
         (if c = convID then g_add uid role (group_of c (db_group_members db)) else group_of c (db_group_members db)))"
proof -
  let ?gs = "db_group_members db" and ?p = "same_member convID uid" and ?role = "if role = [] then ''MEMBER'' else role"
  let ?f = "\<lambda>g. g\<lparr>gm_Role := ?role, gm_JoinedAt := now, gm_Status := ''ACTIVE''\<rparr> :: groupMemberDoc"
  let ?d = "\<lparr>gm_ID = ObjectId oid, gm_ConversationID = convID, gm_UserID = uid, gm_Role = ?role, gm_JoinedAt = now,
    gm_Status = ''ACTIVE''\<rparr> :: groupMemberDoc"
  let ?u = "\<lparr>u_paths = [''role'', ''joined_at'', ''status''], u_apply = ?f, u_insert = Some ?d\<rparr>"
  have "(\<exists>x\<in>set ?gs. ?p x) \<or> (\<forall>x\<in>set ?gs. \<not> gm_clash ?d x)"
    using oid by (auto simp: gm_clash_def same_member_def)
  then obtain n gs' where r: "c_update_one (mo_group_members M) ?p ?u ?gs = (Inr n, gs')"
    using gmu.update_one_up[of ?u ?gs ?p] by (auto simp: gm_clash_def) (metis prod.collapse)+
  note ok = gm.update_one_ok[OF r]
  have "gm_unique gs' \<and> (\<forall>c. group_of c gs' = (if c = convID then g_add uid role (group_of c ?gs) else group_of c ?gs))"
  proof (cases "\<exists>g\<in>set ?gs. ?p g")
    case True
    then obtain xs d ys where d: "?gs = xs @ d # ys" "?p d" "gs' = xs @ ?f d # ys" using ok by auto
    then show ?thesis
      using group_of_rewrite[of xs d ys "?f d"] uniq by (auto simp: g_add_def same_member_def)
  next
    case False
    then have "group_of convID ?gs uid = None" "gs' = ?gs @ [?d]" using ok by (auto simp: group_of_None)
    then show ?thesis using group_of_append[OF uniq, of ?d] by (auto simp: g_add_def)
  qed
  then show ?thesis using r by (simp add: AddGroupMember_def Let_def)
qed

lemma TransferOwnership_refines:
  assumes "gm_unique (db_group_members db)"
  shows "\<exists>db'. TransferOwnership M convID cur new db = (Inr (), db') \<and> gm_unique (db_group_members db')
    \<and> (\<forall>c. group_of c (db_group_members db') =
         (if c = convID then g_transfer cur new (group_of c (db_group_members db)) else group_of c (db_group_members db)))"
proof -
  let ?gs = "db_group_members db"
  obtain n gs1 where a: "c_update_one (mo_group_members M) (active_member convID new) (set_role ''OWNER'') ?gs = (Inr n, gs1)"
    "gm_unique gs1" "n = 0 \<longleftrightarrow> \<not> (\<exists>r st. group_of convID ?gs new = Some (r, st) \<and> st = ''ACTIVE'')"
    "\<And>c. group_of c gs1 = (if c = convID \<and> n \<noteq> 0 then g_role new ''OWNER'' (group_of c ?gs) else group_of c ?gs)"
    by (rule set_role_update[OF assms, of "active_member convID new" convID new "\<lambda>st. st = ''ACTIVE''" "''OWNER''"])
      (auto simp: active_member_def)
  obtain m gs2 where b: "c_update_one (mo_group_members M) (same_member convID cur) (set_role ''ADMIN'') gs1 = (Inr m, gs2)"
    "gm_unique gs2" "m = 0 \<longleftrightarrow> \<not> (\<exists>r st. group_of convID gs1 cur = Some (r, st) \<and> True)"
    "\<And>c. group_of c gs2 = (if c = convID \<and> m \<noteq> 0 then g_role cur ''ADMIN'' (group_of c gs1) else group_of c gs1)"
    by (rule set_role_update[OF a(2), of "same_member convID cur" convID cur "\<lambda>_. True" "''ADMIN''"]) auto
  have first: "group_of convID gs1 = (if g_active new (group_of convID ?gs) then g_role new ''OWNER'' (group_of convID ?gs)
      else group_of convID ?gs)" using a(3,4) by (auto simp: g_active_def)
  have second: "group_of convID gs2 = g_role cur ''ADMIN'' (group_of convID gs1)"
    using b(3,4) by (cases "group_of convID gs1 cur") (auto simp: g_role_def)
  have "group_of c gs1 = group_of c ?gs" "group_of c gs2 = group_of c ?gs" if "c \<noteq> convID" for c
    using that a(4) b(4) by simp_all
  then show ?thesis
    using a(1,2) b(1,2) first second by (auto simp: TransferOwnership_def g_transfer_def Let_def)
qed

lemma DeleteGroup_refines:
  assumes "gm_unique (db_group_members db)"
  shows "\<exists>db'. DeleteGroup M convID owner db = (Inr (), db') \<and> gm_unique (db_group_members db')
    \<and> (\<forall>c. group_of c (db_group_members db') = (if c = convID then Map.empty else group_of c (db_group_members db)))"
proof -
  let ?gs = "db_group_members db" and ?p = "\<lambda>g. gm_ConversationID g = convID"
  obtain n cs where r: "c_delete_one (mo_conversations M) (\<lambda>d. cv_ID d = convID) (db_conversations db) = (Inr n, cs)"
    using convu.delete_one_up by (metis prod.collapse)
  obtain k gs' where d: "c_delete_many (mo_group_members M) ?p ?gs = (Inr k, gs')"
    using gmu.delete_many_up by (metis prod.collapse)
  have gs': "gs' = filter (\<lambda>g. \<not> ?p g) ?gs" by (rule gm.delete_many_ok[OF d])
  have "gm_unique gs'" using assms unfolding gs' gm_unique_def by (simp add: distinct_map_filter)
  moreover have "group_of c gs' = (if c = convID then Map.empty else group_of c ?gs)" for c
  proof
    fix u
    show "group_of c gs' u = (if c = convID then Map.empty else group_of c ?gs) u"
    proof (cases "c = convID")
      case True
      then have "group_of c gs' u = None" unfolding group_of_None gs' by (auto simp: same_member_def)
      then show ?thesis using True by simp
    next
      case False
      then show ?thesis by (simp add: group_of_def gs' find_other_conversation)
    qed
  qed
  ultimately show ?thesis using r d by (simp add: DeleteGroup_def)
qed

lemma CreateGroupConversation_refines:
  assumes uniq: "gm_unique (db_group_members db)" and fresh: "conv_fresh (''CONV_'' @ FormatInt nano) db"
    and order: "mset (map_order (unique_members cby ms)) = mset (unique_members cby ms)"
    and args: "name \<noteq> []" "cby \<noteq> []"
  shows "\<exists>d db'. CreateGroupConversation M map_order nano now name photo descr cby ms db = (Inr d, db')
    \<and> cd_ConversationId d = ''CONV_'' @ FormatInt nano \<and> gm_unique (db_group_members db')
    \<and> (\<forall>c. group_of c (db_group_members db') =
         (if c = ''CONV_'' @ FormatInt nano then g_create cby ms else group_of c (db_group_members db)))"
proof -
  let ?id = "''CONV_'' @ FormatInt nano" and ?ms = "map_order (unique_members cby ms)" and ?gs = "db_group_members db"
  let ?conv = "group_doc ?id now name photo descr cby ?ms" and ?docs = "map (member_doc ?id now cby) ?ms"
  have ms: "distinct ?ms" "set ?ms = insert cby {m \<in> set ms. m \<noteq> []}"
    using mset_eq_imp_distinct_iff[OF order] mset_eq_setD[OF order] unique_members_facts by blast+
  have "\<forall>x\<in>set (db_conversations db). \<not> conv_clash ?conv x"
    using fresh by (auto simp: conv_fresh_def conv_clash_def group_doc_def)
  then have ins: "c_insert_one (mo_conversations M) ?conv (db_conversations db) = (Inr (), db_conversations db @ [?conv])"
    by (rule convu.insert_fresh)
  obtain gs' where gs': "c_insert_many (mo_group_members M) ?docs ?gs = (Inr (), gs')"
    using gmu.insert_many_up[OF member_docs_no_clash(1)[OF ms(1)] member_docs_no_clash(2)[OF fresh]]
    by (metis prod.collapse)
  have app: "gs' = ?gs @ ?docs" by (rule gm.insert_many_ok[OF gs'])
  have "\<forall>g\<in>set ?gs. gm_ConversationID g \<noteq> ?id" using fresh by (simp add: conv_fresh_def)
  note docs = group_of_member_docs[OF uniq this ms(1), where now = now and c = cby, folded app]
  have create: "(\<lambda>u. if u \<in> set ?ms then Some (if u = cby then ''OWNER'' else ''MEMBER'', ''ACTIVE'') else None) = g_create cby ms"
    unfolding ms(2) by (auto simp: g_create_def fun_eq_iff)
  have "?docs \<noteq> []" using ms(2) by auto
  then have "CreateGroupConversation M map_order nano now name photo descr cby ms db =
      (Inr (docToConversationDetail ?conv), db\<lparr>db_conversations := db_conversations db @ [?conv], db_group_members := gs'\<rparr>)"
    using args ins gs' by (simp add: CreateGroupConversation_def Let_def)
  moreover have "cd_ConversationId (docToConversationDetail ?conv) = ?id" by (simp add: group_doc_def)
  ultimately show ?thesis using docs create by (intro exI conjI) (assumption, auto)
qed

end

section \<open>Sequences of group operations\<close>

text \<open>One call of a group operation, with the clock readings, the map order and the object id it
  gets; \<open>group_call\<close> runs it and keeps the error. Its specification works on the maps alone.\<close>

datatype group_op =
    Create int gotime string string string string "string list"
  | Add nat gotime string string string string
  | Remove string string string
  | Leave string string
  | Promote string string string
  | Transfer string string string
  | Delete string string

fun group_call ::
  "mongo_ops \<Rightarrow> (string list \<Rightarrow> string list) \<Rightarrow> group_op \<Rightarrow> mongo_db \<Rightarrow> unit go_result \<times> mongo_db" where
  "group_call M order (Create nano now name photo descr cby ms) db =
     (case CreateGroupConversation M order nano now name photo descr cby ms db of
        (Inl e, db') \<Rightarrow> (Inl e, db') | (Inr _, db') \<Rightarrow> (Inr (), db'))"
| "group_call M order (Add oid now convID uid op role) db = AddGroupMember M oid now convID uid op role db"
| "group_call M order (Remove convID uid op) db = RemoveGroupMember M convID uid op db"
| "group_call M order (Leave convID uid) db = LeaveGroup M convID uid db"
| "group_call M order (Promote convID uid op) db = PromoteAdmin M convID uid op db"
| "group_call M order (Transfer convID cur new) db = TransferOwnership M convID cur new db"
| "group_call M order (Delete convID owner) db = DeleteGroup M convID owner db"

fun group_spec :: "group_op \<Rightarrow> (string \<Rightarrow> group) \<Rightarrow> unit go_result \<times> (string \<Rightarrow> group)" where
  "group_spec (Create nano now name photo descr cby ms) G =
     (if name = [] then (Inl ''group_name is required'', G)
      else if cby = [] then (Inl ''created_by is required'', G)
      else (Inr (), G(''CONV_'' @ FormatInt nano := g_create cby ms)))"
| "group_spec (Add oid now convID uid op role) G = (Inr (), G(convID := g_add uid role (G convID)))"
| "group_spec (Remove convID uid op) G = (Inr (), G(convID := g_remove uid (G convID)))"
| "group_spec (Leave convID uid) G = (Inr (), G(convID := g_remove uid (G convID)))"
| "group_spec (Promote convID uid op) G =
     (if g_active uid (G convID) then (Inr (), G(convID := g_role uid ''ADMIN'' (G convID)))
      else (Inl ''active member not found in group'', G))"
| "group_spec (Transfer convID cur new) G = (Inr (), G(convID := g_transfer cur new (G convID)))"
| "group_spec (Delete convID owner) G = (Inr (), G(convID := Map.empty))"

fun op_fresh :: "group_op \<Rightarrow> mongo_db \<Rightarrow> bool" where
  "op_fresh (Create nano _ _ _ _ _ _) db = conv_fresh (''CONV_'' @ FormatInt nano) db"
| "op_fresh (Add oid _ _ _ _ _) db = (\<forall>g\<in>set (db_group_members db). gm_ID g \<noteq> ObjectId oid)"
| "op_fresh _ db = True"

fun group_calls ::
  "mongo_ops \<Rightarrow> (string list \<Rightarrow> string list) \<Rightarrow> group_op list \<Rightarrow> mongo_db \<Rightarrow> unit go_result list \<times> mongo_db" where
  "group_calls M order [] db = ([], db)"
| "group_calls M order (x # xs) db =
     (case group_call M order x db of (r, db1) \<Rightarrow>
        (case group_calls M order xs db1 of (rs, db2) \<Rightarrow> (r # rs, db2)))"

fun group_specs :: "group_op list \<Rightarrow> (string \<Rightarrow> group) \<Rightarrow> unit go_result list \<times> (string \<Rightarrow> group)" where
  "group_specs [] G = ([], G)"
| "group_specs (x # xs) G =
     (case group_spec x G of (r, G1) \<Rightarrow> (case group_specs xs G1 of (rs, G2) \<Rightarrow> (r # rs, G2)))"

fun ops_fresh :: "mongo_ops \<Rightarrow> (string list \<Rightarrow> string list) \<Rightarrow> group_op list \<Rightarrow> mongo_db \<Rightarrow> bool" where
  "ops_fresh M order [] db = True"
| "ops_fresh M order (x # xs) db = (op_fresh x db \<and> ops_fresh M order xs (snd (group_call M order x db)))"

definition groups :: "mongo_db \<Rightarrow> string \<Rightarrow> group" where
  "groups db = (\<lambda>c. group_of c (db_group_members db))"

lemma groups_update:
  "\<forall>c. group_of c (db_group_members db') = (if c = k then f (group_of c (db_group_members db)) else group_of c (db_group_members db))
   \<Longrightarrow> groups db' = (groups db)(k := f (groups db k))"
  by (auto simp: groups_def)

context mongo_repo_up
begin

lemma group_call_refines:
  assumes uniq: "gm_unique (db_group_members db)" and fresh: "op_fresh x db"
    and order: "\<And>xs. mset (order xs) = mset xs"
  obtains r db' where "group_call M order x db = (r, db')" "gm_unique (db_group_members db')"
    "group_spec x (groups db) = (r, groups db')"
proof (cases x)
  case (Create nano now name photo descr cby ms)
  show ?thesis
  proof (cases "name = [] \<or> cby = []")
    case True
    let ?e = "if name = [] then ''group_name is required'' else ''created_by is required''"
    have "group_call M order x db = (Inl ?e, db)" "group_spec x (groups db) = (Inl ?e, groups db)"
      using True Create by (auto simp: CreateGroupConversation_def)
    then show ?thesis using that uniq by blast
  next
    case False
    have "conv_fresh (''CONV_'' @ FormatInt nano) db" using fresh Create by simp
    from CreateGroupConversation_refines[OF uniq this, of order cby ms name now photo descr, OF order] False
    obtain d db' where c: "CreateGroupConversation M order nano now name photo descr cby ms db = (Inr d, db')"
      "gm_unique (db_group_members db')" "\<forall>c. group_of c (db_group_members db') =
         (if c = ''CONV_'' @ FormatInt nano then g_create cby ms else group_of c (db_group_members db))" by auto
    then have "groups db' = (groups db)(''CONV_'' @ FormatInt nano := g_create cby ms)"
      using groups_update[of db' _ "\<lambda>_. g_create cby ms" db] by simp
    then show ?thesis using that[of "Inr ()" db'] c(1,2) False Create by simp
  qed
next
  case (Add oid now convID uid op role)
  then have "\<forall>g\<in>set (db_group_members db). gm_ID g \<noteq> ObjectId oid" using fresh by simp
  from AddGroupMember_refines[OF uniq this, of now convID uid op role]
  show ?thesis using that Add groups_update[of _ convID "g_add uid role" db] by fastforce
next
  case (Remove convID uid op)
  then show ?thesis using that RemoveGroupMember_refines[OF uniq, of convID uid op] groups_update[of _ convID "g_remove uid" db] by fastforce
next
  case (Leave convID uid)
  then show ?thesis
    using that RemoveGroupMember_refines[OF uniq, of convID uid uid] groups_update[of _ convID "g_remove uid" db]
    by (fastforce simp: LeaveGroup_def)
next
  case (Promote convID uid op)
  obtain res gs' where p: "PromoteAdmin M convID uid op db = (res, db\<lparr>db_group_members := gs'\<rparr>)" "gm_unique gs'"
    "if g_active uid (groups db convID)
     then res = Inr () \<and> (\<forall>c. group_of c gs' = (if c = convID then g_role uid ''ADMIN'' (groups db convID) else groups db c))
     else res = Inl ''active member not found in group'' \<and> (\<forall>c. group_of c gs' = groups db c)"
    using PromoteAdmin_refines[OF uniq, of convID uid op] unfolding groups_def Let_def by blast
  have "group_spec x (groups db) = (res, groups (db\<lparr>db_group_members := gs'\<rparr>))"
    using p(3) Promote by (auto simp: groups_def fun_upd_def split: if_splits)
  then show ?thesis using that p(1,2) Promote by simp
next
  case (Transfer convID cur new)
  then show ?thesis
    using that TransferOwnership_refines[OF uniq, of convID cur new] groups_update[of _ convID "g_transfer cur new" db]
    by fastforce
next
  case (Delete convID owner)
  then show ?thesis 
    using that DeleteGroup_refines[OF uniq, of convID owner] groups_update[of _ convID "\<lambda>_. Map.empty" db] by fastforce
qed

lemma group_calls_refine:
  assumes "gm_unique (db_group_members db)" "ops_fresh M order xs db" "\<And>xs. mset (order xs) = mset xs"
  shows "\<exists>rs db'. group_calls M order xs db = (rs, db') \<and> gm_unique (db_group_members db')
    \<and> group_specs xs (groups db) = (rs, groups db')"
  using assms(1,2)
proof (induction xs arbitrary: db)
  case (Cons x xs)
  obtain r db1 where s: "group_call M order x db = (r, db1)" "gm_unique (db_group_members db1)"
    "group_spec x (groups db) = (r, groups db1)"
    by (rule group_call_refines[OF Cons.prems(1) _ assms(3), of x]) (use Cons.prems(2) in simp)
  then show ?case using Cons.IH[OF s(2)] Cons.prems(2) by auto
qed simp

end

section \<open>Owners\<close>

lemma owners_transfer:
  "owners (g_transfer cur new g) =
     (if g_active new g then insert new (owners g) else owners g) - (if cur = [] then {} else {cur})"
  by (auto simp: owners_def g_transfer_def g_role_def g_active_def Let_def split: option.splits if_splits)

section \<open>Listing\<close>

context mongo_repo_up
begin

text \<open>The members \<open>GetConversation\<close> lists: the active documents whose id decodes.\<close>

lemma GetConversation_members:
  assumes c: "cv \<in> set (db_conversations db)" "cv_ID cv = convID"
    and type: "\<forall>d\<in>set (db_conversations db). cv_ID d = convID \<longrightarrow> cv_Type d = ''GROUP''"
  obtains d gs where "GetConversation M decode_oid convID db = Inr (d, List.map_filter (member_view decode_oid) gs)"
    "cd_ConversationId d = convID"
    "mset gs = mset (filter (\<lambda>g. gm_ConversationID g = convID \<and> gm_Status g = ''ACTIVE'') (db_group_members db))"
proof -
  obtain o1 where f: "c_find_one (mo_conversations M) (\<lambda>d. cv_ID d = convID) (db_conversations db) = Inr o1"
    using convu.find_one_up by blast
  then obtain cDoc where cd: "o1 = Some cDoc" using conv.find_one_None c by (cases o1) auto
  then have cv: "cDoc \<in> set (db_conversations db)" "cv_ID cDoc = convID" using conv.find_one_Some f by blast+
  obtain gs where g: "c_find (mo_group_members M) (\<lambda>g. gm_ConversationID g = convID \<and> gm_Status g = ''ACTIVE'')
      (\<lambda>_. []) None (db_group_members db) = Inr gs" using gmu.find_up by blast
  show ?thesis
    using that[of "docToConversationDetail cDoc" gs] f cd cv g type gm.find_all[OF g] by (simp add: GetConversation_def)
qed

lemma listed_users:
  "gmem_UserId ` set (List.map_filter (member_view decode_oid) gs) = {gm_UserID g |g. g \<in> set gs \<and> decode_id decode_oid (gm_ID g) \<noteq> None}"
  by (force simp: List.map_filter_def member_view_def)

lemma listed_users_insert:
  assumes "set gs' = insert g (set gs)"
  shows "gmem_UserId ` set (List.map_filter (member_view decode_oid) gs') =
    gmem_UserId ` set (List.map_filter (member_view decode_oid) gs)
    \<union> (if decode_id decode_oid (gm_ID g) = None then {} else {gm_UserID g})"
  unfolding listed_users assms by (cases "decode_id decode_oid (gm_ID g)") auto

lemma AddGroupMember_new:
  assumes "groups db convID uid = None" "\<forall>g\<in>set (db_group_members db). gm_ID g \<noteq> ObjectId oid"
  obtains db' r where "AddGroupMember M oid now convID uid op role db = (Inr (), db')"
    "db_group_members db' = db_group_members db @ [\<lparr>gm_ID = ObjectId oid, gm_ConversationID = convID, gm_UserID = uid,
       gm_Role = r, gm_JoinedAt = now, gm_Status = ''ACTIVE''\<rparr>]"
    "map (\<lambda>d. (cv_ID d, cv_Type d)) (db_conversations db') = map (\<lambda>d. (cv_ID d, cv_Type d)) (db_conversations db)"
proof -
  let ?gs = "db_group_members db" and ?role = "if role = [] then ''MEMBER'' else role"
  let ?d = "\<lparr>gm_ID = ObjectId oid, gm_ConversationID = convID, gm_UserID = uid, gm_Role = ?role, gm_JoinedAt = now,
    gm_Status = ''ACTIVE''\<rparr> :: groupMemberDoc"
  let ?u = "\<lparr>u_paths = [''role'', ''joined_at'', ''status''],
    u_apply = (\<lambda>g. g\<lparr>gm_Role := ?role, gm_JoinedAt := now, gm_Status := ''ACTIVE''\<rparr>), u_insert = Some ?d\<rparr>"
  have none: "\<forall>g\<in>set ?gs. \<not> same_member convID uid g" using assms(1) by (simp add: groups_def group_of_None)
  then have "\<forall>x\<in>set ?gs. \<not> gm_clash ?d x" using assms(2) by (auto simp: gm_clash_def same_member_def)
  then obtain n gs' where r: "c_update_one (mo_group_members M) (same_member convID uid) ?u ?gs = (Inr n, gs')"
    using gmu.update_one_up[of ?u ?gs "same_member convID uid"] by (auto simp: gm_clash_def) (metis prod.collapse)+
  have gs': "gs' = ?gs @ [?d]" using gm.update_one_ok[OF r] none by auto
  let ?c = "\<lparr>u_paths = [''participants'', ''member_count''],
    u_apply = (\<lambda>d. d\<lparr>cv_Participants := add_to_set uid (cv_Participants d), cv_MemberCount := cv_MemberCount d + 1\<rparr>),
    u_insert = None\<rparr> :: conversationDoc update"
  have "map (\<lambda>d. (cv_ID d, cv_Type d)) (snd (c_update_one (mo_conversations M) (\<lambda>d. cv_ID d = convID) ?c (db_conversations db)))
    = map (\<lambda>d. (cv_ID d, cv_Type d)) (db_conversations db)"
    by (rule conv.update_one_map_snd) simp_all
  then show ?thesis using that r gs' by (simp add: AddGroupMember_def Let_def)
qed

lemma added_member_lists:
  assumes new: "groups db convID uid = None" and oid: "\<forall>g\<in>set (db_group_members db). gm_ID g \<noteq> ObjectId oid"
    and cv: "cv \<in> set (db_conversations db)" "cv_ID cv = convID"
    and type: "\<forall>d\<in>set (db_conversations db). cv_ID d = convID \<longrightarrow> cv_Type d = ''GROUP''"
  shows "\<exists>db' d ms d' ms'. GetConversation M decode_oid convID db = Inr (d, ms)
    \<and> AddGroupMember M oid now convID uid op role db = (Inr (), db')
    \<and> GetConversation M decode_oid convID db' = Inr (d', ms')
    \<and> gmem_UserId ` set ms' = gmem_UserId ` set ms \<union> (if decode_oid oid = None then {} else {uid})"
proof -
  let ?act = "filter (\<lambda>g. gm_ConversationID g = convID \<and> gm_Status g = ''ACTIVE'')"
  obtain db' r where a: "AddGroupMember M oid now convID uid op role db = (Inr (), db')"
    "db_group_members db' = db_group_members db @ [\<lparr>gm_ID = ObjectId oid, gm_ConversationID = convID, gm_UserID = uid,
       gm_Role = r, gm_JoinedAt = now, gm_Status = ''ACTIVE''\<rparr>]"
    "map (\<lambda>d. (cv_ID d, cv_Type d)) (db_conversations db') = map (\<lambda>d. (cv_ID d, cv_Type d)) (db_conversations db)"
    by (rule AddGroupMember_new[OF new oid])
  have keys: "(\<lambda>d. (cv_ID d, cv_Type d)) ` set (db_conversations db') = (\<lambda>d. (cv_ID d, cv_Type d)) ` set (db_conversations db)"
    using a(3) by (metis list.set_map)
  have "(convID, cv_Type cv) \<in> (\<lambda>d. (cv_ID d, cv_Type d)) ` set (db_conversations db')"
    unfolding keys using cv by blast
  then obtain cv' where cv': "cv' \<in> set (db_conversations db')" "cv_ID cv' = convID" by blast
  have type': "\<forall>d\<in>set (db_conversations db'). cv_ID d = convID \<longrightarrow> cv_Type d = ''GROUP''"
  proof (intro ballI impI)
    fix d assume d: "d \<in> set (db_conversations db')" "cv_ID d = convID"
    have "(cv_ID d, cv_Type d) \<in> (\<lambda>d. (cv_ID d, cv_Type d)) ` set (db_conversations db)" unfolding keys[symmetric] using d(1) by blast
    then show "cv_Type d = ''GROUP''" using type d(2) by auto
  qed
  obtain d gs where g: "GetConversation M decode_oid convID db = Inr (d, List.map_filter (member_view decode_oid) gs)"
    "mset gs = mset (?act (db_group_members db))" by (rule GetConversation_members[OF cv type])
  obtain d' gs' where g': "GetConversation M decode_oid convID db' = Inr (d', List.map_filter (member_view decode_oid) gs')"
    "mset gs' = mset (?act (db_group_members db'))" by (rule GetConversation_members[OF cv' type'])
  let ?new = "\<lparr>gm_ID = ObjectId oid, gm_ConversationID = convID, gm_UserID = uid, gm_Role = r, gm_JoinedAt = now,
    gm_Status = ''ACTIVE''\<rparr> :: groupMemberDoc"
  have "set gs' = insert ?new (set gs)"
    unfolding mset_eq_setD[OF g(2)] mset_eq_setD[OF g'(2)] a(2) by simp
  then have "gmem_UserId ` set (List.map_filter (member_view decode_oid) gs') =
      gmem_UserId ` set (List.map_filter (member_view decode_oid) gs) \<union> (if decode_oid oid = None then {} else {uid})"
    by (simp add: listed_users_insert)
  then show ?thesis using a(1) g(1) g'(1) by blast
qed

end

section \<open>Properties\<close>

text \<open>C21. The group operations of the message store, over a server that answers and whose generated ids
  are new, implement operations on one map per conversation from a user to role and status: every
  sequence of calls gives the results and leaves the maps that the specification gives, whatever the
  order in which Go ranges over the member set, and keeps at most one document per member.\<close>

theorem group_ops_refine:
  assumes "mongo_repo_up M" "\<And>xs. mset (order xs) = mset xs"
    and "gm_unique (db_group_members db)" "ops_fresh M order xs db"
  shows "case group_calls M order xs db of (rs, db') \<Rightarrow>
    group_specs xs (groups db) = (rs, groups db') \<and> gm_unique (db_group_members db')"
  using mongo_repo_up.group_calls_refine[OF assms(1,3,4,2)] by auto

definition demo_ops :: "group_op list" where
  "demo_ops = [Create 7 0 ''g'' [] [] ''u'' [''v''], Add 1 0 ''CONV_7'' ''w'' ''u'' [], Promote ''CONV_7'' ''x'' ''u'',
     Transfer ''CONV_7'' ''u'' ''v'']"

definition demo_group :: "groupMemberDoc list" where
  "demo_group = map (member_doc ''CONV_7'' 0 ''u'') [''u'', ''v'']"

definition demo_db :: "groupMemberDoc list \<Rightarrow> mongo_db" where
  "demo_db gs = mongo_db_empty\<lparr>db_group_members := gs,
     db_conversations := [group_doc ''CONV_7'' 0 ''g'' [] [] ''u'' [''u'', ''v'']]\<rparr>"

lemma demo_ops_fresh: "ops_fresh ref_mongo_ops id demo_ops mongo_db_empty"
  by (simp add: demo_ops_def conv_fresh_def mongo_db_empty_def ref_mongo_ops_def ref_coll_def CreateGroupConversation_def
    unique_members_def group_doc_def ref_insert_def gm_clash_def conv_clash_def gm_doc_id_def member_doc_def Let_def FormatInt_def show_nat.simps)

theorem group_ops_refine_witness:
  "case group_calls ref_mongo_ops id demo_ops mongo_db_empty of (rs, db') \<Rightarrow>
     rs = [Inr (), Inr (), Inl ''active member not found in group'', Inr ()]
     \<and> groups db' ''CONV_7'' ''u'' = Some (''ADMIN'', ''ACTIVE'') \<and> groups db' ''CONV_7'' ''v'' = Some (''OWNER'', ''ACTIVE'')
     \<and> groups db' ''CONV_7'' ''w'' = Some (''MEMBER'', ''ACTIVE'')"
proof -
  have e: "gm_unique (db_group_members mongo_db_empty)" "\<And>xs::string list. mset (id xs) = mset xs"
    by (simp_all add: mongo_db_empty_def gm_unique_def)
  note refine = group_ops_refine[OF ref_repo.mongo_repo_up_axioms e(2,1) demo_ops_fresh]
  have seven: "FormatInt 7 = ''7''" by code_simp
  let ?G = "(groups mongo_db_empty)(''CONV_7'' := (g_create ''u'' [''v''])(''w'' \<mapsto> (''MEMBER'', ''ACTIVE'')))"
  have "\<not> g_active ''x'' (?G ''CONV_7'')" by (simp add: g_active_def g_create_def)
  then have specs: "group_specs demo_ops (groups mongo_db_empty) = ([Inr (), Inr (), Inl ''active member not found in group'', Inr ()],
      ?G(''CONV_7'' := g_transfer ''u'' ''v'' (?G ''CONV_7'')))"
    by (simp add: demo_ops_def seven g_add_def)
  have maps: "g_transfer ''u'' ''v'' (?G ''CONV_7'') =
      [''u'' \<mapsto> (''ADMIN'', ''ACTIVE''), ''v'' \<mapsto> (''OWNER'', ''ACTIVE''), ''w'' \<mapsto> (''MEMBER'', ''ACTIVE'')]"
    by (auto simp: g_transfer_def g_active_def g_role_def g_create_def Let_def fun_eq_iff)
  obtain rs db' where r: "group_calls ref_mongo_ops id demo_ops mongo_db_empty = (rs, db')" by fastforce
  have "groups db' = ?G(''CONV_7'' := g_transfer ''u'' ''v'' (?G ''CONV_7''))"
    "rs = [Inr (), Inr (), Inl ''active member not found in group'', Inr ()]"
    using refine specs by (simp_all add: r)
  then show ?thesis using r unfolding maps by simp
qed

text \<open>C23. Exactly who owns a group after TransferOwnership, which always reports success: an active
  new owner is added, and the named current owner is dropped last. So one owner becomes one other
  owner when the new one is active; when it is not, or is the current owner, nobody owns the group.\<close>

theorem ownership_transfer:
  assumes "mongo_repo_up M" "gm_unique (db_group_members db)"
  shows "\<exists>db'. TransferOwnership M convID cur new db = (Inr (), db')
    \<and> owners (groups db' convID) =
        (if g_active new (groups db convID) then insert new (owners (groups db convID)) else owners (groups db convID))
        - (if cur = [] then {} else {cur})
    \<and> (owners (groups db convID) = {cur} \<and> cur \<noteq> [] \<longrightarrow>
         owners (groups db' convID) = (if g_active new (groups db convID) \<and> new \<noteq> cur then {new} else {}))"
proof -
  from mongo_repo_up.TransferOwnership_refines[OF assms, of convID cur new]
  obtain db' where t: "TransferOwnership M convID cur new db = (Inr (), db')"
    "groups db' convID = g_transfer cur new (groups db convID)" by (auto simp: groups_def)
  then show ?thesis by (auto simp: owners_transfer)
qed

theorem ownership_transfer_witness:
  "\<exists>db'. TransferOwnership ref_mongo_ops ''CONV_7'' ''u'' ''v'' (demo_db demo_group) = (Inr (), db')
     \<and> owners (groups db' ''CONV_7'') = {''v''}"
proof -
  let ?db = "demo_db demo_group"
  have u: "gm_unique (db_group_members ?db)" by (simp add: demo_db_def demo_group_def gm_unique_def)
  have "groups ?db ''CONV_7'' = g_create ''u'' [''v'']"
    by (auto simp: demo_db_def groups_def group_of_def demo_group_def same_member_def g_create_def fun_eq_iff)
  then have g: "owners (groups ?db ''CONV_7'') = {''u''}" "g_active ''v'' (groups ?db ''CONV_7'')"
    by (auto simp: g_create_def owners_def g_active_def)
  from ownership_transfer[OF ref_repo.mongo_repo_up_axioms u, of "''CONV_7''" "''u''" "''v''"] g show ?thesis by auto
qed

text \<open>A user added to a group gets a document whose id is the object id the upsert generates, not the
  GM_ id the code builds. The next GetConversation lists the user if and only if the driver decodes an
  object id into the string field; the members listed before stay listed.\<close>

lemma added_member_listed:
  assumes "mongo_repo_up M" "groups db convID uid = None" "\<forall>g\<in>set (db_group_members db). gm_ID g \<noteq> ObjectId oid"
    and "cv \<in> set (db_conversations db)" "cv_ID cv = convID"
    and "\<forall>d\<in>set (db_conversations db). cv_ID d = convID \<longrightarrow> cv_Type d = ''GROUP''"
  shows "\<exists>db' d ms d' ms'. GetConversation M decode_oid convID db = Inr (d, ms)
    \<and> AddGroupMember M oid now convID uid op role db = (Inr (), db')
    \<and> GetConversation M decode_oid convID db' = Inr (d', ms')
    \<and> gmem_UserId ` set ms' = gmem_UserId ` set ms \<union> (if decode_oid oid = None then {} else {uid})"
  by (rule mongo_repo_up.added_member_lists[OF assms])

end
