(* ===== verification/User_Rooms.thy ===== *)
theory User_Rooms
  imports Message_Repo
begin

text \<open>
  The room list that \<open>GetUserRooms\<close> of \<open>app/repository/mongodb.go\<close> makes from the messages when no
  conversation of the user is stored: what its aggregation pipeline yields.
\<close>

section \<open>Rows and summaries\<close>

abbreviation summary_row :: "UserRoomSummary \<Rightarrow> agg_row" where
  "summary_row s \<equiv> (us_RoomID s, us_LastMessage s, us_LastMessageAt s)"

lemma row_summary_cases:
  "row_summary r = None \<longleftrightarrow> fst r = []" "row_summary r = Some s \<Longrightarrow> summary_row s = r"
  by (cases r; auto simp: row_summary_def Let_def split: if_splits)+

lemma summaries_of_rows:
  "map summary_row (List.map_filter row_summary rows) = filter (\<lambda>r. fst r \<noteq> []) rows"
proof (induction rows)
  case (Cons r rows)
  then show ?case
    using row_summary_cases[of r] by (cases "row_summary r") (simp_all add: List.map_filter_simps)
qed (simp add: List.map_filter_simps)

text \<open>The conversations of a user's undeleted messages, and the text and time of the newest one.\<close>

definition spoken_in :: "(string \<Rightarrow> string \<Rightarrow> bool) \<Rightarrow> string \<Rightarrow> mongo_db \<Rightarrow> string set" where
  "spoken_in regex userID db = md_ConversationID ` {d \<in> set (db_messages db). rooms_match regex userID d}"

definition newest_in ::
  "(string \<Rightarrow> string \<Rightarrow> bool) \<Rightarrow> (string list \<Rightarrow> string list) \<Rightarrow> string \<Rightarrow> mongo_db \<Rightarrow> messageDoc \<Rightarrow> bool" where
  "newest_in regex map_order userID db d \<longleftrightarrow> d \<in> set (db_messages db) \<and> rooms_match regex userID d
     \<and> (\<forall>x\<in>set (db_messages db). rooms_match regex userID x \<longrightarrow> md_ConversationID x = md_ConversationID d \<longrightarrow>
          rooms_sort map_order x \<le> rooms_sort map_order d)"

context mongo_aggregate
begin

lemma pipeline_rows:
  assumes agg: "agg pl ds = Inr rows" and fits: "card (pl_group pl ` {d \<in> set ds. pl_match pl d}) \<le> pl_limit pl"
  shows "fst ` set rows = pl_group pl ` {d \<in> set ds. pl_match pl d}"
proof (rule card_subset_eq)
  show "finite (pl_group pl ` {d \<in> set ds. pl_match pl d})" by simp
  show "fst ` set rows \<subseteq> pl_group pl ` {d \<in> set ds. pl_match pl d}"
    using aggregate_rows(4)[OF agg] by (fastforce simp: pl_row_def)
  show "card (fst ` set rows) = card (pl_group pl ` {d \<in> set ds. pl_match pl d})"
    using distinct_card[OF aggregate_rows(1)[OF agg]] aggregate_rows(3)[OF agg] fits by simp
qed

end

section \<open>Properties\<close>

text \<open>C31. The room list made from the messages, when the store holds no conversation of the user: no room
  twice, newest first, at most a hundred; every entry shows the text and time of the newest
  undeleted message of that room that matches the user; and when there are at most a hundred such
  rooms, none is missing.\<close>

theorem fallback_room_list:
  assumes M: "mongo_repo M" and A: "mongo_aggregate aggregate"
    and none: "\<forall>d\<in>set (db_conversations db). userID \<notin> set (cv_Participants d) \<and> cv_CreatedBy d \<noteq> userID"
    and res: "GetUserRooms_repo M aggregate regex map_order userID db = Inr rooms"
  shows "distinct (map us_RoomID rooms) \<and> sorted_desc (\<lambda>s. [us_LastMessageAt s]) rooms \<and> length rooms \<le> 100
    \<and> (\<forall>s\<in>set rooms. us_RoomID s \<noteq> [] \<and> (\<exists>d. newest_in regex map_order userID db d
         \<and> summary_row s = (md_ConversationID d, md_Content d, md_CreatedAt d)))
    \<and> (card (spoken_in regex userID db) \<le> 100 \<longrightarrow> us_RoomID ` set rooms = spoken_in regex userID db - {[]})"
proof -
  let ?pl = "user_rooms_pipeline regex map_order userID"
  have empty: "filter (\<lambda>d. userID \<in> set (cv_Participants d) \<or> cv_CreatedBy d = userID) (db_conversations db) = []"
    using none by (auto simp: filter_empty_conv)
  have "ds = []" if "c_find (mo_conversations M) (\<lambda>d. userID \<in> set (cv_Participants d) \<or> cv_CreatedBy d = userID)
      (\<lambda>_. []) None (db_conversations db) = Inr ds" for ds
    using mongo_coll.find_all[OF mongo_repo.axioms(1)[OF M] that] empty by simp
  then obtain rows where agg: "aggregate ?pl (db_messages db) = Inr rows" and rooms: "rooms = List.map_filter row_summary rows"
    using res by (auto simp: GetUserRooms_repo_def Let_def split: sum.splits if_splits)
  note rows = mongo_aggregate.aggregate_rows[OF A agg]
  have map: "map summary_row rooms = filter (\<lambda>r. fst r \<noteq> []) rows" unfolding rooms by (rule summaries_of_rows)
  have ids: "map us_RoomID rooms = map fst (filter (\<lambda>r. fst r \<noteq> []) rows)"
    unfolding map[symmetric] by simp
  have 1: "distinct (map us_RoomID rooms)" unfolding ids by (rule distinct_map_filter[OF rows(1)])
  have "sorted_desc row_at (map summary_row rooms)"
    using rows(2) unfolding map sorted_desc_def by (rule sorted_wrt_filter)
  then have 2: "sorted_desc (\<lambda>s. [us_LastMessageAt s]) rooms" by (simp add: sorted_desc_def sorted_wrt_map row_at_def)
  have "length (map summary_row rooms) \<le> length rows" unfolding map by (rule length_filter_le)
  then have 3: "length rooms \<le> 100" using rows(3) by (simp add: user_rooms_pipeline_def)
  have 4: "us_RoomID s \<noteq> [] \<and> (\<exists>d. newest_in regex map_order userID db d
      \<and> summary_row s = (md_ConversationID d, md_Content d, md_CreatedAt d))" if "s \<in> set rooms" for s
  proof -
    have "summary_row s \<in> set (filter (\<lambda>r. fst r \<noteq> []) rows)" unfolding map[symmetric] using that by simp
    then show ?thesis using rows(4)[of "summary_row s"] by (auto simp: newest_in_def user_rooms_pipeline_def pl_row_def)
  qed
  have "us_RoomID ` set rooms = spoken_in regex userID db - {[]}" if "card (spoken_in regex userID db) \<le> 100"
  proof -
    have "fst ` set rows = spoken_in regex userID db"
      using mongo_aggregate.pipeline_rows[OF A agg] that by (simp add: spoken_in_def user_rooms_pipeline_def)
    moreover have "us_RoomID ` set rooms = fst ` set (filter (\<lambda>r. fst r \<noteq> []) rows)" using ids by (metis list.set_map)
    ultimately show ?thesis by auto
  qed
  then show ?thesis using 1 2 3 4 by blast
qed

definition demo_talk :: mongo_db where
  "demo_talk = mongo_db_empty\<lparr>db_messages := [(demo_doc ''m'' ''bob'')\<lparr>md_ConversationID := ''r''\<rparr>,
     (demo_doc ''n'' ''bob'')\<lparr>md_ConversationID := ''s''\<rparr>, (demo_doc ''o'' ''eve'')\<lparr>md_ConversationID := ''t''\<rparr>]\<rparr>"

theorem fallback_room_list_witness:
  "\<exists>rooms. GetUserRooms_repo ref_mongo_ops ref_aggregate (\<lambda>_ _. False) id ''bob'' demo_talk = Inr rooms
     \<and> us_RoomID ` set rooms = {''r'', ''s''} \<and> distinct (map us_RoomID rooms)"
proof -
  obtain rows where "ref_aggregate (user_rooms_pipeline (\<lambda>_ _. False) id ''bob'') (db_messages demo_talk) = Inr rows"
    by (simp add: ref_aggregate_def)
  then obtain rooms where r: "GetUserRooms_repo ref_mongo_ops ref_aggregate (\<lambda>_ _. False) id ''bob'' demo_talk = Inr rooms"
    by (cases "GetUserRooms_repo ref_mongo_ops ref_aggregate (\<lambda>_ _. False) id ''bob'' demo_talk")
      (auto simp: GetUserRooms_repo_def Let_def split: if_splits)
  have none: "\<forall>d\<in>set (db_conversations demo_talk). ''bob'' \<notin> set (cv_Participants d) \<and> cv_CreatedBy d \<noteq> ''bob''"
    by (simp add: demo_talk_def mongo_db_empty_def)
  have "spoken_in (\<lambda>_ _. False) ''bob'' demo_talk
      = md_ConversationID ` set (filter (rooms_match (\<lambda>_ _. False) ''bob'') (db_messages demo_talk))"
    by (simp add: spoken_in_def)
  also have "\<dots> = {''r'', ''s''}"
    by (simp add: rooms_match_def demo_talk_def demo_doc_def message_doc_def Let_def ServerMessage_zero_def del: set_filter)
  finally have "spoken_in (\<lambda>_ _. False) ''bob'' demo_talk = {''r'', ''s''}" .
  then show ?thesis
    using fallback_room_list[OF ref_repo.mongo_repo_axioms ref_agg.mongo_aggregate_axioms none r] r by simp
qed

end
