(* ===== verification/Shared_Msgs.thy ===== *)
theory Shared_Msgs
  imports Hub
begin

text \<open>
  Message objects as Go has them: \<open>Broadcast\<close> of \<open>app/chat/hub.go\<close> puts one pointer into the channel
  of every client of the room, and the sender goroutines of \<open>Chat\<close> in \<open>app/server/grpc_server.go\<close> write
  \<open>MediaUrl\<close> into the object they share before they send it, while the broadcaster may still marshal
  it.

  The theory has a store of message objects, channels of pointers and the interleaving of these
  accesses, and relates it to the hub of the theory \<open>Hub\<close>, whose channels hold messages: read through
  the store and without \<open>MediaUrl\<close>, the pointer channels behave as the channels of messages do. Single
  reads and writes of an object are atomic here, and so is the loop that puts the pointer into the
  channels.
\<close>

section \<open>Definitions\<close>

definition strip :: "ServerMessage \<Rightarrow> ServerMessage" where
  "strip m = m\<lparr>sm_MediaUrl := []\<rparr>"

text \<open>The hub's clients with their channel's capacity and state; what their buffers hold is in
  \<open>ss_bufs\<close>. \<open>ss_held\<close> is the pointer a sender goroutine has taken and not yet sent; \<open>ss_orig\<close> recalls
  every message as it was when it was broadcast.\<close>

record shared_sys =
  ss_sys :: hub_sys
  ss_store :: "nat \<rightharpoonup> ServerMessage"
  ss_orig :: "nat \<rightharpoonup> ServerMessage"
  ss_bufs :: "cptr \<Rightarrow> nat list"
  ss_held :: "cptr \<rightharpoonup> nat"
  ss_sent :: "cptr \<Rightarrow> ServerMessage list"
  ss_payloads :: "payload list"

abbreviation ss_hub :: "shared_sys \<Rightarrow> Hub" where
  "ss_hub A \<equiv> hs_hub (ss_sys A)"

definition ptr_chan :: "nat list \<Rightarrow> Client \<Rightarrow> nat chan" where
  "ptr_chan ptrs c = \<lparr>ch_buf = ptrs, ch_cap = ch_cap (c_Send c), ch_closed = ch_closed (c_Send c)\<rparr>"

text \<open>The loop of \<open>Broadcast\<close> over pointers, which runs as a whole like \<open>deliver\<close> of the theory \<open>Hub\<close>.\<close>

fun share_deliver :: "(cptr \<rightharpoonup> Client) \<Rightarrow> nat \<Rightarrow> cptr list \<Rightarrow> (cptr \<Rightarrow> nat list) \<Rightarrow> (cptr \<Rightarrow> nat list) option" where
  "share_deliver H a [] B = Some B"
| "share_deliver H a (p # ps) B =
     (case H p of
        None \<Rightarrow> None
      | Some c \<Rightarrow>
          (case try_send a (ptr_chan (B p) c) of
             None \<Rightarrow> None
           | Some ch \<Rightarrow> share_deliver H a ps (B(p := ch_buf ch))))"

definition room_clients :: "Hub \<Rightarrow> string \<Rightarrow> cptr list" where
  "room_clients h roomID = (case shard_lookup (h_shards h) roomID of None \<Rightarrow> [] | Some r \<Rightarrow> r_clients r)"

text \<open>\<open>urls key\<close> are the URLs the storage may return for a key.\<close>

inductive shared_step :: "(string \<Rightarrow> string set) \<Rightarrow> shared_sys \<Rightarrow> shared_sys \<Rightarrow> bool"
  for urls :: "string \<Rightarrow> string set" where
  connect: "h_heap (ss_hub A) p = None \<Longrightarrow> c = NewClient u r \<Longrightarrow>
    shared_step urls A (A\<lparr>ss_sys := (ss_sys A)\<lparr>hs_hub := register_locked ctx p c (alloc p c (ss_hub A)),
        hs_adds := Suc (hs_adds (ss_sys A))\<rparr>, ss_bufs := (ss_bufs A)(p := [])\<rparr>)"
| count_up: "hs_adds (ss_sys A) = Suc n \<Longrightarrow>
    shared_step urls A (A\<lparr>ss_sys := (ss_sys A)\<lparr>hs_hub := connCnt_Add 1 (ss_hub A), hs_adds := n\<rparr>\<rparr>)"
| disconnect: "p \<in> registered (ss_hub A) \<Longrightarrow> h_heap (ss_hub A) p = Some c \<Longrightarrow>
    unregister_locked p c (ss_hub A) = Some h \<Longrightarrow>
    shared_step urls A (A\<lparr>ss_sys := (ss_sys A)\<lparr>hs_hub := h, hs_subs := Suc (hs_subs (ss_sys A))\<rparr>\<rparr>)"
| count_down: "hs_subs (ss_sys A) = Suc n \<Longrightarrow>
    shared_step urls A (A\<lparr>ss_sys := (ss_sys A)\<lparr>hs_hub := connCnt_Add (- 1) (ss_hub A), hs_subs := n\<rparr>\<rparr>)"
| broadcast: "ss_store A a = None \<Longrightarrow>
    share_deliver (h_heap (ss_hub A)) a (room_clients (ss_hub A) (sm_RoomId m)) (ss_bufs A) = Some B \<Longrightarrow>
    shared_step urls A (A\<lparr>ss_store := (ss_store A)(a \<mapsto> m), ss_orig := (ss_orig A)(a \<mapsto> m), ss_bufs := B\<rparr>)"
| publish: "ss_store A a = Some m \<Longrightarrow>
    shared_step urls A (A\<lparr>ss_payloads := ss_payloads A @ [json_Marshal m]\<rparr>)"
| receive: "ss_held A p = None \<Longrightarrow> h_heap (ss_hub A) p = Some c \<Longrightarrow>
    range_next (ptr_chan (ss_bufs A p) c) = (Received a, ch) \<Longrightarrow>
    shared_step urls A (A\<lparr>ss_bufs := (ss_bufs A)(p := ch_buf ch), ss_held := (ss_held A)(p \<mapsto> a)\<rparr>)"
| sign: "ss_held A p = Some a \<Longrightarrow> ss_store A a = Some m \<Longrightarrow> sm_MediaKey m \<noteq> [] \<Longrightarrow>
    sm_EventType m = EVENT_TYPE_MESSAGE \<Longrightarrow> u \<in> urls (sm_MediaKey m) \<Longrightarrow>
    shared_step urls A (A\<lparr>ss_store := (ss_store A)(a \<mapsto> m\<lparr>sm_MediaUrl := u\<rparr>)\<rparr>)"
| send: "ss_held A p = Some a \<Longrightarrow> ss_store A a = Some m \<Longrightarrow>
    shared_step urls A (A\<lparr>ss_sent := (ss_sent A)(p := ss_sent A p @ [m]), ss_held := (ss_held A)(p := None)\<rparr>)"

definition new_shared :: "int \<Rightarrow> shared_sys" where
  "new_shared n = \<lparr>ss_sys = \<lparr>hs_hub = NewHubWithLimit n, hs_adds = 0, hs_subs = 0\<rparr>, ss_store = Map.empty,
     ss_orig = Map.empty, ss_bufs = (\<lambda>_. []), ss_held = Map.empty, ss_sent = (\<lambda>_. []), ss_payloads = []\<rparr>"

inductive shared_reachable :: "(string \<Rightarrow> string set) \<Rightarrow> shared_sys \<Rightarrow> bool"
  for urls :: "string \<Rightarrow> string set" where
  start: "shared_reachable urls (new_shared n)"
| step: "shared_reachable urls A \<Longrightarrow> shared_step urls A B \<Longrightarrow> shared_reachable urls B"

section \<open>The view\<close>

definition view_client :: "(nat \<rightharpoonup> ServerMessage) \<Rightarrow> nat list \<Rightarrow> Client \<Rightarrow> Client" where
  "view_client S ptrs c = c\<lparr>c_Send := \<lparr>ch_buf = map (\<lambda>a. strip (the (S a))) ptrs,
     ch_cap = ch_cap (c_Send c), ch_closed = ch_closed (c_Send c)\<rparr>\<rparr>"

definition view_heap :: "(nat \<rightharpoonup> ServerMessage) \<Rightarrow> (cptr \<Rightarrow> nat list) \<Rightarrow> (cptr \<rightharpoonup> Client) \<Rightarrow> cptr \<rightharpoonup> Client" where
  "view_heap S B H = (\<lambda>p. map_option (view_client S (B p)) (H p))"

definition view :: "shared_sys \<Rightarrow> hub_sys" where
  "view A = (ss_sys A)\<lparr>hs_hub := (ss_hub A)\<lparr>h_heap := view_heap (ss_store A) (ss_bufs A) (h_heap (ss_hub A))\<rparr>\<rparr>"

text \<open>A message that differs from the one broadcast at most in its URL, which then is one for its key.\<close>

definition variant :: "(string \<Rightarrow> string set) \<Rightarrow> ServerMessage \<Rightarrow> ServerMessage \<Rightarrow> bool" where
  "variant urls m x \<longleftrightarrow> strip x = strip m \<and> (sm_MediaUrl x = sm_MediaUrl m
     \<or> (sm_MediaKey m \<noteq> [] \<and> sm_EventType m = EVENT_TYPE_MESSAGE \<and> sm_MediaUrl x \<in> urls (sm_MediaKey m)))"

text \<open>The messages a state is made of are variants of messages that were broadcast.\<close>

definition traced :: "(string \<Rightarrow> string set) \<Rightarrow> shared_sys \<Rightarrow> ServerMessage \<Rightarrow> bool" where
  "traced urls A x \<longleftrightarrow> (\<exists>a m. ss_orig A a = Some m \<and> variant urls m x)"

definition shared_inv :: "(string \<Rightarrow> string set) \<Rightarrow> shared_sys \<Rightarrow> bool" where
  "shared_inv urls A \<longleftrightarrow> (\<forall>p. set (ss_bufs A p) \<subseteq> dom (ss_store A)) \<and> dom (ss_orig A) \<subseteq> dom (ss_store A)
     \<and> (\<forall>a x. ss_store A a = Some x \<longrightarrow> (\<exists>m. ss_orig A a = Some m \<and> variant urls m x))
     \<and> (\<forall>p. \<forall>x\<in>set (ss_sent A p). traced urls A x)
     \<and> (\<forall>d\<in>set (ss_payloads A). \<exists>x. traced urls A x \<and> d = json_Marshal x)"

section \<open>Lemmas\<close>

lemma strip_simps [simp]: "strip (m\<lparr>sm_MediaUrl := u\<rparr>) = strip m" "sm_RoomId (strip m) = sm_RoomId m"
  by (simp_all add: strip_def)

lemma strip_fields:
  "strip x = strip m \<Longrightarrow> sm_MediaKey x = sm_MediaKey m \<and> sm_EventType x = sm_EventType m"
  by (cases x; cases m) (simp add: strip_def)

lemma variant_refl: "variant urls m m"
  by (simp add: variant_def)

lemma variant_sign:
  assumes "variant urls m x" "sm_MediaKey x \<noteq> []" "sm_EventType x = EVENT_TYPE_MESSAGE" "u \<in> urls (sm_MediaKey x)"
  shows "variant urls m (x\<lparr>sm_MediaUrl := u\<rparr>)"
  using assms strip_fields[of x m] by (simp add: variant_def)

lemma view_client_simps [simp]:
  "c_RoomID (view_client S ps c) = c_RoomID c" "c_UserID (view_client S ps c) = c_UserID c"
  "ch_closed (c_Send (view_client S ps c)) = ch_closed (c_Send c)" "ch_cap (c_Send (view_client S ps c)) = ch_cap (c_Send c)"
  "ch_buf (c_Send (view_client S ps c)) = map (\<lambda>a. strip (the (S a))) ps"
  by (simp_all add: view_client_def)

lemma view_heap_store_cong:
  assumes "\<And>p a. a \<in> set (B p) \<Longrightarrow> map_option strip (S' a) = map_option strip (S a)" "\<And>p. set (B p) \<subseteq> dom S"
  shows "view_heap S' B H = view_heap S B H"
proof -
  have "strip (the (S' a)) = strip (the (S a))" if "a \<in> set (B p)" for a p
    using assms(1)[OF that] assms(2)[of p] that by (cases "S' a"; cases "S a") auto
  then have "view_client S' (B p) = view_client S (B p)" for p
    by (simp add: view_client_def fun_eq_iff cong: map_cong)
  then show ?thesis by (simp add: view_heap_def)
qed

text \<open>Sending a pointer to the clients of a room is, in the view, sending the message.\<close>

lemma share_deliver_view:
  assumes "S a = Some m" "share_deliver H a ps B = Some B'"
  shows "deliver (strip m) ps (view_heap S B H) = Some (view_heap S B' H)"
  using assms(2)
proof (induction ps arbitrary: B)
  case (Cons p ps)
  obtain c ch where c: "H p = Some c" "try_send a (ptr_chan (B p) c) = Some ch" "share_deliver H a ps (B(p := ch_buf ch)) = Some B'"
    using Cons.prems by (auto split: option.splits)
  let ?v = "view_client S (B p) c"
  have v: "view_heap S B H p = Some ?v" by (simp add: view_heap_def c(1))
  obtain ch' where ch': "try_send (strip m) (c_Send ?v) = Some ch'" "?v\<lparr>c_Send := ch'\<rparr> = view_client S (ch_buf ch) c"
    using c(2) assms(1) by (auto simp: try_send_def ptr_chan_def view_client_def split: if_splits)
  have upd: "(view_heap S B H)(p \<mapsto> ?v\<lparr>c_Send := ch'\<rparr>) = view_heap S (B(p := ch_buf ch)) H"
    using ch'(2) c(1) by (auto simp: view_heap_def fun_eq_iff)
  have "deliver (strip m) ps (view_heap S (B(p := ch_buf ch)) H) = Some (view_heap S B' H)" by (rule Cons.IH[OF c(3)])
  then show ?case unfolding deliver.simps v option.case ch'(1) upd .
qed simp

lemma share_deliver_ptrs: "share_deliver H a ps B = Some B' \<Longrightarrow>
    set (B' p) \<subseteq> (if p \<in> set ps then insert a (set (B p)) else set (B p))"
proof (induction ps arbitrary: B)
  case (Cons q ps)
  obtain c ch where c: "H q = Some c" "try_send a (ptr_chan (B q) c) = Some ch" "share_deliver H a ps (B(q := ch_buf ch)) = Some B'"
    using Cons.prems by (auto split: option.splits)
  have "set (ch_buf ch) \<subseteq> insert a (set (B q))" using c(2) by (auto simp: try_send_def ptr_chan_def split: if_splits)
  then show ?case using Cons.IH[OF c(3)] by (cases "p = q") (auto split: if_splits)
qed auto

lemma register_locked_frame:
  "register_locked ctx p c (h\<lparr>h_heap := H\<rparr>) = (register_locked ctx p c h)\<lparr>h_heap := H\<rparr>"
  by (simp add: register_locked_def Let_def split: option.split)

lemma in_room_heap [simp]: "in_room (h\<lparr>h_heap := H\<rparr>) = in_room h"
  by (simp add: in_room_def fun_eq_iff)

lemma registered_heap [simp]: "registered (h\<lparr>h_heap := H\<rparr>) = registered h"
  by (simp add: registered_def)

lemma view_simps [simp]:
  "h_shards (hs_hub (view A)) = h_shards (ss_hub A)" "registered (hs_hub (view A)) = registered (ss_hub A)"
  "hs_adds (view A) = hs_adds (ss_sys A)" "hs_subs (view A) = hs_subs (ss_sys A)"
  "h_heap (hs_hub (view A)) = view_heap (ss_store A) (ss_bufs A) (h_heap (ss_hub A))"
  by (simp_all add: view_def)

lemma view_hub: "hs_hub (view A) = (ss_hub A)\<lparr>h_heap := view_heap (ss_store A) (ss_bufs A) (h_heap (ss_hub A))\<rparr>"
  by (simp add: view_def)

text \<open>Every step is, in the view, a step of the hub or no step at all.\<close>

lemma view_connect:
  assumes "h_heap (ss_hub A) p = None" "c = NewClient u r"
    and "B = A\<lparr>ss_sys := (ss_sys A)\<lparr>hs_hub := register_locked ctx p c (alloc p c (ss_hub A)),
      hs_adds := Suc (hs_adds (ss_sys A))\<rparr>, ss_bufs := (ss_bufs A)(p := [])\<rparr>"
  shows "hub_step (view A) (view B)"
proof -
  let ?V = "view_heap (ss_store A) (ss_bufs A) (h_heap (ss_hub A))"
  have none: "h_heap (hs_hub (view A)) p = None" using assms(1) by (simp add: view_heap_def)
  have "view_client S [] c = c" for S using assms(2) by (simp add: view_client_def NewClient_def make_chan_def)
  then have heap: "view_heap (ss_store A) ((ss_bufs A)(p := [])) ((h_heap (ss_hub A))(p \<mapsto> c)) = ?V(p \<mapsto> c)"
    by (auto simp: view_heap_def fun_eq_iff)
  have al: "alloc p c (hs_hub (view A)) = (alloc p c (ss_hub A))\<lparr>h_heap := ?V(p \<mapsto> c)\<rparr>"
    by (simp add: alloc_def view_hub)
  have "view B = (view A)\<lparr>hs_hub := register_locked ctx p c (alloc p c (hs_hub (view A))), hs_adds := Suc (hs_adds (view A))\<rparr>"
    unfolding al register_locked_frame using heap assms(3) by (simp add: view_def alloc_def)
  then show ?thesis using hub_step.connect[OF none assms(2), of ctx] by simp
qed

lemma view_disconnect:
  assumes "p \<in> registered (ss_hub A)" "h_heap (ss_hub A) p = Some c" "unregister_locked p c (ss_hub A) = Some h"
    and "B = A\<lparr>ss_sys := (ss_sys A)\<lparr>hs_hub := h, hs_subs := Suc (hs_subs (ss_sys A))\<rparr>\<rparr>"
  shows "hub_step (view A) (view B)"
proof -
  let ?S = "ss_store A" and ?B = "ss_bufs A"
  let ?v = "view_client ?S (?B p) c"
  have v: "h_heap (hs_hub (view A)) p = Some ?v" using assms(2) by (simp add: view_heap_def)
  have cl: "view_heap ?S ?B ((h_heap (ss_hub A))(p \<mapsto> c\<lparr>c_Send := (c_Send c)\<lparr>ch_closed := True\<rparr>\<rparr>)) =
      (view_heap ?S ?B (h_heap (ss_hub A)))(p \<mapsto> ?v\<lparr>c_Send := (c_Send ?v)\<lparr>ch_closed := True\<rparr>\<rparr>)"
    by (auto simp: view_heap_def view_client_def fun_eq_iff)
  have "unregister_locked p ?v (hs_hub (view A)) = Some (hs_hub (view B))"
    using assms(3) cl unfolding assms(4) view_hub
    by (auto simp: unregister_locked_def close_chan_def Let_def fun_upd_idem v split: option.splits if_splits)
  then have "hub_step (view A) ((view A)\<lparr>hs_hub := hs_hub (view B), hs_subs := Suc (hs_subs (view A))\<rparr>)"
    using hub_step.disconnect[OF _ v] assms(1) by simp
  moreover have "view B = (view A)\<lparr>hs_hub := hs_hub (view B), hs_subs := Suc (hs_subs (view A))\<rparr>"
    unfolding assms(4) by (cases "ss_sys A") (simp add: view_def)
  ultimately show ?thesis by simp
qed

lemma view_broadcast:
  assumes inv: "\<And>p. set (ss_bufs A p) \<subseteq> dom (ss_store A)" and fresh: "ss_store A a = None"
    and del: "share_deliver (h_heap (ss_hub A)) a (room_clients (ss_hub A) (sm_RoomId m)) (ss_bufs A) = Some C"
    and B: "B = A\<lparr>ss_store := (ss_store A)(a \<mapsto> m), ss_orig := (ss_orig A)(a \<mapsto> m), ss_bufs := C\<rparr>"
  shows "hub_step (view A) (view B)"
proof -
  let ?S = "(ss_store A)(a \<mapsto> m)" and ?H = "h_heap (ss_hub A)"
  have "a \<notin> set (ss_bufs A p)" for p using inv[of p] fresh by auto
  then have same: "view_heap ?S (ss_bufs A) ?H = view_heap (ss_store A) (ss_bufs A) ?H"
    using inv by (intro view_heap_store_cong) auto
  have "deliver (strip m) (room_clients (ss_hub A) (sm_RoomId m)) (view_heap (ss_store A) (ss_bufs A) ?H) = Some (view_heap ?S C ?H)"
    using share_deliver_view[OF _ del, of ?S m] same by simp
  then have "Broadcast (strip m) False (hs_hub (view A)) = Some (hs_hub (view B))"
    using B by (auto simp: Broadcast_def room_clients_def view_hub split: option.splits)
  then have "hub_step (view A) ((view A)\<lparr>hs_hub := hs_hub (view B)\<rparr>)" by (rule hub_step.broadcast)
  then show ?thesis using B by (simp add: view_def)
qed

lemma view_receive:
  assumes "h_heap (ss_hub A) p = Some c" "range_next (ptr_chan (ss_bufs A p) c) = (Received a, ch)"
    and B: "B = A\<lparr>ss_bufs := (ss_bufs A)(p := ch_buf ch), ss_held := (ss_held A)(p \<mapsto> a)\<rparr>"
  shows "hub_step (view A) (view B)"
proof -
  let ?v = "view_client (ss_store A) (ss_bufs A p) c"
  have buf: "ss_bufs A p = a # ch_buf ch"
    using assms(2) by (cases "ss_bufs A p") (auto simp: range_next_def ptr_chan_def split: if_splits)
  have v: "h_heap (hs_hub (view A)) p = Some ?v" using assms(1) by (simp add: view_heap_def)
  let ?ch = "(c_Send ?v)\<lparr>ch_buf := map (\<lambda>a. strip (the (ss_store A a))) (ch_buf ch)\<rparr>"
  have "range_next (c_Send ?v) = (Received (strip (the (ss_store A a))), ?ch)" by (simp add: range_next_def buf)
  from hub_step.drain[OF v this] have "hub_step (view A) ((view A)\<lparr>hs_hub := alloc p (?v\<lparr>c_Send := ?ch\<rparr>) (hs_hub (view A))\<rparr>)" .
  moreover have "view_heap (ss_store A) ((ss_bufs A)(p := ch_buf ch)) (h_heap (ss_hub A)) =
      (view_heap (ss_store A) (ss_bufs A) (h_heap (ss_hub A)))(p \<mapsto> ?v\<lparr>c_Send := ?ch\<rparr>)"
    using assms(1) by (auto simp: view_heap_def view_client_def fun_eq_iff)
  ultimately show ?thesis using B by (simp add: view_def alloc_def)
qed

lemma view_sign:
  assumes inv: "\<And>p. set (ss_bufs A p) \<subseteq> dom (ss_store A)" and m: "ss_store A a = Some m"
  shows "view (A\<lparr>ss_store := (ss_store A)(a \<mapsto> m\<lparr>sm_MediaUrl := u\<rparr>)\<rparr>) = view A"
proof -
  have "view_heap ((ss_store A)(a \<mapsto> m\<lparr>sm_MediaUrl := u\<rparr>)) (ss_bufs A) (h_heap (ss_hub A)) =
      view_heap (ss_store A) (ss_bufs A) (h_heap (ss_hub A))"
    using m inv by (intro view_heap_store_cong) auto
  then show ?thesis by (simp add: view_def)
qed

lemma view_count_up:
  assumes "hs_adds (ss_sys A) = Suc n" "B = A\<lparr>ss_sys := (ss_sys A)\<lparr>hs_hub := connCnt_Add 1 (ss_hub A), hs_adds := n\<rparr>\<rparr>"
  shows "hub_step (view A) (view B)"
proof -
  have "view B = (view A)\<lparr>hs_hub := connCnt_Add 1 (hs_hub (view A)), hs_adds := n\<rparr>"
    unfolding assms(2) by (cases "ss_sys A"; cases "ss_hub A") (simp add: view_def connCnt_Add_def)
  then show ?thesis using hub_step.count_up[of "view A" n] assms(1) by simp
qed

lemma view_count_down:
  assumes "hs_subs (ss_sys A) = Suc n" "B = A\<lparr>ss_sys := (ss_sys A)\<lparr>hs_hub := connCnt_Add (- 1) (ss_hub A), hs_subs := n\<rparr>\<rparr>"
  shows "hub_step (view A) (view B)"
proof -
  have "view B = (view A)\<lparr>hs_hub := connCnt_Add (- 1) (hs_hub (view A)), hs_subs := n\<rparr>"
    unfolding assms(2) by (cases "ss_sys A"; cases "ss_hub A") (simp add: view_def connCnt_Add_def)
  then show ?thesis using hub_step.count_down[of "view A" n] assms(1) by simp
qed

lemma view_step:
  assumes inv: "shared_inv urls A" and st: "shared_step urls A B"
  shows "view B = view A \<or> hub_step (view A) (view B)"
proof -
  have bufs: "\<And>p. set (ss_bufs A p) \<subseteq> dom (ss_store A)" using inv by (simp add: shared_inv_def)
  from st show ?thesis
  proof (cases rule: shared_step.cases)
    case (connect p c u r ctx)
    then show ?thesis using view_connect by blast
  next
    case (count_up n)
    then show ?thesis using view_count_up by blast
  next
    case (disconnect p c h)
    then show ?thesis using view_disconnect by blast
  next
    case (count_down n)
    then show ?thesis using view_count_down by blast
  next
    case (broadcast a m C)
    then show ?thesis using view_broadcast[OF bufs] by blast
  next
    case (receive p c a ch)
    then show ?thesis using view_receive by blast
  next
    case (sign p a m u)
    then show ?thesis using view_sign[OF bufs] by blast
  qed (simp_all add: view_def)
qed

lemma shared_invI:
  assumes "\<And>p. set (ss_bufs A p) \<subseteq> dom (ss_store A)" "dom (ss_orig A) \<subseteq> dom (ss_store A)"
    and "\<And>a x. ss_store A a = Some x \<Longrightarrow> \<exists>m. ss_orig A a = Some m \<and> variant urls m x"
    and "\<And>p x. x \<in> set (ss_sent A p) \<Longrightarrow> traced urls A x"
    and "\<And>d. d \<in> set (ss_payloads A) \<Longrightarrow> \<exists>x. traced urls A x \<and> d = json_Marshal x"
  shows "shared_inv urls A"
  using assms unfolding shared_inv_def by simp

lemma shared_invD:
  assumes "shared_inv urls A"
  shows "set (ss_bufs A p) \<subseteq> dom (ss_store A)"
    "ss_store A a = Some x \<Longrightarrow> \<exists>m. ss_orig A a = Some m \<and> variant urls m x"
    "x \<in> set (ss_sent A p) \<Longrightarrow> traced urls A x"
    "d \<in> set (ss_payloads A) \<Longrightarrow> \<exists>x. traced urls A x \<and> d = json_Marshal x"
    "dom (ss_orig A) \<subseteq> dom (ss_store A)"
  using assms unfolding shared_inv_def by simp_all

lemma store_traced: "shared_inv urls A \<Longrightarrow> ss_store A a = Some x \<Longrightarrow> traced urls A x"
  unfolding traced_def by (blast dest: shared_invD(2))

lemma traced_mono: "traced urls A x \<Longrightarrow> ss_orig A \<subseteq>\<^sub>m ss_orig B \<Longrightarrow> traced urls B x"
  unfolding traced_def map_le_def by (metis domI)

lemma shared_inv_broadcast:
  assumes inv: "shared_inv urls A" and fresh: "ss_store A a = None" "ss_orig A a = None"
    and del: "share_deliver H a ps (ss_bufs A) = Some C"
    and B: "B = A\<lparr>ss_store := (ss_store A)(a \<mapsto> m), ss_orig := (ss_orig A)(a \<mapsto> m), ss_bufs := C\<rparr>"
  shows "shared_inv urls B"
proof -
  have le: "ss_orig A \<subseteq>\<^sub>m ss_orig B" using fresh(2) by (auto simp: B map_le_def)
  show ?thesis
  proof (rule shared_invI)
    show "set (ss_bufs B p) \<subseteq> dom (ss_store B)" for p
      using share_deliver_ptrs[OF del, of p] shared_invD(1)[OF inv, of p] by (fastforce simp: B split: if_splits)
    show "dom (ss_orig B) \<subseteq> dom (ss_store B)" using shared_invD(5)[OF inv] by (auto simp: B)
    show "\<exists>m. ss_orig B b = Some m \<and> variant urls m x" if "ss_store B b = Some x" for b x
      using that shared_invD(2)[OF inv, of b x] variant_refl by (auto simp: B split: if_splits)
    show "traced urls B x" if "x \<in> set (ss_sent B p)" for p x
      using that traced_mono[OF _ le] shared_invD(3)[OF inv] by (simp add: B)
    show "\<exists>x. traced urls B x \<and> d = json_Marshal x" if "d \<in> set (ss_payloads B)" for d
      using that traced_mono[OF _ le] shared_invD(4)[OF inv, of d] by (auto simp: B)
  qed
qed

lemma shared_inv_sign:
  assumes inv: "shared_inv urls A" and m: "ss_store A a = Some m" "sm_MediaKey m \<noteq> []"
      "sm_EventType m = EVENT_TYPE_MESSAGE" "u \<in> urls (sm_MediaKey m)"
  shows "shared_inv urls (A\<lparr>ss_store := (ss_store A)(a \<mapsto> m\<lparr>sm_MediaUrl := u\<rparr>)\<rparr>)" (is "shared_inv urls ?B")
proof (rule shared_invI)
  have tr: "traced urls ?B = traced urls A" by (simp add: traced_def fun_eq_iff)
  show "set (ss_bufs ?B p) \<subseteq> dom (ss_store ?B)" for p using shared_invD(1)[OF inv, of p] by auto
  show "dom (ss_orig ?B) \<subseteq> dom (ss_store ?B)" using shared_invD(5)[OF inv] by auto
  show "\<exists>m. ss_orig ?B b = Some m \<and> variant urls m x" if "ss_store ?B b = Some x" for b x
    using that shared_invD(2)[OF inv, of b] variant_sign[of urls _ m u] m(2-4) m(1) by (auto split: if_splits)
  show "traced urls ?B x" if "x \<in> set (ss_sent ?B p)" for p x
    using that shared_invD(3)[OF inv] tr by simp
  show "\<exists>x. traced urls ?B x \<and> d = json_Marshal x" if "d \<in> set (ss_payloads ?B)" for d
    using that shared_invD(4)[OF inv] tr by simp
qed

text \<open>The steps that leave the store as it is.\<close>

lemma shared_inv_frame:
  assumes inv: "shared_inv urls A" and "ss_store B = ss_store A" "ss_orig B = ss_orig A"
    and "\<And>p. set (ss_bufs B p) \<subseteq> set (ss_bufs A p)"
    and "\<And>p. set (ss_sent B p) \<subseteq> set (ss_sent A p) \<union> ran (ss_store A)"
    and "set (ss_payloads B) \<subseteq> set (ss_payloads A) \<union> json_Marshal ` ran (ss_store A)"
  shows "shared_inv urls B"
proof (rule shared_invI)
  have tr: "traced urls B = traced urls A" using assms(3) by (simp add: traced_def fun_eq_iff)
  show "set (ss_bufs B p) \<subseteq> dom (ss_store B)" for p using shared_invD(1)[OF inv, of p] assms(2) assms(4)[of p] by auto
  show "dom (ss_orig B) \<subseteq> dom (ss_store B)" using shared_invD(5)[OF inv] assms(2,3) by simp
  show "\<exists>m. ss_orig B a = Some m \<and> variant urls m x" if "ss_store B a = Some x" for a x
    using that shared_invD(2)[OF inv] assms(2,3) by simp
  show "traced urls B x" if "x \<in> set (ss_sent B p)" for p x
    using that assms(5)[of p] shared_invD(3)[OF inv] store_traced[OF inv] tr by (auto simp: ran_def)
  show "\<exists>x. traced urls B x \<and> d = json_Marshal x" if "d \<in> set (ss_payloads B)" for d
    using that assms(6) store_traced[OF inv] shared_invD(4)[OF inv, of d] tr by (fastforce simp: ran_def)
qed

lemma shared_inv_step:
  assumes inv: "shared_inv urls A" and st: "shared_step urls A B"
  shows "shared_inv urls B"
  using st
proof (cases rule: shared_step.cases)
  case (broadcast a m C)
  have "ss_orig A a = None" using shared_invD(5)[OF inv] broadcast(2) by auto
  then show ?thesis using shared_inv_broadcast[OF inv broadcast(2) _ broadcast(3)] broadcast(1) by simp
next
  case (sign p a m u)
  then show ?thesis using shared_inv_sign[OF inv] by simp
next
  case (publish a m)
  then show ?thesis by (intro shared_inv_frame[OF inv]) (auto simp: ran_def)
next
  case (receive p c a ch)
  have "set (ch_buf ch) \<subseteq> set (ss_bufs A p)"
    using receive(4) by (cases "ss_bufs A p") (auto simp: range_next_def ptr_chan_def split: if_splits)
  then show ?thesis using receive(1) by (intro shared_inv_frame[OF inv]) auto
next
  case (send p a m)
  then show ?thesis by (intro shared_inv_frame[OF inv]) (auto simp: ran_def)
qed (rule shared_inv_frame[OF inv], auto)+

lemma shared_reachable_inv: "shared_reachable urls A \<Longrightarrow> shared_inv urls A"
proof (induction rule: shared_reachable.induct)
  case (start n)
  show ?case by (rule shared_invI) (simp_all add: new_shared_def)
next
  case (step A B)
  then show ?case using shared_inv_step by blast
qed

lemma shared_reachable_view: "shared_reachable urls A \<Longrightarrow> hub_reachable (view A)"
proof (induction rule: shared_reachable.induct)
  case (start n)
  have "view (new_shared n) = \<lparr>hs_hub = NewHubWithLimit n, hs_adds = 0, hs_subs = 0\<rparr>"
    by (simp add: view_def new_shared_def NewHubWithLimit_def view_heap_def)
  then show ?case using hub_reachable.start by simp
next
  case (step A B)
  then show ?case using view_step[OF shared_reachable_inv] hub_reachable.step by metis
qed

section \<open>Rooms\<close>

text \<open>Every pointer a client's goroutine can reach leads to a message of the client's room.\<close>

definition room_of :: "shared_sys \<Rightarrow> cptr \<rightharpoonup> string" where
  "room_of A p = map_option c_RoomID (h_heap (ss_hub A) p)"

definition msg_room :: "shared_sys \<Rightarrow> nat \<rightharpoonup> string" where
  "msg_room A a = map_option sm_RoomId (ss_store A a)"

definition room_inv :: "shared_sys \<Rightarrow> bool" where
  "room_inv A \<longleftrightarrow>
     (\<forall>p a. a \<in> set (ss_bufs A p) \<or> ss_held A p = Some a \<longrightarrow> (\<exists>r. room_of A p = Some r \<and> msg_room A a = Some r))
     \<and> (\<forall>p x. x \<in> set (ss_sent A p) \<longrightarrow> room_of A p = Some (sm_RoomId x))"

lemma room_invD:
  assumes "room_inv A"
  shows "a \<in> set (ss_bufs A p) \<Longrightarrow> \<exists>r. room_of A p = Some r \<and> msg_room A a = Some r"
    "ss_held A p = Some a \<Longrightarrow> \<exists>r. room_of A p = Some r \<and> msg_room A a = Some r"
    "x \<in> set (ss_sent A p) \<Longrightarrow> room_of A p = Some (sm_RoomId x)"
  using assms unfolding room_inv_def by simp_all

lemma room_inv_mono:
  assumes inv: "room_inv A" and le: "room_of A \<subseteq>\<^sub>m room_of B" "msg_room A \<subseteq>\<^sub>m msg_room B"
    and bufs: "\<And>p a. a \<in> set (ss_bufs B p) \<Longrightarrow>
      a \<in> set (ss_bufs A p) \<or> (\<exists>r. room_of B p = Some r \<and> msg_room B a = Some r)"
    and held: "\<And>p a. ss_held B p = Some a \<Longrightarrow> ss_held A p = Some a \<or> a \<in> set (ss_bufs A p)"
    and sent: "\<And>p x. x \<in> set (ss_sent B p) \<Longrightarrow> x \<in> set (ss_sent A p)
      \<or> (\<exists>a. ss_held A p = Some a \<and> ss_store A a = Some x)"
  shows "room_inv B"
proof -
  have ro: "room_of A p = Some r \<Longrightarrow> room_of B p = Some r" for p r using le(1) by (force simp: map_le_def)
  have mr: "msg_room A a = Some r \<Longrightarrow> msg_room B a = Some r" for a r using le(2) by (force simp: map_le_def)
  have old: "\<exists>r. room_of B p = Some r \<and> msg_room B a = Some r"
    if "a \<in> set (ss_bufs A p) \<or> ss_held A p = Some a" for p a
    using that room_invD(1,2)[OF inv] ro mr by blast
  have "room_of B p = Some (sm_RoomId x)" if x: "x \<in> set (ss_sent B p)" for p x
    using sent[OF x] room_invD(3)[OF inv, of x p] room_invD(2)[OF inv, of p] ro by (auto simp: msg_room_def)
  then show ?thesis unfolding room_inv_def using old bufs held by blast
qed

lemma unregister_rooms:
  "h_heap h p = Some c \<Longrightarrow> unregister_locked p c h = Some h' \<Longrightarrow>
     map_option c_RoomID (h_heap h' q) = map_option c_RoomID (h_heap h q)"
  by (auto simp: unregister_locked_def Let_def split: option.splits if_splits)

lemma room_client_room:
  assumes "shared_reachable urls A" "p \<in> set (room_clients (ss_hub A) r)"
  shows "room_of A p = Some r \<and> (\<exists>c. h_heap (ss_hub A) p = Some c \<and> \<not> ch_closed (c_Send c))"
proof -
  have inv: "hub_inv (hs_hub (view A))"
    using reachable_sys_inv[OF shared_reachable_view[OF assms(1)]] by (simp add: sys_inv_def)
  have "in_room (hs_hub (view A)) r p"
    using assms(2) by (cases "shard_lookup (h_shards (ss_hub A)) r") (auto simp: in_room_def room_clients_def)
  from hub_inv_room[OF inv this] obtain c where "h_heap (hs_hub (view A)) p = Some c" "client_ok r c" by blast
  then show ?thesis by (auto simp: view_heap_def room_of_def client_ok_def)
qed

lemma room_inv_step:
  assumes re: "shared_reachable urls A" and inv: "room_inv A" and st: "shared_step urls A B"
  shows "room_inv B"
  using st
proof (cases rule: shared_step.cases)
  case (connect p c u r ctx)
  then show ?thesis by (intro room_inv_mono[OF inv]) (auto simp: map_le_def room_of_def msg_room_def split: if_splits)
next
  case (disconnect p c h)
  have "room_of B = room_of A" using unregister_rooms[OF disconnect(3,4)] disconnect(1) by (simp add: room_of_def fun_eq_iff)
  then show ?thesis using disconnect(1) by (intro room_inv_mono[OF inv]) (auto simp: msg_room_def map_le_def)
next
  case (broadcast a m C)
  have "set (C p) \<subseteq> (if p \<in> set (room_clients (ss_hub A) (sm_RoomId m)) then insert a (set (ss_bufs A p)) else set (ss_bufs A p))" for p
    using share_deliver_ptrs[OF broadcast(3)] .
  then have new: "x \<in> set (ss_bufs A p) \<or> (\<exists>r. room_of B p = Some r \<and> msg_room B x = Some r)" if "x \<in> set (C p)" for p x
    using that room_client_room[OF re, of p "sm_RoomId m"] broadcast(1)
    by (fastforce simp: room_of_def msg_room_def split: if_splits)
  have "msg_room A \<subseteq>\<^sub>m msg_room B" using broadcast(1,2) by (auto simp: map_le_def msg_room_def)
  then show ?thesis using broadcast(1) new by (intro room_inv_mono[OF inv]) (auto simp: room_of_def map_le_def)
next
  case (receive p c a ch)
  have "ss_bufs A p = a # ch_buf ch"
    using receive(4) by (cases "ss_bufs A p") (auto simp: range_next_def ptr_chan_def split: if_splits)
  then show ?thesis
    using receive(1) by (intro room_inv_mono[OF inv]) (auto simp: map_le_def room_of_def msg_room_def split: if_splits)
qed (intro room_inv_mono[OF inv], auto simp: map_le_def room_of_def msg_room_def connCnt_Add_def split: if_splits)+

lemma shared_reachable_rooms: "shared_reachable urls A \<Longrightarrow> room_inv A"
proof (induction rule: shared_reachable.induct)
  case (start n)
  show ?case by (simp add: room_inv_def new_shared_def)
next
  case (step A B)
  then show ?case using room_inv_step by blast
qed

lemma share_deliver_total:
  "\<forall>p\<in>set ps. \<exists>c. H p = Some c \<and> \<not> ch_closed (c_Send c) \<Longrightarrow> \<exists>B'. share_deliver H a ps B = Some B'"
  by (induction ps arbitrary: B) (auto simp: try_send_def ptr_chan_def)

section \<open>Properties\<close>

text \<open>C20. Sharing message objects between goroutines changes nothing but media URLs: whatever the order in which the
  broadcasters send and marshal a message and the sender goroutines take, sign and send it, the
  channels of pointers behave as channels of messages do (every state is, through the store and up
  to \<open>MediaUrl\<close>, a reachable state of the hub), no broadcast panics, every message sent on a stream is a
  message that was broadcast to the room of that stream's client, and what is sent or published
  differs from the message broadcast at most in the URL, which then is one the storage gave for the
  message's key.\<close>

theorem shared_messages_refine:
  assumes "shared_reachable urls A"
  shows "hub_reachable (view A)
    \<and> (\<forall>m a. share_deliver (h_heap (ss_hub A)) a (room_clients (ss_hub A) (sm_RoomId m)) (ss_bufs A) \<noteq> None)
    \<and> (\<forall>p x. x \<in> set (ss_sent A p) \<longrightarrow>
         (\<exists>c a m. h_heap (ss_hub A) p = Some c \<and> sm_RoomId x = c_RoomID c \<and> ss_orig A a = Some m \<and> variant urls m x))
    \<and> (\<forall>d\<in>set (ss_payloads A). \<exists>a m x. ss_orig A a = Some m \<and> variant urls m x \<and> d = json_Marshal x)"
proof (intro conjI allI impI ballI)
  note inv = shared_invD[OF shared_reachable_inv[OF assms]]
  show "hub_reachable (view A)" by (rule shared_reachable_view[OF assms])
  show "share_deliver (h_heap (ss_hub A)) a (room_clients (ss_hub A) (sm_RoomId m)) (ss_bufs A) \<noteq> None" for m a
    using share_deliver_total[of "room_clients (ss_hub A) (sm_RoomId m)"] room_client_room[OF assms] by (metis option.distinct(1))
  show "\<exists>c a m. h_heap (ss_hub A) p = Some c \<and> sm_RoomId x = c_RoomID c \<and> ss_orig A a = Some m \<and> variant urls m x"
    if x: "x \<in> set (ss_sent A p)" for p x
    using inv(3)[OF x] room_invD(3)[OF shared_reachable_rooms[OF assms] x] by (auto simp: traced_def room_of_def)
  show "\<exists>a m x. ss_orig A a = Some m \<and> variant urls m x \<and> d = json_Marshal x" if "d \<in> set (ss_payloads A)" for d
    using inv(4)[OF that] by (auto simp: traced_def)
qed

definition demo_media :: ServerMessage where
  "demo_media = ServerMessage_zero\<lparr>sm_RoomId := ''r'', sm_MediaKey := ''k''\<rparr>"

text \<open>A run in which a media message is broadcast, taken, signed, and only then marshalled and sent.\<close>

lemma demo_shared_run:
  "\<exists>A. shared_reachable (\<lambda>k. {''https://s/'' @ k}) A
     \<and> ss_sent A 0 = [demo_media\<lparr>sm_MediaUrl := ''https://s/k''\<rparr>]
     \<and> ss_payloads A = [json_Marshal (demo_media\<lparr>sm_MediaUrl := ''https://s/k''\<rparr>)]"
proof -
  let ?urls = "\<lambda>k. {''https://s/'' @ k}" and ?c = "NewClient ''u'' ''r''"
  let ?N = "new_shared 0" and ?m = "demo_media\<lparr>sm_MediaUrl := ''https://s/k''\<rparr>"
  define A where "A = ?N\<lparr>ss_sys := (ss_sys ?N)\<lparr>hs_hub := register_locked 0 0 ?c (alloc 0 ?c (ss_hub ?N)),
        hs_adds := Suc (hs_adds (ss_sys ?N))\<rparr>, ss_bufs := (ss_bufs ?N)(0 := [])\<rparr>"
  have A: "shared_reachable ?urls A"
    unfolding A_def by (rule shared_reachable.step[OF shared_reachable.start shared_step.connect]) (auto simp: new_shared_def NewHubWithLimit_def)
  have hub: "h_heap (ss_hub A) 0 = Some ?c" "room_clients (ss_hub A) ''r'' = [0]"
    by (simp_all add: A_def room_clients_def register_locked_def new_shared_def NewHubWithLimit_def Let_def
        shard_table.lookup_empty shard_table.lookup_update shard_table.invar_empty)
  have rest: "ss_store A = Map.empty" "ss_bufs A = (\<lambda>_. [])" "ss_held A = Map.empty" "ss_sent A = (\<lambda>_. [])" "ss_payloads A = []"
    by (simp_all add: A_def new_shared_def fun_upd_def)
  let ?B1 = "A\<lparr>ss_store := [5 \<mapsto> demo_media], ss_orig := (ss_orig A)(5 \<mapsto> demo_media), ss_bufs := (\<lambda>_. [])(0 := [5])\<rparr>"
  have B1: "shared_reachable ?urls ?B1"
    using shared_reachable.step[OF A shared_step.broadcast[of A 5 demo_media "(\<lambda>_. [])(0 := [5])"]]
    by (simp add: rest hub demo_media_def try_send_def ptr_chan_def NewClient_def make_chan_def)
  let ?B2 = "?B1\<lparr>ss_bufs := (\<lambda>_. [])(0 := []), ss_held := [0 \<mapsto> 5]\<rparr>"
  have B2: "shared_reachable ?urls ?B2"
    using shared_reachable.step[OF B1 shared_step.receive[of ?B1 0 ?c 5 "ptr_chan [] ?c"]]
    by (simp add: rest hub range_next_def ptr_chan_def)
  let ?B3 = "?B2\<lparr>ss_store := [5 \<mapsto> ?m]\<rparr>"
  have B3: "shared_reachable ?urls ?B3"
    using shared_reachable.step[OF B2 shared_step.sign[of ?B2 0 5 demo_media "''https://s/k''"]]
    by (simp add: demo_media_def ServerMessage_zero_def)
  have B4: "shared_reachable ?urls (?B3\<lparr>ss_payloads := [json_Marshal ?m]\<rparr>)" (is "shared_reachable _ ?B4")
    using shared_reachable.step[OF B3 shared_step.publish[of ?B3 5 ?m]] by (simp add: rest)
  have "shared_reachable ?urls (?B4\<lparr>ss_sent := (\<lambda>_. [])(0 := [?m]), ss_held := Map.empty\<rparr>)"
    using shared_reachable.step[OF B4 shared_step.send[of ?B4 0 5 ?m]] by (simp add: rest)
  then show ?thesis by (intro exI[of _ "?B4\<lparr>ss_sent := (\<lambda>_. [])(0 := [?m]), ss_held := Map.empty\<rparr>"]) simp
qed

theorem shared_messages_refine_witness:
  "\<exists>A a m. shared_reachable (\<lambda>k. {''https://s/'' @ k}) A \<and> hub_reachable (view A)
     \<and> ss_orig A a = Some m \<and> variant (\<lambda>k. {''https://s/'' @ k}) m (demo_media\<lparr>sm_MediaUrl := ''https://s/k''\<rparr>)"
proof -
  obtain A where A: "shared_reachable (\<lambda>k. {''https://s/'' @ k}) A"
    "ss_sent A 0 = [demo_media\<lparr>sm_MediaUrl := ''https://s/k''\<rparr>]" using demo_shared_run by blast
  then show ?thesis using shared_messages_refine[OF A(1)] by (metis list.set_intros(1))
qed

end
