(* ===== verification/History.thy ===== *)
theory History
  imports Server_Facts
begin

text \<open>
  Reading back what was sent: \<open>processIncoming\<close>, the persisting goroutine and \<open>GetMessages\<close> of
  \<open>app/server/grpc_server.go\<close> over \<open>SaveMessage\<close> and \<open>GetMessagesBefore\<close> of \<open>app/repository/mongodb.go\<close>, composed.

  \<open>read_pages\<close> is the use of the cursor that the interface is made for: a client asks for a page,
  and while there is more asks again with the time of the last message it got. It takes fuel; a
  number above the number of messages of the room is enough.
\<close>

section \<open>Definitions\<close>

definition next_page :: "GetMessagesRequest \<Rightarrow> GetMessagesResponse \<Rightarrow> GetMessagesRequest" where
  "next_page req r = req\<lparr>gmr_BeforeUnixMs := sm_SentAtUnixMs (last (gmr_Messages r))\<rparr>"

fun read_pages ::
  "nat \<Rightarrow> 'b surroundings \<Rightarrow> GetMessagesRequest \<Rightarrow> ('r, 'p) ChatServer \<Rightarrow> (ServerMessage list \<times> ('r, 'p) ChatServer) option" where
  "read_pages 0 E req s = None"
| "read_pages (Suc n) E req s =
     (case GetMessages E req s of
        None \<Rightarrow> None
      | Some (Inl e, s') \<Rightarrow> None
      | Some (Inr r, s') \<Rightarrow>
          (if gmr_HasMore r then map_option (\<lambda>(ms, t). (gmr_Messages r @ ms, t)) (read_pages n E (next_page req r) s')
           else Some (gmr_Messages r, s')))"

definition room_docs :: "string \<Rightarrow> mongo_db \<Rightarrow> messageDoc list" where
  "room_docs roomID db = filter (in_rooms (roomIDAliases roomID)) (db_messages db)"

text \<open>What a document yields in the history of a room.\<close>

definition shown :: "string \<Rightarrow> messageDoc \<Rightarrow> ServerMessage" where
  "shown roomID d = (docToServerMessage d)\<lparr>sm_RoomId := roomID\<rparr>"

text \<open>A document as \<open>SaveMessage\<close> writes it for a message sent after the epoch.\<close>

definition dated :: "messageDoc \<Rightarrow> bool" where
  "dated d \<longleftrightarrow> (\<exists>k>0. md_CreatedAt d = fromUnixMilli k) \<and> md_SentAt d = md_CreatedAt d"

definition older :: "int \<Rightarrow> messageDoc \<Rightarrow> bool" where
  "older b d \<longleftrightarrow> b = 0 \<or> md_CreatedAt d < fromUnixMilli b"

section \<open>Pages\<close>

lemma GetMessages_up:
  assumes "mongo_repo_up (e_mongo E)" "sv_msgRepo s = Some db" "normalizeRoomID (gmr_RoomId req) \<noteq> []"
  obtains r s' where "GetMessages E req s = Some (Inr r, s')" "sv_msgRepo s' = Some db"
proof -
  have up: "mongo_up (mo_messages (e_mongo E)) msg_clash" using assms(1) by (simp add: mongo_repo_up_def)
  have "\<exists>ms. queryMessages (e_mongo E) f lim db = Inr ms" for f lim
    using mongo_up.find_up[OF up, of f newest_first "Some (nat lim)" "db_messages db"] by (auto simp: queryMessages_def)
  then obtain ms where "GetMessagesBefore (e_mongo E) (normalizeRoomID (gmr_RoomId req)) (gmr_BeforeUnixMs req)
      (page_limit (gmr_Limit req) + 1) db = Inr ms"
    using GetMessagesBefore_query page_limit_bounds[of "gmr_Limit req"] by (metis add.commute add_nonneg_pos zero_less_one
        order_trans zero_le_one)
  then show ?thesis using that by (rule GetMessages_answers[OF assms(3,2)])
qed

lemma newest_first_dated: "dated x \<Longrightarrow> dated y \<Longrightarrow> newest_first y \<le> newest_first x \<longleftrightarrow> md_CreatedAt y \<le> md_CreatedAt x"
  by (auto simp: newest_first_def dated_def)

lemma history_filter_dated:
  assumes "dated d"
  shows "history_filter roomID b d \<longleftrightarrow> in_rooms (roomIDAliases roomID) d \<and> older b d"
  using assms by (auto simp: history_filter_def before_cursor_def bson_lt_def dated_def older_def IsZero_fromUnixMilli)

lemma dated_desc:
  assumes "sorted_desc newest_first a" "\<forall>d\<in>set a. dated d" "distinct (map md_CreatedAt a)"
  shows "sorted_wrt (\<lambda>x y. md_CreatedAt y < md_CreatedAt x) a"
  using assms
proof (induction a)
  case (Cons x a)
  have "md_CreatedAt y < md_CreatedAt x" if "y \<in> set a" for y
  proof -
    have "newest_first y \<le> newest_first x" using Cons.prems(1) that by (simp add: sorted_desc_def)
    then have "md_CreatedAt y \<le> md_CreatedAt x" using Cons.prems(2) that newest_first_dated by simp
    moreover have "md_CreatedAt y \<noteq> md_CreatedAt x" using Cons.prems(3) that by (auto simp: image_iff)
    ultimately show ?thesis by simp
  qed
  then show ?case using Cons by (simp add: sorted_desc_def)
qed simp

lemma dated_sort_desc:
  assumes "\<forall>d\<in>set ds. dated d" "distinct (map md_CreatedAt ds)"
  shows "sorted_wrt (\<lambda>x y. md_CreatedAt y < md_CreatedAt x) (sort_desc newest_first ds)"
proof (rule dated_desc[OF sorted_sort_desc])
  show "\<forall>d\<in>set (sort_desc newest_first ds). dated d" using assms(1) by (metis mset_sort_desc set_mset_mset)
  show "distinct (map md_CreatedAt (sort_desc newest_first ds))"
    using assms(2) by (metis mset_map mset_sort_desc mset_eq_imp_distinct_iff)
qed

lemma desc_unique:
  assumes "sorted_wrt (\<lambda>x y. md_CreatedAt y < md_CreatedAt x) a" "sorted_wrt (\<lambda>x y. md_CreatedAt y < md_CreatedAt x) b"
    and "set a = set b"
  shows "a = b"
  using assms
proof (induction a arbitrary: b)
  case (Cons x a)
  then obtain y b' where b: "b = y # b'" by (cases b) auto
  have "x = y"
  proof (rule ccontr)
    assume "x \<noteq> y"
    then have "x \<in> set b'" "y \<in> set a" using Cons.prems(3) b by auto
    then show False using Cons.prems(1,2) b by fastforce
  qed
  moreover have "x \<notin> set a" "y \<notin> set b'" using Cons.prems(1,2) b by auto
  ultimately have "set a = set b'" using Cons.prems(3) b by auto
  then show ?case using Cons b \<open>x = y\<close> by simp
qed simp

text \<open>The page that a cursor gives, as a part of the whole history.\<close>

lemma page_of_walk:
  assumes M: "mongo_repo (e_mongo E)" and db: "sv_msgRepo s = Some db" and run: "GetMessages E req s = Some (Inr r, s')"
    and room: "roomID = normalizeRoomID (gmr_RoomId req)" and lim: "lim = nat (page_limit (gmr_Limit req))"
    and docs: "\<forall>d\<in>set (room_docs roomID db). dated d" "distinct (map md_CreatedAt (room_docs roomID db))"
    and R: "R = filter (older (gmr_BeforeUnixMs req)) (sort_desc newest_first (room_docs roomID db))"
  shows "gmr_Messages r = map (shown roomID) (take lim R) \<and> gmr_HasMore r = (length R > lim)"
proof -
  let ?cand = "filter (history_filter roomID (gmr_BeforeUnixMs req)) (db_messages db)"
  obtain a where a: "mset a = mset ?cand" "sorted_desc newest_first a"
    "gmr_Messages r = map (shown roomID) (take lim a)" "gmr_HasMore r = (length ?cand > lim)"
    using GetMessages_spec[OF M db run room refl refl] lim unfolding shown_def by blast
  have "history_filter roomID b d \<longleftrightarrow> in_rooms (roomIDAliases roomID) d \<and> older b d" if "d \<in> set (db_messages db)" for b d
    using that docs(1) history_filter_dated[of d roomID b] by (auto simp: room_docs_def history_filter_def)
  then have "?cand = filter (older (gmr_BeforeUnixMs req)) (room_docs roomID db)"
    by (auto simp: room_docs_def intro!: filter_cong)
  then have mR: "mset R = mset ?cand" unfolding R by (metis mset_filter mset_sort_desc)
  have sR: "sorted_wrt (\<lambda>x y. md_CreatedAt y < md_CreatedAt x) R"
    unfolding R by (rule sorted_wrt_filter[OF dated_sort_desc[OF docs]])
  have "sorted_wrt (\<lambda>x y. md_CreatedAt y < md_CreatedAt x) a"
  proof (rule dated_desc[OF a(2)])
    have "set a \<subseteq> set (room_docs roomID db)" using a(1) mset_eq_setD by (fastforce simp: history_filter_def room_docs_def)
    then show "\<forall>d\<in>set a. dated d" using docs(1) by blast
    have "distinct (map md_CreatedAt R)" using sR by (induction R) auto
    then show "distinct (map md_CreatedAt a)" using a(1) mR by (metis mset_map mset_eq_imp_distinct_iff)
  qed
  then have "a = R" using desc_unique[OF _ sR] a(1) mR mset_eq_setD by metis
  moreover have "length R = length ?cand" using mR mset_eq_length by blast
  ultimately show ?thesis using a(3,4) by simp
qed

text \<open>What is older than the last message of a page is what the page left out.\<close>

lemma older_than_page:
  assumes srt: "sorted_wrt (\<lambda>x y. md_CreatedAt y < md_CreatedAt x) L" and R: "R = filter (older b) L"
    and len: "0 < lim" "lim \<le> length R" and d: "d = last (take lim R)" "md_CreatedAt d = fromUnixMilli k" "k > 0"
  shows "filter (older k) L = drop lim R"
proof -
  have sR: "sorted_wrt (\<lambda>x y. md_CreatedAt y < md_CreatedAt x) (take lim R @ drop lim R)"
    using srt R by (simp add: sorted_wrt_filter)
  have ne: "take lim R \<noteq> []" using len by auto
  then have dR: "d \<in> set (take lim R)" "older b d" using d(1) R last_in_set[OF ne] in_set_takeD[of d lim R] by auto
  have keep: "older k x \<Longrightarrow> older b x" for x using dR(2) d(2,3) by (auto simp: older_def)
  have "filter (older k) L = filter (older k) R" using keep by (auto simp: R intro: filter_cong)
  also have "\<dots> = filter (older k) (take lim R) @ filter (older k) (drop lim R)"
    by (metis append_take_drop_id filter_append)
  also have "filter (older k) (drop lim R) = drop lim R"
    using sR dR(1) d(2) unfolding sorted_wrt_append filter_id_conv by (auto simp: older_def)
  also have "filter (older k) (take lim R) = []"
  proof -
    have "md_CreatedAt d \<le> md_CreatedAt x" if x: "x \<in> set (take lim R)" for x
    proof -
      have "take lim R = butlast (take lim R) @ [d]" using ne d(1) by simp
      then have "x = d \<or> x \<in> set (butlast (take lim R))" "sorted_wrt (\<lambda>x y. md_CreatedAt y < md_CreatedAt x) (butlast (take lim R) @ [d])"
        using x sR by (metis Un_iff empty_iff insert_iff list.set set_append, metis sorted_wrt_append)
      then show ?thesis by (auto simp: sorted_wrt_append)
    qed
    then show ?thesis using d(2,3) by (force simp: older_def filter_empty_conv)
  qed
  finally show ?thesis by simp
qed

lemma shown_sent: "dated d \<Longrightarrow> fromUnixMilli (sm_SentAtUnixMs (shown roomID d)) = md_CreatedAt d \<and> sm_SentAtUnixMs (shown roomID d) > 0"
  by (auto simp: shown_def docToServerMessage_def dated_def Let_def IsZero_fromUnixMilli)

lemma read_pages_walk:
  assumes up: "mongo_repo_up (e_mongo E)" and room: "roomID \<noteq> []"
    and docs: "\<forall>d\<in>set (room_docs roomID db). dated d" "distinct (map md_CreatedAt (room_docs roomID db))"
    and L: "L = sort_desc newest_first (room_docs roomID db)"
  shows "sv_msgRepo s = Some db \<Longrightarrow> normalizeRoomID (gmr_RoomId req) = roomID \<Longrightarrow>
    length (filter (older (gmr_BeforeUnixMs req)) L) < n \<Longrightarrow>
    \<exists>t. read_pages n E req s = Some (map (shown roomID) (filter (older (gmr_BeforeUnixMs req)) L), t)"
proof (induction n arbitrary: req s)
  case (Suc n)
  let ?R = "filter (older (gmr_BeforeUnixMs req)) L" and ?lim = "nat (page_limit (gmr_Limit req))"
  have M: "mongo_repo (e_mongo E)" using up by (simp add: mongo_repo_up_def)
  obtain r s' where r: "GetMessages E req s = Some (Inr r, s')" "sv_msgRepo s' = Some db"
    using GetMessages_up[OF up Suc.prems(1)] Suc.prems(2) room by blast
  have page: "gmr_Messages r = map (shown roomID) (take ?lim ?R)" "gmr_HasMore r = (length ?R > ?lim)"
    using page_of_walk[OF M Suc.prems(1) r(1) Suc.prems(2)[symmetric] refl docs] L by auto
  show ?case
  proof (cases "length ?R > ?lim")
    case False
    then show ?thesis using r(1) page by simp
  next
    case True
    have lim: "0 < ?lim" using page_limit_bounds[of "gmr_Limit req"] by simp
    let ?d = "last (take ?lim ?R)"
    have ne: "take ?lim ?R \<noteq> []" using lim True by auto
    then have "?d \<in> set L" using last_in_set[OF ne] in_set_takeD[of ?d ?lim ?R] by auto
    then have "dated ?d" using docs(1) L by (metis mset_sort_desc set_mset_mset)
    note sent = shown_sent[OF this, of roomID]
    let ?req = "next_page req r"
    have b: "gmr_BeforeUnixMs ?req = sm_SentAtUnixMs (shown roomID ?d)" "gmr_RoomId ?req = gmr_RoomId req"
      using page(1) ne by (simp_all add: next_page_def last_map)
    have rest: "filter (older (gmr_BeforeUnixMs ?req)) L = drop ?lim ?R"
      using older_than_page[OF dated_sort_desc[OF docs] refl lim _ refl, of "gmr_BeforeUnixMs req" "gmr_BeforeUnixMs ?req"]
        True sent b(1) L by simp
    have "length (filter (older (gmr_BeforeUnixMs ?req)) L) < n" using Suc.prems(3) lim True unfolding rest by simp
    from Suc.IH[OF r(2) _ this] obtain t where
      "read_pages n E ?req s' = Some (map (shown roomID) (filter (older (gmr_BeforeUnixMs ?req)) L), t)"
      using Suc.prems(2) b(2) by auto
    then show ?thesis using r(1) page True rest by (simp flip: map_append)
  qed
qed simp

section \<open>From a frame to the history\<close>

lemma in_own_aliases:
  assumes "roomID \<noteq> []" "TrimSpace roomID = roomID"
  shows "roomID \<in> set (roomIDAliases roomID)"
proof -
  have "roomID \<in> set (canonicalDM [roomID] a b)" for a b
    unfolding canonicalDM_def Let_def by (simp add: set_foldl_alias_add del: foldl.simps)
  then show ?thesis using assms by (simp add: roomIDAliases_def Let_def)
qed

lemma UpdateReadReceipt_messages: "db_messages (snd (UpdateReadReceipt M r u i t db)) = db_messages db"
  by (auto simp: UpdateReadReceipt_def split: prod.split sum.split)

lemma run_persist_messages:
  assumes up: "mongo_repo_up (e_mongo E)" and db: "sv_msgRepo s = Some db"
    and new: "\<forall>d\<in>set (db_messages db). md_ID d \<noteq> md_ID (message_doc uuid (clk 0) m)"
  obtains db' where "sv_msgRepo (run_persist E clk uuid m s) = Some db'"
    "db_messages db' = db_messages db @ [message_doc uuid (clk 0) m]"
proof -
  let ?doc = "message_doc uuid (clk 0) m" and ?M = "e_mongo E"
  have M: "mongo_repo ?M" and mu: "mongo_up (mo_messages ?M) msg_clash" using up by (simp_all add: mongo_repo_up_def)
  have "fst (c_insert_one (mo_messages ?M) ?doc (db_messages db)) = Inr ()"
    using mongo_up.insert_up[OF mu, of "db_messages db" ?doc] new by (simp add: msg_clash_def) metis
  then have "\<exists>db1. SaveMessage ?M uuid (clk 0) m db = (Inr (), db1)"
    by (auto simp: SaveMessage_def Let_def split: prod.split)
  then obtain db1 where db1: "SaveMessage ?M uuid (clk 0) m db = (Inr (), db1)" by blast
  have stored: "db_messages db1 = db_messages db @ [?doc]" using mongo_repo.SaveMessage_stored(1)[OF M db1] .
  show ?thesis
    by (rule that[of "the (sv_msgRepo (run_persist E clk uuid m s))"])
      (simp_all add: run_persist_def Let_def db db1 stored UpdateReadReceipt_messages)
qed

text \<open>A document with fewer than \<open>n\<close> others as new is among the newest \<open>n\<close>.\<close>

lemma among_newest:
  assumes srt: "sorted_desc key a" and d: "d \<in> set a" and few: "length (filter (\<lambda>x. key d \<le> key x) a) \<le> n"
  shows "d \<in> set (take n a)"
proof (rule ccontr)
  assume "d \<notin> set (take n a)"
  then have dn: "d \<in> set (drop n a)" using d by (metis Un_iff append_take_drop_id set_append)
  have "sorted_wrt (\<lambda>x y. key y \<le> key x) (take n a @ drop n a)" using srt by (simp add: sorted_desc_def)
  then have "\<forall>x\<in>set (take n a). key d \<le> key x" using dn unfolding sorted_wrt_append by blast
  then have "length (filter (\<lambda>x. key d \<le> key x) (take n a)) = length (take n a)" by (simp add: filter_id_conv)
  moreover have "length (filter (\<lambda>x. key d \<le> key x) (drop n a)) > 0" using dn by (force simp: filter_empty_conv)
  moreover have "length (take n a) = n" using dn by (cases "n \<le> length a") auto
  ultimately have "n < length (filter (\<lambda>x. key d \<le> key x) (take n a @ drop n a))" unfolding filter_append length_append by linarith
  then show False using few by simp
qed

lemma doc_shown:
  assumes "doc = message_doc uuid now (toServerMsg at inp\<lparr>sm_Status := st\<rparr>)" "cm_MessageId inp \<noteq> []"
    "cm_SentAtUnixMs inp \<noteq> - 62135596800000"
  shows "md_ID doc = cm_MessageId inp" "newest_first doc = [fromUnixMilli (cm_SentAtUnixMs inp), fromUnixMilli (cm_SentAtUnixMs inp)]"
    "in_rooms (roomIDAliases r) doc \<longleftrightarrow> normalizeRoomID (cm_RoomId inp) \<in> set (roomIDAliases r)"
    "shown (normalizeRoomID (cm_RoomId inp)) doc =
       (toServerMsg at inp\<lparr>sm_Status := st\<rparr>)\<lparr>sm_Type := MESSAGE_TYPE_TEXT, sm_Status := MESSAGE_STATUS_SENDING\<rparr>"
proof -
  let ?m = "toServerMsg at inp\<lparr>sm_Status := st\<rparr>"
  have m: "sm_MessageId ?m \<noteq> []" "sm_SentAtUnixMs ?m \<noteq> - 62135596800000" using assms(2,3) by (simp_all add: toServerMsg_def)
  show "md_ID doc = cm_MessageId inp" "newest_first doc = [fromUnixMilli (cm_SentAtUnixMs inp), fromUnixMilli (cm_SentAtUnixMs inp)]"
    "in_rooms (roomIDAliases r) doc \<longleftrightarrow> normalizeRoomID (cm_RoomId inp) \<in> set (roomIDAliases r)"
    unfolding assms(1)
    by (simp_all add: assms(2,3) message_doc_def toServerMsg_def newest_first_def in_rooms_def Let_def IsZero_fromUnixMilli)
  show "shown (normalizeRoomID (cm_RoomId inp)) doc = ?m\<lparr>sm_Type := MESSAGE_TYPE_TEXT, sm_Status := MESSAGE_STATUS_SENDING\<rparr>"
    unfolding shown_def assms(1) doc_roundtrip[OF m] by (simp add: toServerMsg_def ServerMessage_zero_def)
qed

section \<open>Properties\<close>

text \<open>C7. What is sent can be read: when a chat frame with an unused, non-empty message id has been handled
  and the goroutine it started has run against a store that answers, a request for the newest history of
  the room, under whichever spelling the reader uses, returns the message as it was broadcast, with its
  sender, text, times, media and reply reference, unless a page full of messages of the room is as new or
  newer. Two fields are lost: the type comes back as text, and the status, which was sent, comes back as
  sending. The canonical room id is not empty and has no white space at its ends, and the message is not
  dated to the zero time.\<close>

theorem sent_message_in_history:
  assumes up: "mongo_repo_up (e_mongo E)" and inv: "hub_inv (sv_hub s)" and db: "sv_msgRepo s = Some db"
    and inp: "chat_frame inp" "cm_MessageId inp \<noteq> []" "cm_SentAtUnixMs inp \<noteq> - 62135596800000"
    and new: "\<forall>d\<in>set (db_messages db). md_ID d \<noteq> cm_MessageId inp"
    and room: "roomID = normalizeRoomID (cm_RoomId inp)" "normalizeRoomID (gmr_RoomId req) = roomID" "roomID \<noteq> []"
      "TrimSpace roomID = roomID"
    and req: "gmr_BeforeUnixMs req = 0"
      "length (filter (\<lambda>d. [fromUnixMilli (cm_SentAtUnixMs inp), fromUnixMilli (cm_SentAtUnixMs inp)] \<le> newest_first d)
        (room_docs roomID db)) < nat (page_limit (gmr_Limit req))"
    and sm: "sm = (toServerMsg (clk 0) inp)\<lparr>sm_Status := MESSAGE_STATUS_SENT\<rparr>"
  shows "\<exists>s1 s2 r s3. processIncoming E clk inp s = Some s1 \<and> sv_tasks s1 = sv_tasks s @ [PersistMessage sm]
    \<and> s2 = run_task E clk2 uuid (PersistMessage sm) s1 \<and> GetMessages E req s2 = Some (Inr r, s3)
    \<and> sm\<lparr>sm_Type := MESSAGE_TYPE_TEXT, sm_Status := MESSAGE_STATUS_SENDING\<rparr> \<in> set (gmr_Messages r)"
proof -
  let ?m = "(toServerMsg (clk 0) inp)\<lparr>sm_Status := MESSAGE_STATUS_SENT\<rparr>"
  define doc where "doc = message_doc uuid (clk2 0) ?m"
  note doc = doc_shown[OF doc_def inp(2,3)]
  obtain h where s1: "processIncoming E clk inp s = Some (persistMessage ?m (s\<lparr>sv_hub := h\<rparr>))"
    using processIncoming_chat[OF inv inp(1) refl] by blast
  let ?s1 = "persistMessage ?m (s\<lparr>sv_hub := h\<rparr>)"
  have tasks: "sv_tasks ?s1 = sv_tasks s @ [PersistMessage ?m]" "sv_msgRepo ?s1 = Some db"
    using db by (simp_all add: persistMessage_def spawn_def)
  have "\<forall>d\<in>set (db_messages db). md_ID d \<noteq> md_ID doc" using new doc(1) by simp
  from run_persist_messages[where clk = clk2, OF up tasks(2) this[unfolded doc_def]] obtain db' where
    db': "sv_msgRepo (run_persist E clk2 uuid ?m ?s1) = Some db'" "db_messages db' = db_messages db @ [doc]"
    unfolding doc_def by blast
  let ?s2 = "run_persist E clk2 uuid ?m ?s1"
  obtain r s3 where r: "GetMessages E req ?s2 = Some (Inr r, s3)" using GetMessages_up[OF up db'(1)] room(2,3) by metis
  have "mongo_repo (e_mongo E)" using up by (simp add: mongo_repo_up_def)
  from GetMessages_spec[OF this db'(1) r room(2)[symmetric] refl refl] obtain a where
    a: "mset a = mset (filter (history_filter roomID 0) (db_messages db'))" "sorted_desc newest_first a"
      "gmr_Messages r = map (shown roomID) (take (nat (page_limit (gmr_Limit req))) a)"
    using req(1) by (auto simp: shown_def)
  have "in_rooms (roomIDAliases roomID) doc" using doc(3) in_own_aliases[OF room(3,4)] room(1) by simp
  then have cand: "filter (history_filter roomID 0) (db_messages db') = room_docs roomID db @ [doc]"
    by (simp add: db'(2) history_filter_def[abs_def] room_docs_def)
  have "length (filter (\<lambda>x. newest_first doc \<le> newest_first x) a)
      = length (filter (\<lambda>x. newest_first doc \<le> newest_first x) (room_docs roomID db @ [doc]))"
    using a(1) cand by (metis mset_filter size_mset)
  moreover have "doc \<in> set a" using a(1) cand by (metis in_set_conv_decomp mset_eq_setD)
  ultimately have "doc \<in> set (take (nat (page_limit (gmr_Limit req))) a)"
    using req(2) doc(2) by (intro among_newest[OF a(2)]) simp_all
  then have "sm\<lparr>sm_Type := MESSAGE_TYPE_TEXT, sm_Status := MESSAGE_STATUS_SENDING\<rparr> \<in> set (gmr_Messages r)"
    unfolding sm using a(3) doc(4) room(1) by (metis image_eqI list.set_map)
  then show ?thesis unfolding sm using s1 tasks(1) r by (metis run_task.simps(1))
qed

lemma trim_r: "TrimSpace ''r'' = ''r''" by (rule TrimSpace_solid) (simp_all add: solid_def)

lemma norm_r: "normalizeRoomID ''r'' = ''r''"
  using trim_r by (intro normalizeRoomID_other) (simp_all add: HasPrefix_def)

theorem sent_message_in_history_witness:
  "\<exists>s1 r s3. processIncoming demo_env (\<lambda>_. 0) demo_frame demo_server = Some s1
     \<and> GetMessages demo_env \<lparr>gmr_RoomId = ''r'', gmr_UserId = ''v'', gmr_Limit = 1, gmr_BeforeUnixMs = 0\<rparr>
         (run_task demo_env (\<lambda>_. 0) ''x'' (PersistMessage ((toServerMsg 0 demo_frame)\<lparr>sm_Status := MESSAGE_STATUS_SENT\<rparr>)) s1)
           = Some (Inr r, s3)
     \<and> (toServerMsg 0 demo_frame)\<lparr>sm_Type := MESSAGE_TYPE_TEXT, sm_Status := MESSAGE_STATUS_SENDING\<rparr> \<in> set (gmr_Messages r)"
proof -
  let ?req = "\<lparr>gmr_RoomId = ''r'', gmr_UserId = ''v'', gmr_Limit = 1, gmr_BeforeUnixMs = 0\<rparr>"
  have up: "mongo_repo_up (e_mongo demo_env)" and inv: "hub_inv (sv_hub demo_server)"
    and db: "sv_msgRepo demo_server = Some mongo_db_empty"
    using ref_repo.mongo_repo_up_axioms by (simp_all add: demo_hub_facts)
  have f: "cm_MessageId demo_frame \<noteq> []" "cm_SentAtUnixMs demo_frame \<noteq> - 62135596800000" "cm_RoomId demo_frame = ''r''"
    by (simp_all add: demo_frame_def ClientMessage_zero_def)
  show ?thesis
    using sent_message_in_history[OF up inv db demo_frame_chat f(1,2) _ refl, of ?req _ "\<lambda>_. 0" "\<lambda>_. 0" "''x''"]
    by (auto simp: f(3) norm_r trim_r room_docs_def mongo_db_empty_def page_limit_def)
qed

text \<open>C8. Paging through a room's history with the cursor is complete: asking for a page and, while there
  is more, for the messages before the last one received, ends, and yields every message of the room
  exactly once, newest first, whatever the page size, provided that no two messages of the room
  carry the same millisecond and all were sent after the epoch.\<close>

theorem history_walk_complete:
  assumes "mongo_repo_up (e_mongo E)" "sv_msgRepo s = Some db"
    and "roomID = normalizeRoomID (gmr_RoomId req)" "roomID \<noteq> []" "gmr_BeforeUnixMs req = 0"
    and "\<forall>d\<in>set (room_docs roomID db). dated d" "distinct (map md_CreatedAt (room_docs roomID db))"
    and "length (room_docs roomID db) < n"
  shows "\<exists>t. read_pages n E req s = Some (map (shown roomID) (sort_desc newest_first (room_docs roomID db)), t)"
proof -
  let ?L = "sort_desc newest_first (room_docs roomID db)"
  have all: "filter (older (gmr_BeforeUnixMs req)) ?L = ?L" using assms(5) by (simp add: filter_id_conv older_def)
  have "length ?L < n" using assms(8) by (metis mset_sort_desc size_mset)
  then show ?thesis
    using read_pages_walk[OF assms(1,4,6,7) refl assms(2) assms(3)[symmetric], of n] all by simp
qed

definition demo_at :: "string \<Rightarrow> int \<Rightarrow> messageDoc" where
  "demo_at i ms = message_doc [] 0 (ServerMessage_zero\<lparr>sm_RoomId := ''r'', sm_UserId := ''u'', sm_MessageId := i,
     sm_Text := i, sm_SentAtUnixMs := ms\<rparr>)"

definition demo_history :: "messageDoc list \<Rightarrow> (room_json keyspace, string keyspace) ChatServer" where
  "demo_history ds = demo_server\<lparr>sv_msgRepo := Some (mongo_db_empty\<lparr>db_messages := ds\<rparr>)\<rparr>"

definition page_of_one :: GetMessagesRequest where
  "page_of_one = \<lparr>gmr_RoomId = ''r'', gmr_UserId = [], gmr_Limit = 1, gmr_BeforeUnixMs = 0\<rparr>"

lemma aliases_r: "roomIDAliases ''r'' = [''r'']"
  by (simp add: roomIDAliases_def trim_r HasPrefix_def Let_def)

lemma demo_at_simps:
  "in_rooms (roomIDAliases ''r'') (demo_at i ms)" "md_ID (demo_at i ms) = (if i = [] then [] else i)"
  "ms > 0 \<Longrightarrow> dated (demo_at i ms)" "ms > 0 \<Longrightarrow> md_CreatedAt (demo_at i ms) = fromUnixMilli ms"
  "ms > 0 \<Longrightarrow> md_SentAt (demo_at i ms) = fromUnixMilli ms"
  by (simp_all add: demo_at_def message_doc_def in_rooms_def aliases_r dated_def Let_def ServerMessage_zero_def IsZero_fromUnixMilli)
    auto

theorem history_walk_complete_witness:
  "\<exists>t ms. read_pages 3 demo_env page_of_one (demo_history [demo_at ''a'' 1, demo_at ''b'' 2]) = Some (ms, t)
     \<and> map sm_Text ms = [''b'', ''a'']"
proof -
  let ?db = "mongo_db_empty\<lparr>db_messages := [demo_at ''a'' 1, demo_at ''b'' 2]\<rparr>"
  have docs: "room_docs ''r'' ?db = [demo_at ''a'' 1, demo_at ''b'' 2]" by (simp add: room_docs_def demo_at_simps)
  have up: "mongo_repo_up (e_mongo demo_env)" using ref_repo.mongo_repo_up_axioms by simp
  have srt: "sort_desc newest_first [demo_at ''a'' 1, demo_at ''b'' 2] = [demo_at ''b'' 2, demo_at ''a'' 1]"
    by (simp add: sort_desc_def newest_first_def demo_at_simps fromUnixMilli_def)
  have txts: "map sm_Text (map (shown ''r'') [demo_at ''b'' 2, demo_at ''a'' 1]) = [''b'', ''a'']"
    by (simp add: shown_def docToServerMessage_def demo_at_def message_doc_def Let_def)
  have "\<exists>t. read_pages 3 demo_env page_of_one (demo_history [demo_at ''a'' 1, demo_at ''b'' 2])
      = Some (map (shown ''r'') [demo_at ''b'' 2, demo_at ''a'' 1], t)"
    using history_walk_complete[OF up, of "demo_history [demo_at ''a'' 1, demo_at ''b'' 2]" ?db "''r''" page_of_one 3]
    by (simp add: docs srt norm_r page_of_one_def demo_history_def demo_at_simps fromUnixMilli_def)
  then obtain t where "read_pages 3 demo_env page_of_one (demo_history [demo_at ''a'' 1, demo_at ''b'' 2])
      = Some (map (shown ''r'') [demo_at ''b'' 2, demo_at ''a'' 1], t)" ..
  then show ?thesis using txts by (intro exI conjI)
qed


text \<open>Without the proviso it is not: of two messages of one millisecond at a page boundary the second is
  never returned, because the cursor is a time and the filter is strict; and a message sent at the
  epoch, the time a client that sets none gets, makes the cursor zero, which starts again at the newest.\<close>

lemma demo_page:
  "gmr_RoomId req = ''r'' \<Longrightarrow> gmr_UserId req = [] \<Longrightarrow> gmr_Limit req = 1 \<Longrightarrow>
   GetMessages demo_env req (demo_history ds) =
     (let a = sort_desc newest_first (filter (history_filter ''r'' (gmr_BeforeUnixMs req)) ds)
      in Some (Inr \<lparr>gmr_Messages = map (shown ''r'') (take 1 a), gmr_HasMore = (length a > 1)\<rparr>, demo_history ds))"
  using GetMessagesBefore_query[of 2 ref_mongo_ops "''r''" "gmr_BeforeUnixMs req" "mongo_db_empty\<lparr>db_messages := ds\<rparr>"]
  by (auto simp: GetMessages_def page_limit_def norm_r demo_history_def queryMessages_def ref_mongo_ops_def ref_coll_def
      limited_def Let_def shown_def take_map)

lemma shown_ms: "ms \<noteq> - 62135596800000 \<Longrightarrow> sm_SentAtUnixMs (shown ''r'' (demo_at i ms)) = ms"
  by (simp add: shown_def docToServerMessage_def demo_at_def message_doc_def Let_def IsZero_fromUnixMilli ServerMessage_zero_def)

lemma history_walk_skips:
  "\<exists>t m. read_pages 2 demo_env page_of_one (demo_history [demo_at ''a'' 1, demo_at ''b'' 1]) = Some ([m], t)"
proof -
  let ?ds = "[demo_at ''a'' 1, demo_at ''b'' 1]" and ?q = "page_of_one\<lparr>gmr_BeforeUnixMs := 1\<rparr>"
  have f: "filter (history_filter ''r'' 0) ?ds = ?ds" "filter (history_filter ''r'' 1) ?ds = []"
    and s: "sort_desc newest_first ?ds = ?ds" "sort_desc newest_first [] = ([] :: messageDoc list)"
    by (simp_all add: history_filter_dated demo_at_simps older_def sort_desc_def newest_first_def)
  have p1: "GetMessages demo_env page_of_one (demo_history ?ds) =
      Some (Inr \<lparr>gmr_Messages = [shown ''r'' (demo_at ''a'' 1)], gmr_HasMore = True\<rparr>, demo_history ?ds)"
    using demo_page[of page_of_one ?ds] f(1) s(1) by (simp add: page_of_one_def Let_def del: filter.simps)
  have p2: "GetMessages demo_env ?q (demo_history ?ds) = Some (Inr \<lparr>gmr_Messages = [], gmr_HasMore = False\<rparr>, demo_history ?ds)"
    using demo_page[of ?q ?ds] f(2) s(2) by (simp add: page_of_one_def Let_def del: filter.simps)
  have "next_page page_of_one \<lparr>gmr_Messages = [shown ''r'' (demo_at ''a'' 1)], gmr_HasMore = True\<rparr> = ?q"
    by (simp add: next_page_def shown_ms)
  then show ?thesis by (simp add: numeral_2_eq_2 p1 p2)
qed

lemma history_walk_restarts:
  "read_pages n demo_env page_of_one (demo_history [demo_at ''a'' 0, demo_at ''b'' (- 1)]) = None"
proof (induction n)
  case (Suc n)
  let ?ds = "[demo_at ''a'' 0, demo_at ''b'' (- 1)]"
  have f: "filter (history_filter ''r'' 0) ?ds = ?ds" by (simp add: history_filter_def demo_at_simps)
  have s: "sort_desc newest_first ?ds = ?ds"
    by (simp add: sort_desc_def newest_first_def demo_at_def message_doc_def Let_def fromUnixMilli_def IsZero_def zero_time_def
        ServerMessage_zero_def)
  have p: "GetMessages demo_env page_of_one (demo_history ?ds) =
      Some (Inr \<lparr>gmr_Messages = [shown ''r'' (demo_at ''a'' 0)], gmr_HasMore = True\<rparr>, demo_history ?ds)"
    using demo_page[of page_of_one ?ds] f s by (simp add: page_of_one_def Let_def del: filter.simps)
  have "next_page page_of_one \<lparr>gmr_Messages = [shown ''r'' (demo_at ''a'' 0)], gmr_HasMore = True\<rparr> = page_of_one"
    by (simp add: next_page_def shown_ms) (simp add: page_of_one_def)
  then show ?case using Suc p by simp
qed simp

end
