(* ===== verification/Persist.thy ===== *)
theory Persist
  imports History
begin

text \<open>
  The goroutines of \<open>persistMessage\<close> in \<open>app/server/grpc_server.go\<close>, statement by statement.

  \<open>Server\<close> runs the body of such a goroutine as a whole. Here it stops before every call on a store, and
  the goroutines of several messages interleave at these points: \<open>SaveMessage\<close> of
  \<open>app/repository/mongodb.go\<close> is three calls, of which the last two are made only when the first succeeds;
  then come \<open>UpdateLastActivity\<close> and \<open>UpdateReadReceipt\<close> of \<open>app/repository/postgres.go\<close>, and the read receipt
  of the message store. Alone, a goroutine does what \<open>run_persist\<close> says.
\<close>

section \<open>Definitions\<close>

text \<open>What a goroutine has captured, its clock and the id it would draw; and the call it makes next.\<close>

record persist_job =
  pj_msg :: ServerMessage
  pj_clk :: clock
  pj_uuid :: string

datatype persist_pc = AtInsert | AtConversation | AtRead | AtActivity | AtReceipt | AtMongoReceipt | Finished

abbreviation job_doc :: "persist_job \<Rightarrow> messageDoc" where
  "job_doc j \<equiv> message_doc (pj_uuid j) (pj_clk j 0) (pj_msg j)"

definition sent_time :: "persist_job \<Rightarrow> gotime" where
  "sent_time j = (let at = fromUnixMilli (sm_SentAtUnixMs (pj_msg j)) in if IsZero at then pj_clk j 1 else at)"

fun persist_next ::
  "'b surroundings \<Rightarrow> persist_job \<Rightarrow> persist_pc \<Rightarrow> ('r, 'p) ChatServer \<Rightarrow> persist_pc \<times> ('r, 'p) ChatServer" where
  "persist_next E j AtInsert s =
     (case sv_msgRepo s of
        None \<Rightarrow> (AtActivity, s)
      | Some db \<Rightarrow>
          (case c_insert_one (mo_messages (e_mongo E)) (job_doc j) (db_messages db) of
             (Inl _, ms) \<Rightarrow> (AtActivity, s\<lparr>sv_msgRepo := Some (db\<lparr>db_messages := ms\<rparr>)\<rparr>)
           | (Inr _, ms) \<Rightarrow> (AtConversation, s\<lparr>sv_msgRepo := Some (db\<lparr>db_messages := ms\<rparr>)\<rparr>)))"
| "persist_next E j AtConversation s =
     (AtRead, s\<lparr>sv_msgRepo := map_option (\<lambda>db. db\<lparr>db_conversations := snd (c_update_one (mo_conversations (e_mongo E))
        (\<lambda>d. cv_ID d = sm_RoomId (pj_msg j))
        (last_message_update (msg_preview (pj_msg j)) (md_ID (job_doc j)) (md_CreatedAt (job_doc j)))
        (db_conversations db))\<rparr>) (sv_msgRepo s)\<rparr>)"
| "persist_next E j AtRead s =
     (AtActivity, s\<lparr>sv_msgRepo := map_option (\<lambda>db. db\<lparr>db_message_read := snd (c_update_one (mo_message_read (e_mongo E))
        (\<lambda>d. mr_ID d = md_ID (job_doc j))
        (read_upsert (md_ID (job_doc j)) (sm_RoomId (pj_msg j)) (sm_UserId (pj_msg j)) (msg_preview (pj_msg j)))
        (db_message_read db))\<rparr>) (sv_msgRepo s)\<rparr>)"
| "persist_next E j AtActivity s =
     (if sv_pgRooms s = None then (Finished, s)
      else (if sm_UserId (pj_msg j) = [] then Finished else AtReceipt,
            pg_do (UpdateLastActivity (e_pg E) (sm_RoomId (pj_msg j)) (sm_MessageId (pj_msg j)) (sm_UserId (pj_msg j))
              (preview_of (pj_msg j)) (fromUnixMilli (sm_SentAtUnixMs (pj_msg j)))) s))"
| "persist_next E j AtReceipt s =
     (AtMongoReceipt, pg_do (UpdateReadReceipt_pg (e_pg E) (sm_RoomId (pj_msg j)) (sm_UserId (pj_msg j))
        (sm_MessageId (pj_msg j)) (sent_time j)) s)"
| "persist_next E j AtMongoReceipt s =
     (Finished, mongo_do (UpdateReadReceipt (e_mongo E) (sm_RoomId (pj_msg j)) (sm_UserId (pj_msg j))
        (sm_MessageId (pj_msg j)) (sent_time j)) s)"
| "persist_next E j Finished s = (Finished, s)"

text \<open>One goroutine alone.\<close>

fun persist_alone ::
  "nat \<Rightarrow> 'b surroundings \<Rightarrow> persist_job \<Rightarrow> persist_pc \<times> ('r, 'p) ChatServer \<Rightarrow> persist_pc \<times> ('r, 'p) ChatServer" where
  "persist_alone 0 E j x = x"
| "persist_alone (Suc n) E j x = persist_alone n E j (persist_next E j (fst x) (snd x))"

text \<open>The goroutines of the messages \<open>jobs\<close>; a step is one call of one of them.\<close>

inductive persist_step ::
  "'b surroundings \<Rightarrow> persist_job list \<Rightarrow> persist_pc list \<times> ('r, 'p) ChatServer \<Rightarrow> persist_pc list \<times> ('r, 'p) ChatServer \<Rightarrow> bool"
  for E :: "'b surroundings" and jobs :: "persist_job list" where
  "i < length jobs \<Longrightarrow> pcs ! i \<noteq> Finished \<Longrightarrow> persist_next E (jobs ! i) (pcs ! i) s = (pc, s') \<Longrightarrow>
    persist_step E jobs (pcs, s) (pcs[i := pc], s')"

definition persist_start :: "persist_job list \<Rightarrow> ('r, 'p) ChatServer \<Rightarrow> persist_pc list \<times> ('r, 'p) ChatServer" where
  "persist_start jobs s = (replicate (length jobs) AtInsert, s)"

section \<open>A goroutine alone\<close>

lemma mongo_do_None: "sv_msgRepo s = None \<Longrightarrow> mongo_do f s = s"
  by (cases s) (simp add: mongo_do_def)

lemma persist_alone_run:
  "persist_alone 6 E j (AtInsert, s) = (Finished, run_persist E (pj_clk j) (pj_uuid j) (pj_msg j) s)"
proof (cases "sv_msgRepo s")
  case None
  then show ?thesis
    by (simp add: numeral_eq_Suc run_persist_def Let_def sent_time_def mongo_do_None)
next
  case (Some db)
  obtain res ms where ins: "c_insert_one (mo_messages (e_mongo E)) (job_doc j) (db_messages db) = (res, ms)" by fastforce
  show ?thesis
    using Some ins
    by (cases res) (simp_all add: numeral_eq_Suc run_persist_def Let_def sent_time_def mongo_do_def pg_do_def SaveMessage_def)
qed

section \<open>Interleavings end\<close>

fun rank :: "persist_pc \<Rightarrow> nat" where
  "rank AtInsert = 6" | "rank AtConversation = 5" | "rank AtRead = 4" | "rank AtActivity = 3"
| "rank AtReceipt = 2" | "rank AtMongoReceipt = 1" | "rank Finished = 0"

lemma persist_next_rank: "pc \<noteq> Finished \<Longrightarrow> persist_next E j pc s = (pc', s') \<Longrightarrow> rank pc' < rank pc"
  by (cases pc) (auto split: option.splits prod.splits sum.splits if_splits)

lemma persist_step_rank:
  assumes "persist_step E jobs x y" "length (fst x) = length jobs"
  shows "length (fst y) = length jobs \<and> sum_list (map rank (fst y)) < sum_list (map rank (fst x))"
  using assms
proof (cases rule: persist_step.cases)
  case (1 i pcs s pc s')
  have i: "i < length pcs" using 1 assms(2) by simp
  have "rank pc < rank (pcs ! i)" using persist_next_rank 1 by metis
  moreover have "sum_list (map rank pcs) = sum_list (map rank (take i pcs)) + rank (pcs ! i) + sum_list (map rank (drop (Suc i) pcs))"
    using i by (subst id_take_nth_drop[of i pcs]) simp_all
  moreover have "sum_list (map rank (pcs[i := pc])) = sum_list (map rank (take i pcs)) + rank pc + sum_list (map rank (drop (Suc i) pcs))"
    using i by (simp add: upd_conv_take_nth_drop)
  ultimately show ?thesis using 1 assms(2) by simp
qed

lemma persist_run_length:
  assumes "(persist_step E jobs ^^ n) x y" "length (fst x) = length jobs"
  shows "n + sum_list (map rank (fst y)) \<le> sum_list (map rank (fst x)) \<and> length (fst y) = length jobs"
  using assms(1)
proof (induction n arbitrary: y)
  case (Suc n)
  then obtain z where z: "(persist_step E jobs ^^ n) x z" "persist_step E jobs z y" by auto
  with Suc.IH[OF z(1)] persist_step_rank[OF z(2)] show ?case by simp
qed (use assms(2) in simp)

lemma persist_progress:
  assumes "length pcs = length jobs" "\<not> (\<forall>pc\<in>set pcs. pc = Finished)"
  shows "\<exists>y. persist_step E jobs (pcs, s) y"
proof -
  obtain i where "i < length pcs" "pcs ! i \<noteq> Finished" using assms(2) by (auto simp: in_set_conv_nth)
  then show ?thesis using persist_step.intros[of i jobs pcs E s] assms(1) by (metis surj_pair)
qed

section \<open>What an interleaving leaves\<close>

text \<open>The documents of the goroutines whose point satisfies \<open>P\<close>.\<close>

definition docs_at :: "(persist_pc \<Rightarrow> bool) \<Rightarrow> persist_job list \<Rightarrow> persist_pc list \<Rightarrow> messageDoc multiset" where
  "docs_at P jobs pcs = mset (map (job_doc \<circ> fst) (filter (P \<circ> snd) (zip jobs pcs)))"

lemma docs_at_Cons:
  "docs_at P (j # jobs) (pc # pcs) = (if P pc then {#job_doc j#} else {#}) + docs_at P jobs pcs"
  by (simp add: docs_at_def)

lemma docs_at_update:
  assumes "length pcs = length jobs" "i < length jobs"
  shows "docs_at P jobs (pcs[i := pc]) + (if P (pcs ! i) then {#job_doc (jobs ! i)#} else {#})
    = docs_at P jobs pcs + (if P pc then {#job_doc (jobs ! i)#} else {#})"
  using assms
proof (induction jobs arbitrary: pcs i)
  case (Cons j jobs)
  then obtain p ps where ps: "pcs = p # ps" "length ps = length jobs" by (cases pcs) auto
  show ?case
  proof (cases i)
    case 0
    then show ?thesis using ps(1) by (simp add: docs_at_Cons)
  next
    case (Suc k)
    then show ?thesis using Cons.IH[OF ps(2), of k] Cons.prems(2) ps(1) by (auto simp: docs_at_Cons add.assoc split: if_splits)
  qed
qed simp

lemma docs_at_all:
  assumes "length pcs = length jobs" "\<forall>pc\<in>set pcs. P pc"
  shows "docs_at P jobs pcs = mset (map job_doc jobs)"
  using assms(1)[symmetric] assms(2) by (induction jobs pcs rule: list_induct2) (auto simp: docs_at_def)

lemma docs_at_in: "d \<in># docs_at P jobs pcs \<Longrightarrow> \<exists>k<length jobs. d = job_doc (jobs ! k) \<and> P (pcs ! k)"
  by (auto simp: docs_at_def in_set_zip)

definition inserted :: "persist_pc \<Rightarrow> bool" where
  "inserted pc \<longleftrightarrow> pc \<noteq> AtInsert"

definition noted :: "persist_pc \<Rightarrow> bool" where
  "noted pc \<longleftrightarrow> pc \<in> {AtReceipt, AtMongoReceipt, Finished}"

text \<open>The row that a goroutine's \<open>UpdateLastActivity\<close> leaves for its room.\<close>

definition activity_row_of :: "persist_job \<Rightarrow> activity_row" where
  "activity_row_of j = \<lparr>la_room_id = sm_RoomId (pj_msg j),
     la_last_message_at = timestamptz (fromUnixMilli (sm_SentAtUnixMs (pj_msg j))),
     la_last_message_id = sm_MessageId (pj_msg j), la_last_sender_id = sm_UserId (pj_msg j),
     la_preview_text = preview_of (pj_msg j)\<rparr>"

text \<open>Jobs that the stores can take: distinct ids, none of them used, rooms that exist, a sender.\<close>

definition jobs_ok :: "persist_job list \<Rightarrow> mongo_db \<Rightarrow> pg_db \<Rightarrow> bool" where
  "jobs_ok jobs db pg \<longleftrightarrow> distinct (map (\<lambda>j. md_ID (job_doc j)) jobs)
     \<and> (\<forall>j\<in>set jobs. room_exists (sm_RoomId (pj_msg j)) pg \<and> sm_UserId (pj_msg j) \<noteq> []
          \<and> (\<forall>d\<in>set (db_messages db). md_ID d \<noteq> md_ID (job_doc j)))"

definition activity_inv :: "persist_job list \<Rightarrow> pg_db \<Rightarrow> persist_pc list \<Rightarrow> pg_db \<Rightarrow> string \<Rightarrow> bool" where
  "activity_inv jobs pg pcs pg' room \<longleftrightarrow>
     (\<exists>k<length jobs. sm_RoomId (pj_msg (jobs ! k)) = room \<and> noted (pcs ! k) \<and> activity_of room pg' = Some (activity_row_of (jobs ! k)))
     \<or> ((\<forall>k<length jobs. sm_RoomId (pj_msg (jobs ! k)) = room \<longrightarrow> \<not> noted (pcs ! k)) \<and> activity_of room pg' = activity_of room pg)"

definition persist_inv :: "persist_job list \<Rightarrow> mongo_db \<Rightarrow> pg_db \<Rightarrow> persist_pc list \<times> ('r, 'p) ChatServer \<Rightarrow> bool" where
  "persist_inv jobs db pg x \<longleftrightarrow> length (fst x) = length jobs
     \<and> (\<exists>db'. sv_msgRepo (snd x) = Some db' \<and> mset (db_messages db') = mset (db_messages db) + docs_at inserted jobs (fst x))
     \<and> (\<exists>pg'. sv_pgRooms (snd x) = Some pg' \<and> (\<forall>room. room_exists room pg \<longrightarrow> room_exists room pg')
          \<and> (\<forall>room. activity_inv jobs pg (fst x) pg' room))"

lemma persist_inv_start: "sv_msgRepo s = Some db \<Longrightarrow> sv_pgRooms s = Some pg \<Longrightarrow> persist_inv jobs db pg (persist_start jobs s)"
  by (auto simp: persist_inv_def persist_start_def docs_at_def inserted_def noted_def activity_inv_def filter_empty_conv in_set_zip)

lemma activity_inv_upd:
  assumes "activity_inv jobs pg pcs pg' room" "i < length jobs" "length pcs = length jobs"
    and "noted pc = noted (pcs ! i)" "activity_of room pg'' = activity_of room pg'"
  shows "activity_inv jobs pg (pcs[i := pc]) pg'' room"
proof -
  have "noted (pcs[i := pc] ! k) = noted (pcs ! k)" if "k < length jobs" for k
    using assms(2-4) that by (cases "k = i") simp_all
  then show ?thesis using assms(1,5) unfolding activity_inv_def by auto
qed

lemma activity_inv_noted:
  assumes "activity_inv jobs pg pcs pg' room" "i < length jobs" "length pcs = length jobs" "\<not> noted (pcs ! i)" "noted pc"
    and "activity_of (sm_RoomId (pj_msg (jobs ! i))) pg'' = Some (activity_row_of (jobs ! i))"
    and "room \<noteq> sm_RoomId (pj_msg (jobs ! i)) \<Longrightarrow> activity_of room pg'' = activity_of room pg'"
  shows "activity_inv jobs pg (pcs[i := pc]) pg'' room"
proof (cases "room = sm_RoomId (pj_msg (jobs ! i))")
  case True
  then show ?thesis using assms(2,3,5,6) unfolding activity_inv_def by (intro disjI1 exI[of _ i]) simp
next
  case False
  have "noted (pcs[i := pc] ! k) = noted (pcs ! k)" if "k < length jobs" "sm_RoomId (pj_msg (jobs ! k)) = room" for k
    using assms(2,3) that False by (cases "k = i") simp_all
  then show ?thesis using assms(1,7) False unfolding activity_inv_def by auto
qed

text \<open>What one call leaves, in the message store and in Postgres.\<close>

lemma persist_next_insert:
  assumes up: "mongo_repo_up (e_mongo E)" and db: "sv_msgRepo s = Some db"
    and new: "\<forall>d\<in>set (db_messages db). md_ID d \<noteq> md_ID (job_doc j)"
  shows "persist_next E j AtInsert s
    = (AtConversation, s\<lparr>sv_msgRepo := Some (db\<lparr>db_messages := db_messages db @ [job_doc j]\<rparr>)\<rparr>)"
proof -
  have mu: "mongo_up (mo_messages (e_mongo E)) msg_clash" using up by (simp add: mongo_repo_up_def)
  have "fst (c_insert_one (mo_messages (e_mongo E)) (job_doc j) (db_messages db)) = Inr ()"
    using mongo_up.insert_up[OF mu, of "db_messages db" "job_doc j"] new by (simp add: msg_clash_def) metis
  then obtain ms where ms: "c_insert_one (mo_messages (e_mongo E)) (job_doc j) (db_messages db) = (Inr (), ms)"
    by (metis prod.collapse)
  then have "ms = db_messages db @ [job_doc j]"
    using mongo_coll.insert_ok[OF mongo_up.axioms(1)[OF mu]] by blast
  then show ?thesis using db ms by simp
qed

lemma persist_next_messages:
  assumes "pc \<noteq> AtInsert" "persist_next E j pc s = (pc', s')" "sv_msgRepo s = Some db"
  shows "pc' \<noteq> AtInsert \<and> (\<exists>db'. sv_msgRepo s' = Some db' \<and> db_messages db' = db_messages db)"
  using assms by (cases pc) (auto simp: UpdateReadReceipt_messages split: if_splits)

lemma persist_next_pg:
  assumes "pc \<noteq> AtActivity" "persist_next E j pc s = (pc', s')" "sv_pgRooms s = Some pg"
  shows "noted pc' = noted pc \<and> (\<exists>pg'. sv_pgRooms s' = Some pg' \<and> pg_activity pg' = pg_activity pg
    \<and> (\<forall>room. room_exists room pg \<longrightarrow> room_exists room pg'))"
proof (cases "pc = AtReceipt")
  case True
  obtain res pg' where x: "UpdateReadReceipt_pg (e_pg E) (sm_RoomId (pj_msg j)) (sm_UserId (pj_msg j))
      (sm_MessageId (pj_msg j)) (sent_time j) pg = (res, pg')" by fastforce
  have "pg_activity pg' = pg_activity pg"
    using x UpsertReceipt_tables(2) by (auto simp: UpdateReadReceipt_pg_def pg_exec_def simp del: run_stmt.simps
        split: option.splits sum.splits)
  moreover have "room_exists room pg \<longrightarrow> room_exists room pg'" for room
    using x pg_exec_rooms_mono unfolding UpdateReadReceipt_pg_def by blast
  moreover have "pc' = AtMongoReceipt" "sv_pgRooms s' = Some pg'" using True assms x by auto
  ultimately show ?thesis using True by (simp add: noted_def)
next
  case False
  then show ?thesis using assms by (cases pc) (auto simp: noted_def split: option.splits prod.splits sum.splits)
qed

lemma persist_next_activity:
  assumes "e_pg E = no_fail" "sv_pgRooms s = Some pg" "room_exists (sm_RoomId (pj_msg j)) pg" "sm_UserId (pj_msg j) \<noteq> []"
    and "persist_next E j AtActivity s = (pc', s')"
  shows "pc' = AtReceipt \<and> (\<exists>pg'. sv_pgRooms s' = Some pg' \<and> activity_of (sm_RoomId (pj_msg j)) pg' = Some (activity_row_of j)
    \<and> (\<forall>room. room \<noteq> sm_RoomId (pj_msg j) \<longrightarrow> activity_of room pg' = activity_of room pg)
    \<and> (\<forall>room. room_exists room pg \<longrightarrow> room_exists room pg'))"
proof -
  let ?st = "UpsertActivity (sm_RoomId (pj_msg j)) (fromUnixMilli (sm_SentAtUnixMs (pj_msg j))) (sm_MessageId (pj_msg j))
    (sm_UserId (pj_msg j)) (preview_of (pj_msg j))"
  obtain pg' where pg': "run_stmt ?st pg = Inr pg'" using UpsertActivity_ok[OF assms(3)] by blast
  then have "sv_pgRooms s' = Some pg'" "pc' = AtReceipt"
    using assms by (auto simp: UpdateLastActivity_def pg_exec_def simp del: run_stmt.simps)
  then show ?thesis
    using UpsertActivity_tables(1,4)[OF pg'] run_stmt_rooms_mono[OF pg'] by (simp add: activity_row_of_def del: run_stmt.simps)
qed

lemma persist_messages_step:
  assumes up: "mongo_repo_up (e_mongo E)" and jobs: "jobs_ok jobs db pg" and inv: "persist_inv jobs db pg (pcs, s)"
    and i: "i < length jobs" and nxt: "persist_next E (jobs ! i) (pcs ! i) s = (pc, s')"
  shows "\<exists>db'. sv_msgRepo s' = Some db' \<and> mset (db_messages db') = mset (db_messages db) + docs_at inserted jobs (pcs[i := pc])"
proof -
  have len: "length pcs = length jobs" using inv by (simp add: persist_inv_def)
  obtain d where d: "sv_msgRepo s = Some d" "mset (db_messages d) = mset (db_messages db) + docs_at inserted jobs pcs"
    using inv by (auto simp: persist_inv_def)
  note upd = docs_at_update[OF len i, of inserted pc]
  show ?thesis
  proof (cases "pcs ! i = AtInsert")
    case True
    have "md_ID x \<noteq> md_ID (job_doc (jobs ! i))" if "x \<in> set (db_messages d)" for x
    proof -
      have "x \<in># mset (db_messages db) + docs_at inserted jobs pcs" using that d(2) by (metis set_mset_mset)
      then consider "x \<in> set (db_messages db)" | k where "k < length jobs" "x = job_doc (jobs ! k)" "inserted (pcs ! k)"
        by (auto dest: docs_at_in)
      then show ?thesis
      proof cases
        case 1
        then show ?thesis using jobs i unfolding jobs_ok_def by simp
      next
        case 2
        then have "k \<noteq> i" using True by (auto simp: inserted_def)
        moreover have "distinct (map (\<lambda>j. md_ID (job_doc j)) jobs)" using jobs by (simp add: jobs_ok_def)
        ultimately show ?thesis using 2 i by (auto simp: distinct_conv_nth)
      qed
    qed
    then have "persist_next E (jobs ! i) AtInsert s
        = (AtConversation, s\<lparr>sv_msgRepo := Some (d\<lparr>db_messages := db_messages d @ [job_doc (jobs ! i)]\<rparr>)\<rparr>)"
      by (intro persist_next_insert[OF up d(1)]) simp
    then show ?thesis using nxt True d(2) upd by (auto simp: inserted_def)
  next
    case False
    from persist_next_messages[OF this nxt d(1)] show ?thesis using d(2) upd False by (auto simp: inserted_def)
  qed
qed

lemma persist_activity_step:
  assumes "e_pg E = no_fail" and jobs: "jobs_ok jobs db pg" and inv: "persist_inv jobs db pg (pcs, s)"
    and i: "i < length jobs" and nxt: "persist_next E (jobs ! i) (pcs ! i) s = (pc, s')"
  shows "\<exists>pg'. sv_pgRooms s' = Some pg' \<and> (\<forall>room. room_exists room pg \<longrightarrow> room_exists room pg')
    \<and> (\<forall>room. activity_inv jobs pg (pcs[i := pc]) pg' room)"
proof -
  have len: "length pcs = length jobs" using inv by (simp add: persist_inv_def)
  obtain p where p: "sv_pgRooms s = Some p" "\<forall>room. room_exists room pg \<longrightarrow> room_exists room p"
    "\<forall>room. activity_inv jobs pg pcs p room" using inv by (auto simp: persist_inv_def)
  have j: "room_exists (sm_RoomId (pj_msg (jobs ! i))) p" "sm_UserId (pj_msg (jobs ! i)) \<noteq> []"
    using jobs i p(2) unfolding jobs_ok_def by simp_all
  show ?thesis
  proof (cases "pcs ! i = AtActivity")
    case True
    obtain p' where p': "pc = AtReceipt" "sv_pgRooms s' = Some p'"
      "activity_of (sm_RoomId (pj_msg (jobs ! i))) p' = Some (activity_row_of (jobs ! i))"
      "\<forall>room. room \<noteq> sm_RoomId (pj_msg (jobs ! i)) \<longrightarrow> activity_of room p' = activity_of room p"
      "\<forall>room. room_exists room p \<longrightarrow> room_exists room p'"
      using persist_next_activity[OF assms(1) p(1) j] nxt True by metis
    have "activity_inv jobs pg (pcs[i := pc]) p' room" for room
      by (rule activity_inv_noted[OF p(3)[rule_format] i len]) (use p' True in \<open>simp_all add: noted_def\<close>)
    then show ?thesis using p' p(2) by auto
  next
    case False
    obtain p' where p': "noted pc = noted (pcs ! i)" "sv_pgRooms s' = Some p'" "pg_activity p' = pg_activity p"
      "\<forall>room. room_exists room p \<longrightarrow> room_exists room p'"
      using persist_next_pg[OF False nxt p(1)] by blast
    have "activity_inv jobs pg (pcs[i := pc]) p' room" for room
      by (rule activity_inv_upd[OF p(3)[rule_format] i len p'(1)]) (simp add: activity_of_def p'(3))
    then show ?thesis using p' p(2) by auto
  qed
qed

lemma persist_inv_run:
  assumes "mongo_repo_up (e_mongo E)" "e_pg E = no_fail" "jobs_ok jobs db pg"
    and run: "(persist_step E jobs)\<^sup>*\<^sup>* x y" and inv: "persist_inv jobs db pg x"
  shows "persist_inv jobs db pg y"
  using run
proof (induction rule: rtranclp_induct)
  case (step y z)
  from step(2) show ?case
  proof (cases rule: persist_step.cases)
    case (1 i pcs s pc s')
    have y: "persist_inv jobs db pg (pcs, s)" using step(3) 1(1) by simp
    show ?thesis
      using persist_messages_step[OF assms(1,3) y 1(3,5)] persist_activity_step[OF assms(2,3) y 1(3,5)] y 1(2)
      by (simp add: persist_inv_def)
  qed
qed (rule inv)

lemma persist_ends: "length (fst x) = length jobs \<Longrightarrow> \<exists>y. (persist_step E jobs)\<^sup>*\<^sup>* x y \<and> (\<forall>pc\<in>set (fst y). pc = Finished)"
proof (induction "sum_list (map rank (fst x))" arbitrary: x rule: less_induct)
  case less
  show ?case
  proof (cases "\<forall>pc\<in>set (fst x). pc = Finished")
    case False
    obtain y where y: "persist_step E jobs x y"
      using persist_progress[OF less.prems False] by (metis prod.collapse)
    from less.hyps[of y] persist_step_rank[OF y less.prems] obtain z
      where "(persist_step E jobs)\<^sup>*\<^sup>* y z" "\<forall>pc\<in>set (fst z). pc = Finished" by blast
    then show ?thesis using y converse_rtranclp_into_rtranclp by metis
  qed blast
qed

text \<open>Goroutines that run one after the other are an interleaving too.\<close>

lemma persist_alone_steps:
  assumes "i < length jobs" "length pcs = length jobs"
  shows "(persist_step E jobs)\<^sup>*\<^sup>* (pcs[i := pc], s)
    (pcs[i := fst (persist_alone n E (jobs ! i) (pc, s))], snd (persist_alone n E (jobs ! i) (pc, s)))"
proof (induction n arbitrary: pc s)
  case (Suc n)
  obtain pc' s' where nxt: "persist_next E (jobs ! i) pc s = (pc', s')" by fastforce
  have "(persist_step E jobs)\<^sup>*\<^sup>* (pcs[i := pc], s) (pcs[i := pc'], s')"
  proof (cases "pc = Finished")
    case True
    then show ?thesis using nxt by simp
  next
    case False
    then show ?thesis
      using persist_step.intros[of i jobs "pcs[i := pc]" E s pc' s'] assms nxt by (simp add: r_into_rtranclp)
  qed
  then show ?case using Suc[of pc' s'] nxt by simp
qed simp

lemma persist_solo:
  assumes "i < length jobs" "length pcs = length jobs" "pcs ! i = AtInsert"
  shows "(persist_step E jobs)\<^sup>*\<^sup>* (pcs, s)
    (pcs[i := Finished], run_persist E (pj_clk (jobs ! i)) (pj_uuid (jobs ! i)) (pj_msg (jobs ! i)) s)"
  using persist_alone_steps[OF assms(1,2), of E AtInsert s 6] assms(3) list_update_id[of pcs i]
  by (simp add: persist_alone_run)

section \<open>The last goroutine to note its message\<close>

text \<open>\<open>last_to_note jobs k pcs\<close>: of the goroutines of one room only the one of \<open>jobs ! k\<close> has still to make its
  \<open>UpdateLastActivity\<close>.\<close>

abbreviation job_room :: "persist_job \<Rightarrow> string" where
  "job_room j \<equiv> sm_RoomId (pj_msg j)"

definition last_to_note :: "persist_job list \<Rightarrow> nat \<Rightarrow> persist_pc list \<Rightarrow> bool" where
  "last_to_note jobs k pcs \<longleftrightarrow> \<not> noted (pcs ! k)
     \<and> (\<forall>i<length jobs. i \<noteq> k \<longrightarrow> job_room (jobs ! i) = job_room (jobs ! k) \<longrightarrow> noted (pcs ! i))"

definition last_inv :: "persist_job list \<Rightarrow> nat \<Rightarrow> persist_pc list \<times> ('r, 'p) ChatServer \<Rightarrow> bool" where
  "last_inv jobs k x \<longleftrightarrow> last_to_note jobs k (fst x)
     \<or> (\<forall>i<length jobs. job_room (jobs ! i) = job_room (jobs ! k) \<longrightarrow> noted (fst x ! i))
       \<and> map_option (activity_of (job_room (jobs ! k))) (sv_pgRooms (snd x)) = Some (Some (activity_row_of (jobs ! k)))"

lemma last_inv_step:
  assumes E: "e_pg E = no_fail" and ok: "jobs_ok jobs db pg" and inv: "persist_inv jobs db pg (pcs, s)"
    and i: "i < length jobs" "persist_next E (jobs ! i) (pcs ! i) s = (pc, s')" and k: "k < length jobs"
    and l: "last_inv jobs k (pcs, s)"
  shows "last_inv jobs k (pcs[i := pc], s')"
proof -
  have len: "length pcs = length jobs" using inv by (simp add: persist_inv_def)
  obtain p where p: "sv_pgRooms s = Some p" "\<forall>room. room_exists room pg \<longrightarrow> room_exists room p"
    using inv by (auto simp: persist_inv_def)
  have j: "room_exists (job_room (jobs ! i)) p" "sm_UserId (pj_msg (jobs ! i)) \<noteq> []"
    using ok i p(2) unfolding jobs_ok_def by simp_all
  show ?thesis
  proof (cases "pcs ! i = AtActivity")
    case True
    obtain p' where p': "pc = AtReceipt" "sv_pgRooms s' = Some p'" "activity_of (job_room (jobs ! i)) p' = Some (activity_row_of (jobs ! i))"
      "\<forall>room. room \<noteq> job_room (jobs ! i) \<longrightarrow> activity_of room p' = activity_of room p"
      using persist_next_activity[OF E p(1) j] i(2) True by metis
    have n: "noted pc" "\<not> noted (pcs ! i)" using p'(1) True by (simp_all add: noted_def)
    show ?thesis
    proof (cases "job_room (jobs ! i) = job_room (jobs ! k)")
      case same: True
      then have "i = k" using l n(2) i(1) by (auto simp: last_inv_def last_to_note_def)
      then show ?thesis using l n p' len i(1) by (auto simp: last_inv_def last_to_note_def nth_list_update)
    next
      case False
      then have "i \<noteq> k" by auto
      then show ?thesis using l n p' p(1) len i(1) False by (auto simp: last_inv_def last_to_note_def nth_list_update)
    qed
  next
    case False
    obtain p' where p': "noted pc = noted (pcs ! i)" "sv_pgRooms s' = Some p'" "pg_activity p' = pg_activity p"
      using persist_next_pg[OF False i(2) p(1)] by blast
    have "noted (pcs[i := pc] ! m) = noted (pcs ! m)" if "m < length jobs" for m
      using p'(1) len that by (cases "m = i") simp_all
    then show ?thesis using l p' p(1) k by (auto simp: last_inv_def last_to_note_def activity_of_def)
  qed
qed

lemma last_inv_run:
  assumes "mongo_repo_up (e_mongo E)" "e_pg E = no_fail" "jobs_ok jobs db pg" "k < length jobs"
    and run: "(persist_step E jobs)\<^sup>*\<^sup>* x y" and inv: "persist_inv jobs db pg x" "last_inv jobs k x"
  shows "last_inv jobs k y"
  using run
proof (induction rule: rtranclp_induct)
  case (step y z)
  from step(2) show ?case
  proof (cases rule: persist_step.cases)
    case (1 i pcs s pc s')
    have "persist_inv jobs db pg (pcs, s)" using persist_inv_run[OF assms(1-3) step(1) inv(1)] 1(1) by simp
    then show ?thesis using last_inv_step[OF assms(2,3) _ 1(3,5) assms(4)] step(3) 1(1,2) by simp
  qed
qed (rule inv(2))

lemma persist_solos:
  assumes "distinct is" "\<forall>i\<in>set is. i < length jobs \<and> pcs ! i = AtInsert" "length pcs = length jobs"
  shows "\<exists>pcs' s'. (persist_step E jobs)\<^sup>*\<^sup>* (pcs, s) (pcs', s') \<and> length pcs' = length jobs
    \<and> (\<forall>i<length jobs. pcs' ! i = (if i \<in> set is then Finished else pcs ! i))"
  using assms
proof (induction "is" arbitrary: pcs s)
  case Nil
  then show ?case by auto
next
  case (Cons i "is")
  let ?pcs = "pcs[i := Finished]" and ?s = "run_persist E (pj_clk (jobs ! i)) (pj_uuid (jobs ! i)) (pj_msg (jobs ! i)) s"
  have run: "(persist_step E jobs)\<^sup>*\<^sup>* (pcs, s) (?pcs, ?s)" using Cons.prems by (intro persist_solo) simp_all
  have "\<forall>m\<in>set is. m < length jobs \<and> ?pcs ! m = AtInsert" using Cons.prems(1,2) by (metis distinct.simps(2) list.set_intros(2) nth_list_update_neq)
  then obtain pcs' s' where *: "(persist_step E jobs)\<^sup>*\<^sup>* (?pcs, ?s) (pcs', s')" "length pcs' = length jobs"
    "\<forall>m<length jobs. pcs' ! m = (if m \<in> set is then Finished else ?pcs ! m)"
    using Cons.IH[of ?pcs ?s] Cons.prems(1,3) by auto
  have "(persist_step E jobs)\<^sup>*\<^sup>* (pcs, s) (pcs', s')" by (rule rtranclp_trans[OF run *(1)])
  moreover have "\<forall>m<length jobs. pcs' ! m = (if m \<in> set (i # is) then Finished else pcs ! m)"
    using *(3) Cons.prems(3) by (auto simp: nth_list_update)
  ultimately show ?case using *(2) by blast
qed

section \<open>Properties\<close>

text \<open>C12. However the goroutines that persist several messages interleave, call by call: they finish, after at
  most six calls each; every message is then stored exactly once and nothing else is; and the last
  activity of a room is that of one of its new messages, or, if it has none, what it was. This while both
  stores are configured and answer, for messages that have a sender, whose ids are distinct and not yet
  stored, and whose rooms have a row in Postgres. (A group made by the \<open>CreateGroup\<close> RPC has none: there the
  statement fails, which the goroutine only logs.)\<close>

theorem persist_interleaved:
  assumes stores: "mongo_repo_up (e_mongo E)" "e_pg E = no_fail" "sv_msgRepo s = Some db" "sv_pgRooms s = Some pg"
    and jobs: "jobs_ok jobs db pg"
  shows "(\<forall>n y. (persist_step E jobs ^^ n) (persist_start jobs s) y \<longrightarrow> n \<le> 6 * length jobs
           \<and> ((\<nexists>z. persist_step E jobs y z) \<longleftrightarrow> (\<forall>pc\<in>set (fst y). pc = Finished)))
    \<and> (\<forall>y. (persist_step E jobs)\<^sup>*\<^sup>* (persist_start jobs s) y \<longrightarrow> (\<forall>pc\<in>set (fst y). pc = Finished) \<longrightarrow>
         (\<exists>db' pg'. sv_msgRepo (snd y) = Some db' \<and> sv_pgRooms (snd y) = Some pg'
            \<and> mset (db_messages db') = mset (db_messages db) + mset (map job_doc jobs)
            \<and> (\<forall>room. (\<exists>j\<in>set jobs. sm_RoomId (pj_msg j) = room \<and> activity_of room pg' = Some (activity_row_of j))
                 \<or> ((\<forall>j\<in>set jobs. sm_RoomId (pj_msg j) \<noteq> room) \<and> activity_of room pg' = activity_of room pg))))"
proof (intro conjI allI impI)
  let ?x = "persist_start jobs s"
  have len: "length (fst ?x) = length jobs" by (simp add: persist_start_def)
  fix n y assume run: "(persist_step E jobs ^^ n) ?x y"
  note r = persist_run_length[OF run len]
  have "sum_list (map rank (fst ?x)) = 6 * length jobs" by (simp add: persist_start_def sum_list_replicate)
  then show "n \<le> 6 * length jobs" using r by simp
  show "(\<nexists>z. persist_step E jobs y z) \<longleftrightarrow> (\<forall>pc\<in>set (fst y). pc = Finished)"
  proof
    assume "\<nexists>z. persist_step E jobs y z"
    then show "\<forall>pc\<in>set (fst y). pc = Finished" using persist_progress[of "fst y" jobs E "snd y"] r by (metis prod.collapse)
  next
    assume "\<forall>pc\<in>set (fst y). pc = Finished"
    then show "\<nexists>z. persist_step E jobs y z" using r by (auto elim!: persist_step.cases)
  qed
next
  fix y :: "persist_pc list \<times> ('b, 'c) ChatServer"
  assume run: "(persist_step E jobs)\<^sup>*\<^sup>* (persist_start jobs s) y" and fin: "\<forall>pc\<in>set (fst y). pc = Finished"
  have inv: "persist_inv jobs db pg y"
    by (rule persist_inv_run[OF stores(1,2) jobs run persist_inv_start[OF stores(3,4)]])
  then have len: "length (fst y) = length jobs" by (simp add: persist_inv_def)
  have "docs_at inserted jobs (fst y) = mset (map job_doc jobs)"
    by (rule docs_at_all[OF len]) (use fin in \<open>auto simp: inserted_def\<close>)
  moreover have "noted (fst y ! k)" if "k < length jobs" for k using fin that len by (simp add: noted_def)
  ultimately show "\<exists>db' pg'. sv_msgRepo (snd y) = Some db' \<and> sv_pgRooms (snd y) = Some pg'
      \<and> mset (db_messages db') = mset (db_messages db) + mset (map job_doc jobs)
      \<and> (\<forall>room. (\<exists>j\<in>set jobs. sm_RoomId (pj_msg j) = room \<and> activity_of room pg' = Some (activity_row_of j))
           \<or> ((\<forall>j\<in>set jobs. sm_RoomId (pj_msg j) \<noteq> room) \<and> activity_of room pg' = activity_of room pg))"
    using inv unfolding persist_inv_def activity_inv_def by (fastforce simp: in_set_conv_nth)
qed

definition demo_job :: "string \<Rightarrow> int \<Rightarrow> persist_job" where
  "demo_job i ms = \<lparr>pj_msg = demo_dm\<lparr>sm_MessageId := i, sm_SentAtUnixMs := ms\<rparr>, pj_clk = (\<lambda>_. 0), pj_uuid = ''x''\<rparr>"

lemma demo_jobs_ok: "jobs_ok [demo_job ''a'' 1, demo_job ''b'' 2] mongo_db_empty demo_pg"
  by (simp add: jobs_ok_def demo_job_def demo_dm_def message_doc_def Let_def room_exists_def demo_pg_eq mongo_db_empty_def)

theorem persist_interleaved_witness:
  "\<exists>y db'. (persist_step demo_env [demo_job ''a'' 1, demo_job ''b'' 2])\<^sup>*\<^sup>*
       (persist_start [demo_job ''a'' 1, demo_job ''b'' 2] demo_server) y
     \<and> sv_msgRepo (snd y) = Some db' \<and> length (db_messages db') = 2"
proof -
  let ?jobs = "[demo_job ''a'' 1, demo_job ''b'' 2]"
  have up: "mongo_repo_up (e_mongo demo_env)" using ref_repo.mongo_repo_up_axioms by simp
  have "length (fst (persist_start ?jobs demo_server)) = length ?jobs" by (simp add: persist_start_def)
  then obtain y where y: "(persist_step demo_env ?jobs)\<^sup>*\<^sup>* (persist_start ?jobs demo_server) y" "\<forall>pc\<in>set (fst y). pc = Finished"
    using persist_ends by blast
  with persist_interleaved[OF up demo_server_simps(6,3,2) demo_jobs_ok] obtain db'
    where db': "sv_msgRepo (snd y) = Some db'" "mset (db_messages db') = mset (db_messages mongo_db_empty) + mset (map job_doc ?jobs)" by blast
  from db'(2) have "size (mset (db_messages db')) = 2" by (simp add: mongo_db_empty_def)
  then have "length (db_messages db') = 2" by simp
  then show ?thesis using y(1) db' by blast
qed

text \<open>C13. But it need not be that of the newest: the statement overwrites the row whatever its time. Whenever,
  in an interleaving as above, all goroutines of a room but one have noted their message, then however the
  run goes on, in the end the room's last message, its time and its preview are those of that one, older
  or not, although all messages are stored; and every goroutine can be the last.\<close>

theorem last_activity_not_newest:
  assumes stores: "mongo_repo_up (e_mongo E)" "e_pg E = no_fail" "sv_msgRepo s = Some db" "sv_pgRooms s = Some pg"
    and jobs: "jobs_ok jobs db pg" "k < length jobs" "room = sm_RoomId (pj_msg (jobs ! k))"
  shows "(\<forall>x y. (persist_step E jobs)\<^sup>*\<^sup>* (persist_start jobs s) x \<longrightarrow> last_to_note jobs k (fst x) \<longrightarrow>
        (persist_step E jobs)\<^sup>*\<^sup>* x y \<longrightarrow> (\<forall>pc\<in>set (fst y). pc = Finished) \<longrightarrow>
        (\<exists>db' pg'. sv_msgRepo (snd y) = Some db' \<and> sv_pgRooms (snd y) = Some pg'
           \<and> mset (db_messages db') = mset (db_messages db) + mset (map job_doc jobs)
           \<and> activity_of room pg' = Some (activity_row_of (jobs ! k))))
    \<and> (\<exists>x y. (persist_step E jobs)\<^sup>*\<^sup>* (persist_start jobs s) x \<and> last_to_note jobs k (fst x)
        \<and> (persist_step E jobs)\<^sup>*\<^sup>* x y \<and> (\<forall>pc\<in>set (fst y). pc = Finished))"
proof (intro conjI allI impI)
  let ?st = "persist_start jobs s"
  note start = persist_inv_start[OF stores(3,4), of jobs]
  { fix x y assume x: "(persist_step E jobs)\<^sup>*\<^sup>* ?st x" "last_to_note jobs k (fst x)"
      and y: "(persist_step E jobs)\<^sup>*\<^sup>* x y" "\<forall>pc\<in>set (fst y). pc = Finished"
    have invx: "persist_inv jobs db pg x" by (rule persist_inv_run[OF stores(1,2) jobs(1) x(1) start])
    have inv: "persist_inv jobs db pg y" by (rule persist_inv_run[OF stores(1,2) jobs(1) y(1) invx])
    have len: "length (fst y) = length jobs" using inv by (simp add: persist_inv_def)
    have "last_inv jobs k y"
      by (rule last_inv_run[OF stores(1,2) jobs(1,2) y(1) invx]) (simp add: last_inv_def x(2))
    moreover have "noted (fst y ! k)" using y(2) len jobs(2) by (simp add: noted_def)
    moreover have "docs_at inserted jobs (fst y) = mset (map job_doc jobs)"
      by (rule docs_at_all[OF len]) (use y(2) in \<open>auto simp: inserted_def\<close>)
    ultimately show "\<exists>db' pg'. sv_msgRepo (snd y) = Some db' \<and> sv_pgRooms (snd y) = Some pg'
           \<and> mset (db_messages db') = mset (db_messages db) + mset (map job_doc jobs)
           \<and> activity_of room pg' = Some (activity_row_of (jobs ! k))"
      using inv jobs(3) by (auto simp: persist_inv_def last_inv_def last_to_note_def) }
  let ?is = "filter (\<lambda>i. i \<noteq> k) [0..<length jobs]"
  have "distinct ?is" "\<forall>i\<in>set ?is. i < length jobs \<and> replicate (length jobs) AtInsert ! i = AtInsert"
    "length (replicate (length jobs) AtInsert) = length jobs" by simp_all
  from persist_solos[OF this, of E s] obtain pcs' s' where x: "(persist_step E jobs)\<^sup>*\<^sup>* ?st (pcs', s')" "length pcs' = length jobs"
    "\<forall>i<length jobs. pcs' ! i = (if i \<in> set ?is then Finished else replicate (length jobs) AtInsert ! i)"
    unfolding persist_start_def by blast
  then have "last_to_note jobs k pcs'" using jobs(2) by (auto simp: last_to_note_def noted_def)
  moreover obtain y where "(persist_step E jobs)\<^sup>*\<^sup>* (pcs', s') y" "\<forall>pc\<in>set (fst y). pc = Finished"
    using persist_ends[of "(pcs', s')" jobs E] x(2) by auto
  ultimately show "\<exists>x y. (persist_step E jobs)\<^sup>*\<^sup>* ?st x \<and> last_to_note jobs k (fst x)
      \<and> (persist_step E jobs)\<^sup>*\<^sup>* x y \<and> (\<forall>pc\<in>set (fst y). pc = Finished)"
    using x(1) by (intro exI[of _ "(pcs', s')"] exI[of _ y]) simp
qed

theorem last_activity_not_newest_witness:
  "\<exists>y pg' db'. (persist_step demo_env [demo_job ''a'' 1, demo_job ''b'' 2])\<^sup>*\<^sup>*
       (persist_start [demo_job ''a'' 1, demo_job ''b'' 2] demo_server) y
     \<and> sv_msgRepo (snd y) = Some db' \<and> length (db_messages db') = 2
     \<and> sv_pgRooms (snd y) = Some pg' \<and> map_option la_last_message_id (activity_of ''dm:u:v'' pg') = Some ''a''"
proof -
  let ?jobs = "[demo_job ''a'' 1, demo_job ''b'' 2]"
  have up: "mongo_repo_up (e_mongo demo_env)" using ref_repo.mongo_repo_up_axioms by simp
  have j: "''dm:u:v'' = sm_RoomId (pj_msg (?jobs ! 0))" "la_last_message_id (activity_row_of (?jobs ! 0)) = ''a''" "0 < length ?jobs"
    by (simp_all add: demo_job_def demo_dm_def activity_row_of_def)
  note overwritten = last_activity_not_newest[OF up demo_server_simps(6,3,2) demo_jobs_ok j(3,1)]
  then obtain x y where xy: "(persist_step demo_env ?jobs)\<^sup>*\<^sup>* (persist_start ?jobs demo_server) x" "last_to_note ?jobs 0 (fst x)"
    "(persist_step demo_env ?jobs)\<^sup>*\<^sup>* x y" "\<forall>pc\<in>set (fst y). pc = Finished" by blast
  from overwritten[THEN conjunct1, rule_format, OF xy(1,2,3)] xy(4) obtain db' pg' where r: "sv_msgRepo (snd y) = Some db'" "sv_pgRooms (snd y) = Some pg'"
    "mset (db_messages db') = mset (db_messages mongo_db_empty) + mset (map job_doc ?jobs)"
    "activity_of ''dm:u:v'' pg' = Some (activity_row_of (?jobs ! 0))" by blast
  from r(3) have "size (mset (db_messages db')) = 2" by (simp add: mongo_db_empty_def)
  then have "length (db_messages db') = 2" by simp
  moreover have "map_option la_last_message_id (activity_of ''dm:u:v'' pg') = Some ''a''" using r(4) j(2) by simp
  ultimately show ?thesis using rtranclp_trans[OF xy(1,3)] r(1,2) by blast
qed

end
