(* ===== verification/Service.thy ===== *)
theory Service
  imports Chat_Stream Hub_Broker
begin

text \<open>
  A whole pod: the server state of \<open>app/server/grpc_server.go\<close> with any number of \<open>Chat\<close> streams, calls
  of every unary RPC, the goroutines the handlers start, the deliveries of the broker, the heartbeats,
  and the stores, which other pods change too.

  The step \<open>other\<close> of \<open>Chat_Stream\<close> assumes something of the rest of the pod; here the rest of the pod is
  there, and the assumption is proved. Every step on the hub is one of \<open>Hub\<close>'s, so that what is shown
  there holds of the service. A handler's calls between two points where it can block are one step, as
  in \<open>Chat_Stream\<close>; \<open>Hub\<close> has the interleavings inside \<open>Register\<close> and \<open>Unregister\<close>.
\<close>

section \<open>Definitions\<close>

text \<open>The unary methods of \<open>ChatServiceServer\<close> with the fields of their requests, and what a call does to
  the server.\<close>

datatype rpc =
    RpcCreateRoom CreateRoomRequest
  | RpcGetConversation string
  | RpcGetMessages GetMessagesRequest
  | RpcSendMessage SendMessageRequest
  | RpcSearchMessages string string int
  | RpcDeleteMessage DeleteMessageRequest
  | RpcEditMessage EditMessageRequest
  | RpcMarkMessageRead string string string
  | RpcGetUnreadCount string string
  | RpcRequestUpload UploadRequest
  | RpcGetDownloadUrl string
  | RpcGetPresence "string list"
  | RpcGetUserRooms string
  | RpcCreateGroup CreateGroupRequest
  | RpcAddGroupMember AddGroupMemberRequest
  | RpcRemoveGroupMember string string string
  | RpcLeaveGroup string string
  | RpcPromoteAdmin string string string
  | RpcTransferOwnership string string string
  | RpcDeleteGroup string string

fun serve_rpc ::
  "'b surroundings \<Rightarrow> clock \<Rightarrow> string \<Rightarrow> rpc \<Rightarrow> ('r, 'p) ChatServer \<Rightarrow> ('r, 'p) ChatServer option" where
  "serve_rpc E clk uuid (RpcCreateRoom req) s = map_option snd (CreateRoom E clk uuid req s)"
| "serve_rpc E clk uuid (RpcGetConversation conv) s = map_option (\<lambda>_. s) (GetConversation_rpc E conv s)"
| "serve_rpc E clk uuid (RpcGetMessages req) s = map_option snd (GetMessages E req s)"
| "serve_rpc E clk uuid (RpcSendMessage req) s = map_option snd (SendMessage clk uuid req s)"
| "serve_rpc E clk uuid (RpcSearchMessages conv query limit) s =
     map_option (\<lambda>_. s) (SearchMessages_rpc E conv query limit s)"
| "serve_rpc E clk uuid (RpcDeleteMessage req) s = map_option snd (DeleteMessage E req s)"
| "serve_rpc E clk uuid (RpcEditMessage req) s = map_option snd (EditMessage_rpc E clk req s)"
| "serve_rpc E clk uuid (RpcMarkMessageRead conv user msgID) s =
     map_option snd (MarkMessageRead_rpc E clk conv user msgID s)"
| "serve_rpc E clk uuid (RpcGetUnreadCount user conv) s = map_option (\<lambda>_. s) (GetUnreadCount_rpc E user conv s)"
| "serve_rpc E clk uuid (RpcRequestUpload req) s = map_option snd (RequestUpload E clk req s)"
| "serve_rpc E clk uuid (RpcGetDownloadUrl key) s = map_option (\<lambda>_. s) (GetDownloadUrl E clk key s)"
| "serve_rpc E clk uuid (RpcGetPresence users) s = map_option (\<lambda>_. s) (GetPresence users s)"
| "serve_rpc E clk uuid (RpcGetUserRooms user) s = map_option (\<lambda>_. s) (GetUserRooms E user s)"
| "serve_rpc E clk uuid (RpcCreateGroup req) s = map_option snd (CreateGroup E clk req s)"
| "serve_rpc E clk uuid (RpcAddGroupMember req) s = map_option snd (AddGroupMember_rpc E clk req s)"
| "serve_rpc E clk uuid (RpcRemoveGroupMember conv user operator) s =
     map_option snd (RemoveGroupMember_rpc E conv user operator s)"
| "serve_rpc E clk uuid (RpcLeaveGroup conv user) s = map_option snd (LeaveGroup_rpc E conv user s)"
| "serve_rpc E clk uuid (RpcPromoteAdmin conv user operator) s =
     map_option snd (PromoteAdmin_rpc E conv user operator s)"
| "serve_rpc E clk uuid (RpcTransferOwnership conv old new) s =
     map_option snd (TransferOwnership_rpc E conv old new s)"
| "serve_rpc E clk uuid (RpcDeleteGroup conv user) s = map_option snd (DeleteGroup_rpc E conv user s)"

record ('r, 'p) service =
  sc_srv :: "('r, 'p) ChatServer"
  sc_streams :: "nat \<rightharpoonup> chat_stream"

abbreviation sc_hub :: "('r, 'p) service \<Rightarrow> Hub" where
  "sc_hub V \<equiv> sv_hub (sc_srv V)"

text \<open>The steps of the handlers, of their goroutines and of the stores. \<open>opens\<close>: a stream arrives; its client
  will be allocated at an address of its own. \<open>outside\<close>: the stores change by the hand of others, or time
  passes there.\<close>

inductive handler_step :: "'b surroundings \<Rightarrow> ('r, 'p) service \<Rightarrow> ('r, 'p) service \<Rightarrow> bool"
  for E :: "'b surroundings" where
  opens: "sc_streams V i = None \<Longrightarrow> h_heap (sc_hub V) p = None \<Longrightarrow>
    \<forall>st\<in>ran (sc_streams V). st_client st \<noteq> p \<Longrightarrow>
    handler_step E V (V\<lparr>sc_streams := (sc_streams V)(i \<mapsto> new_stream p ctx)\<rparr>)"
| stream: "sc_streams V i = Some st \<Longrightarrow> chat_act E (st, sc_srv V) (st', s') \<Longrightarrow>
    handler_step E V (V\<lparr>sc_srv := s', sc_streams := (sc_streams V)(i \<mapsto> st')\<rparr>)"
| rpc: "serve_rpc E clk uuid call (sc_srv V) = Some s' \<Longrightarrow> handler_step E V (V\<lparr>sc_srv := s'\<rparr>)"
| goroutine: "sv_tasks (sc_srv V) = ts @ t # us \<Longrightarrow>
    handler_step E V (V\<lparr>sc_srv := run_task E clk uuid t ((sc_srv V)\<lparr>sv_tasks := ts @ us\<rparr>)\<rparr>)"
| heartbeat: "sc_streams V i = Some st \<Longrightarrow> st_heartbeat st \<Longrightarrow> in_service st \<Longrightarrow>
    sv_presence (sc_srv V) = RedisPresenceStore R r \<Longrightarrow>
    handler_step E V (V\<lparr>sc_srv := (sc_srv V)\<lparr>sv_presence := RedisPresenceStore R (heartbeat_tick R (st_user st) r)\<rparr>\<rparr>)"
| outside: "sv_hub s' = sc_hub V \<Longrightarrow> sv_tasks s' = sv_tasks (sc_srv V) \<Longrightarrow> sv_storage s' = sv_storage (sc_srv V) \<Longrightarrow>
    handler_step E V (V\<lparr>sc_srv := s'\<rparr>)"

text \<open>And a payload of the broker, whatever it is, that a room's goroutine forwards.\<close>

inductive service_step :: "'b surroundings \<Rightarrow> ('r, 'p) service \<Rightarrow> ('r, 'p) service \<Rightarrow> bool"
  for E :: "'b surroundings" where
  handler: "handler_step E V W \<Longrightarrow> service_step E V W"
| forward: "forwardFromBroker now raw (sc_hub V) = Some h \<Longrightarrow>
    service_step E V (V\<lparr>sc_srv := (sc_srv V)\<lparr>sv_hub := h\<rparr>\<rparr>)"

inductive service_reachable :: "'b surroundings \<Rightarrow> ('r, 'p) service \<Rightarrow> bool"
  for E :: "'b surroundings" where
  start: "sv_hub s = NewHubWithLimit n \<Longrightarrow> service_reachable E \<lparr>sc_srv = s, sc_streams = Map.empty\<rparr>"
| step: "service_reachable E V \<Longrightarrow> service_step E V W \<Longrightarrow> service_reachable E W"

section \<open>What handlers do to the hub\<close>

text \<open>\<open>moves h h'\<close>: the hub gets from \<open>h\<close> to \<open>h'\<close> by its own steps; \<open>quiet\<close>: and keeps its clients.\<close>

abbreviation settled :: "Hub \<Rightarrow> hub_sys" where
  "settled h \<equiv> \<lparr>hs_hub = h, hs_adds = 0, hs_subs = 0\<rparr>"

definition moves :: "Hub \<Rightarrow> Hub \<Rightarrow> bool" where
  "moves h h' \<longleftrightarrow> hub_step\<^sup>*\<^sup>* (settled h) (settled h')"

definition quiet :: "Hub \<Rightarrow> Hub \<Rightarrow> bool" where
  "quiet h h' \<longleftrightarrow> moves h h' \<and> in_room h' = in_room h \<and> dom (h_heap h') = dom (h_heap h)"

lemma moves_trans: "moves h h' \<Longrightarrow> moves h' h'' \<Longrightarrow> moves h h''"
  by (simp add: moves_def)

lemma moves_step: "hub_step (settled h) (settled h') \<Longrightarrow> moves h h'"
  by (simp add: moves_def)

lemma hub_reachable_moves: "hub_reachable (settled h) \<Longrightarrow> moves h h' \<Longrightarrow> hub_reachable (settled h')"
  unfolding moves_def by (erule rtranclp_induct[rotated]) (auto intro: hub_reachable.step)

lemma quiet_refl [simp]: "quiet h h"
  by (simp add: quiet_def moves_def)

lemma quiet_trans: "quiet h h' \<Longrightarrow> quiet h' h'' \<Longrightarrow> quiet h h''"
  by (auto simp: quiet_def intro: moves_trans)

lemma quiet_None: "quiet h h' \<Longrightarrow> h_heap h' q = None \<longleftrightarrow> h_heap h q = None"
  unfolding quiet_def by (metis domIff)

lemma Broadcast_quiet:
  assumes "hub_inv h" "Broadcast m pub h = Some h'"
  shows "quiet h h'"
proof -
  have "moves h h'" using hub_step.broadcast[of m pub "settled h" h'] assms(2) by (intro moves_step) simp
  moreover have "dom (h_heap h') = dom (h_heap h)"
    using Broadcast_frame(4)[OF assms] by (auto simp: dom_def split: if_splits)
  ultimately show ?thesis using Broadcast_in_room[OF assms] by (simp add: quiet_def)
qed

lemma forward_quiet:
  assumes "hub_inv h" "forwardFromBroker now raw h = Some h'"
  shows "quiet h h'"
  using assms Broadcast_quiet[OF assms(1)] by (auto simp: forwardFromBroker_def split: option.splits)

text \<open>An outcome in which the handler did not panic and the hub moved quietly.\<close>

definition serves :: "('r, 'p) ChatServer \<Rightarrow> ('r, 'p) ChatServer option \<Rightarrow> bool" where
  "serves s out \<longleftrightarrow> (\<exists>s'. out = Some s' \<and> quiet (sv_hub s) (sv_hub s'))"

lemma serves_same: "sv_hub t = sv_hub s \<Longrightarrow> serves s (Some t)"
  by (simp add: serves_def)

lemma serves_broadcast:
  assumes "hub_inv (sv_hub s)" "sv_hub t = sv_hub s"
  shows "serves s (hub_Broadcast m pub t)"
proof -
  have "hub_inv (sv_hub t)" using assms by simp
  then obtain h where "hub_Broadcast m pub t = Some (t\<lparr>sv_hub := h\<rparr>)" "Broadcast m pub (sv_hub t) = Some h"
    by (rule hub_Broadcast_ok[of t m pub])
  then show ?thesis using Broadcast_quiet[of "sv_hub s" m pub h] assms by (simp add: serves_def)
qed

lemma serves_map: "serves s out \<Longrightarrow> (\<And>t. sv_hub (f t) = sv_hub t) \<Longrightarrow> serves s (map_option f out)"
  by (auto simp: serves_def)

lemma serves_pair: "serves s out \<Longrightarrow> (\<And>t. sv_hub (snd (f t)) = sv_hub t) \<Longrightarrow> serves s (map_option snd (map_option f out))"
  using serves_map[of s out "snd \<circ> f"] by (simp add: option.map_comp)

lemmas serves_intros = serves_same serves_broadcast serves_map serves_pair

lemma processIncoming_serves: "hub_inv (sv_hub s) \<Longrightarrow> serves s (processIncoming E clk inp s)"
  unfolding processIncoming_def Let_def incoming_delete_def incoming_edit_def
  by (simp add: serves_intros split: option.split prod.split sum.split bool.split)

text \<open>A handler that reads, and one that leaves the hub alone.\<close>

lemma serves_read: "out \<noteq> None \<Longrightarrow> serves s (map_option (\<lambda>_. s) out)"
  by (auto simp: serves_def)

lemma serves_total: "\<exists>res s'. out = Some (res, s') \<and> sv_hub s' = sv_hub s \<Longrightarrow> serves s (map_option snd out)"
  by (auto simp: serves_def)

lemma reading_rpcs:
  "GetConversation_rpc E conv s \<noteq> None" "SearchMessages_rpc E conv query limit s \<noteq> None"
  "GetUnreadCount_rpc E user conv s \<noteq> None" "GetDownloadUrl E clk key s \<noteq> None" "GetPresence users s \<noteq> None"
  "GetUserRooms E user s \<noteq> None"
proof -
  show "GetUserRooms E user s \<noteq> None" using GetUserRooms_total[of E user s] by auto
  show "GetDownloadUrl E clk key s \<noteq> None"
    by (cases "sv_storage s") (simp_all add: GetDownloadUrl_def split: sum.split prod.split)
qed (simp_all add: GetConversation_rpc_def SearchMessages_rpc_def GetUnreadCount_rpc_def GetPresence_def
    split: option.split sum.split)

lemma repo_call_serves: "serves s (map_option snd (repo_call what f s))"
  by (simp add: repo_call_def serves_same split: option.split prod.split sum.split)

lemma create_dm_total: "\<exists>res s'. create_dm E clk req s = Some (res, s') \<and> sv_hub s' = sv_hub s"
proof (cases "length (crr_MemberIds req) = 2")
  case True
  have pg: "\<exists>x t. dm_pg E clk a b cby s = Some (x, t) \<and> sv_hub t = sv_hub s" for a b cby s
    by (simp add: dm_pg_def split: option.split prod.split sum.split)
  have mg: "\<exists>x t. dm_mongo E clk a b cby i s = Some (x, t) \<and> sv_hub t = sv_hub s" for a b cby i s
    by (simp add: dm_mongo_def split: option.split prod.split sum.split)
  let ?a = "crr_MemberIds req ! 0" and ?b = "crr_MemberIds req ! 1"
  obtain x t where t: "dm_pg E clk ?a ?b (crr_CreatedBy req) s = Some (x, t)" "sv_hub t = sv_hub s" using pg by blast
  show ?thesis
  proof (cases x)
    case (Inr y)
    obtain i n where y: "y = (i, n)" by fastforce
    obtain j v where "dm_mongo E clk ?a ?b (crr_CreatedBy req) i t = Some (j, v)" "sv_hub v = sv_hub t" using mg by blast
    then show ?thesis using True t Inr y by (auto simp: create_dm_def split: prod.split sum.split)
  qed (use True t in \<open>simp add: create_dm_def\<close>)
qed (simp add: create_dm_def)

lemma group_fallback_total: "\<exists>res s'. group_fallback E clk uuid req s = Some (res, s') \<and> sv_hub s' = sv_hub s"
  by (simp add: group_fallback_def split: option.split prod.split sum.split)

lemma create_group_total: "\<exists>res s'. create_group E clk uuid req s = Some (res, s') \<and> sv_hub s' = sv_hub s"
proof -
  have "\<exists>x t. group_mongo E clk req s = Some (x, t) \<and> sv_hub t = sv_hub s"
    by (simp add: group_mongo_def split: option.split prod.split sum.split)
  then obtain x t where "group_mongo E clk req s = Some (x, t)" "sv_hub t = sv_hub s" by blast
  then show ?thesis
    using group_fallback_total[of E clk uuid req t] by (auto simp: create_group_def split: option.split)
qed

lemma CreateRoom_serves: "serves s (map_option snd (CreateRoom E clk uuid req s))"
  by (simp add: CreateRoom_def serves_same serves_total[OF create_dm_total] serves_total[OF create_group_total])

lemma storing_rpcs:
  "serves s (map_option snd (GetMessages E req s))" "serves s (map_option snd (RequestUpload E clk ureq s))"
  "serves s (map_option snd (MarkMessageRead_rpc E clk conv user msgID s))"
proof -
  show "serves s (map_option snd (GetMessages E req s))" by (rule serves_total[OF GetMessages_total])
  show "serves s (map_option snd (RequestUpload E clk ureq s))"
    by (cases "sv_storage s") (simp_all add: RequestUpload_def serves_same Let_def split: sum.split prod.split)
  show "serves s (map_option snd (MarkMessageRead_rpc E clk conv user msgID s))"
    by (simp add: MarkMessageRead_rpc_def serves_same split: option.split)
qed

lemma group_rpcs:
  "serves s (map_option snd (CreateGroup E clk creq s))" "serves s (map_option snd (AddGroupMember_rpc E clk areq s))"
  "serves s (map_option snd (RemoveGroupMember_rpc E conv user operator s))" "serves s (map_option snd (LeaveGroup_rpc E conv user s))"
  "serves s (map_option snd (PromoteAdmin_rpc E conv user operator s))"
  "serves s (map_option snd (TransferOwnership_rpc E conv old new s))" "serves s (map_option snd (DeleteGroup_rpc E conv user s))"
  by (simp_all add: CreateGroup_def AddGroupMember_rpc_def RemoveGroupMember_rpc_def LeaveGroup_rpc_def PromoteAdmin_rpc_def
      TransferOwnership_rpc_def DeleteGroup_rpc_def repo_call_serves serves_same)

lemma broadcasting_rpcs:
  assumes "hub_inv (sv_hub s)"
  shows "serves s (map_option snd (SendMessage clk uuid req s))" "serves s (map_option snd (DeleteMessage E dreq s))"
    "serves s (map_option snd (EditMessage_rpc E clk ereq s))"
  using assms unfolding SendMessage_def DeleteMessage_def EditMessage_rpc_def Let_def
  by (simp_all add: serves_same serves_broadcast serves_pair split: option.split prod.split sum.split)

lemma serve_rpc_serves: "hub_inv (sv_hub s) \<Longrightarrow> serves s (serve_rpc E clk uuid call s)"
  by (cases call) (simp_all add: broadcasting_rpcs serves_read reading_rpcs CreateRoom_serves storing_rpcs group_rpcs)

lemma run_task_hub [simp]: "sv_hub (run_task E clk uuid t s) = sv_hub s"
  by (cases t) (simp_all add: run_persist_def Let_def)

text \<open>Registration, clean-up and a pass of the sender are steps of the hub too.\<close>

lemma Register_moves:
  assumes "h_heap h p = None" "c = NewClient u r"
  shows "moves h (Register ctx p c (alloc p c h))"
proof -
  let ?h = "register_locked ctx p c (alloc p c h)"
  have "hub_step (settled h) \<lparr>hs_hub = ?h, hs_adds = 1, hs_subs = 0\<rparr>"
    using hub_step.connect[of "settled h" p c u r ctx] assms by simp
  moreover have "hub_step \<lparr>hs_hub = ?h, hs_adds = 1, hs_subs = 0\<rparr> (settled (connCnt_Add 1 ?h))"
    using hub_step.count_up[of "\<lparr>hs_hub = ?h, hs_adds = 1, hs_subs = 0\<rparr>" 0] by simp
  ultimately show ?thesis unfolding moves_def Register_def by (meson rtranclp.rtrancl_into_rtrancl rtranclp.rtrancl_refl)
qed

lemma Unregister_moves:
  assumes "p \<in> registered h" "h_heap h p = Some c" "Unregister p c h = Some h'"
  shows "moves h h'"
proof -
  obtain k where k: "unregister_locked p c h = Some k" "h' = connCnt_Add (- 1) k"
    using assms(3) by (auto simp: Unregister_def)
  have "hub_step (settled h) \<lparr>hs_hub = k, hs_adds = 0, hs_subs = 1\<rparr>"
    using hub_step.disconnect[of p "settled h" c k] assms(1,2) k(1) by simp
  moreover have "hub_step \<lparr>hs_hub = k, hs_adds = 0, hs_subs = 1\<rparr> (settled h')"
    using hub_step.count_down[of "\<lparr>hs_hub = k, hs_adds = 0, hs_subs = 1\<rparr>" 0] k(2) by simp
  ultimately show ?thesis unfolding moves_def by (meson rtranclp.rtrancl_into_rtrancl rtranclp.rtrancl_refl)
qed

lemma sender_pass_quiet:
  assumes "sender_pass E now ok st s = Some (st', s')"
  shows "quiet (sv_hub s) (sv_hub s')" "st_client st' = st_client st" "st_room st' = st_room st" "in_service st' = in_service st"
    "st_pc st' = st_pc st"
proof -
  obtain c where c: "h_heap (sv_hub s) (st_client st) = Some c" using assms by (auto simp: sender_pass_def split: option.splits)
  have "quiet (sv_hub s) (alloc (st_client st) (c\<lparr>c_Send := ch\<rparr>) (sv_hub s))" if "range_next (c_Send c) = (Received m, ch)" for m ch
    using hub_step.drain[of "settled (sv_hub s)" "st_client st" c m ch] c that
    by (auto simp: quiet_def moves_def in_room_def fun_eq_iff intro: r_into_rtranclp)
  then show "quiet (sv_hub s) (sv_hub s')" using assms c
    by (auto simp: sender_pass_def Let_def split: prod.splits received.splits)
  show "st_client st' = st_client st" "st_room st' = st_room st" "in_service st' = in_service st" "st_pc st' = st_pc st"
    using assms c by (auto simp: sender_pass_def Let_def in_service_def split: prod.splits received.splits if_splits)
qed

section \<open>The effect of a stream's step\<close>

lemma settled_inv: "hub_reachable (settled h) \<Longrightarrow> hub_inv h"
  using reachable_sys_inv[of "settled h"] by (simp add: sys_inv_def)

lemma Register_heap [simp]: "h_heap (Register ctx p c h) = h_heap h"
  by (simp add: Register_def connCnt_Add_def)

lemma Register_rooms:
  "hub_inv h \<Longrightarrow> in_room (Register ctx p c h) r q \<longleftrightarrow> in_room h r q \<or> (r = c_RoomID c \<and> q = p)"
  using in_room_register[of h ctx p c r q] by (simp add: Register_def connCnt_Add_def in_room_def)

text \<open>What the first frame does, when it is complete.\<close>

lemma Chat_first_joins:
  assumes inv: "hub_inv (sv_hub s)" and fresh: "h_heap (sv_hub s) (st_client st) = None"
    and out: "Chat_first clk frame st s = Some (st', s')" "st_connected st'" "\<not> st_connected st"
  shows "moves (sv_hub s) (sv_hub s')" "\<And>r q. in_room (sv_hub s') r q \<longleftrightarrow> in_room (sv_hub s) r q \<or> (r = st_room st' \<and> q = st_client st)"
    "dom (h_heap (sv_hub s')) = insert (st_client st) (dom (h_heap (sv_hub s)))" "in_service st'" "st_client st' = st_client st"
    "\<exists>f. st_pc st' = FirstFrame f"
proof -
  let ?p = "st_client st"
  obtain f t where st': "st' = st\<lparr>st_pc := FirstFrame f, st_user := cm_UserId f,
      st_room := normalizeRoomID (cm_RoomId f), st_connected := True, st_heartbeat := is_redis (sv_presence s)\<rparr>"
    and b: "hub_Broadcast (presence_event (normalizeRoomID (cm_RoomId f)) (cm_UserId f) True 0) True t = Some s'"
    and t: "sv_hub t = Register (st_ctx st) ?p (NewClient (cm_UserId f) (normalizeRoomID (cm_RoomId f)))
        (alloc ?p (NewClient (cm_UserId f) (normalizeRoomID (cm_RoomId f))) (sv_hub s))"
    using out by (auto simp: Chat_first_def Let_def split: sum.splits if_splits)
  let ?c = "NewClient (cm_UserId f) (normalizeRoomID (cm_RoomId f))"
  have invt: "hub_inv (sv_hub t)" unfolding t by (rule Register_facts(1)[OF inv fresh refl])
  obtain h where h: "Broadcast (presence_event (normalizeRoomID (cm_RoomId f)) (cm_UserId f) True 0) True (sv_hub t) = Some h"
    "s' = t\<lparr>sv_hub := h\<rparr>" using b by (auto simp: hub_Broadcast_def)
  have q: "quiet (sv_hub t) (sv_hub s')" using Broadcast_quiet[OF invt h(1)] h(2) by simp
  show "moves (sv_hub s) (sv_hub s')"
    using moves_trans[OF Register_moves[OF fresh refl]] q t by (metis quiet_def)
  have al: "hub_inv (alloc ?p ?c (sv_hub s))"
    using unregistered_fresh[OF inv fresh] by (intro hub_inv_alloc[OF inv]) (auto simp: registered_def)
  have "in_room (alloc ?p ?c (sv_hub s)) = in_room (sv_hub s)" by (simp add: in_room_def fun_eq_iff)
  then show "in_room (sv_hub s') r k \<longleftrightarrow> in_room (sv_hub s) r k \<or> (r = st_room st' \<and> k = ?p)" for r k
    using q Register_rooms[OF al, of "st_ctx st" ?p ?c r k] unfolding t quiet_def by (simp add: st')
  show "dom (h_heap (sv_hub s')) = insert ?p (dom (h_heap (sv_hub s)))" using q unfolding t quiet_def by simp
  show "in_service st'" "st_client st' = st_client st" "\<exists>f. st_pc st' = FirstFrame f" by (simp_all add: st' in_service_def)
qed

lemma unregister_dom: "h_heap h p = Some c \<Longrightarrow> unregister_locked p c h = Some h' \<Longrightarrow> dom (h_heap h') = dom (h_heap h)"
  by (auto simp: unregister_locked_def Let_def split: option.splits if_splits)

text \<open>What the clean-up does.\<close>

lemma Chat_cleanup_leaves:
  assumes inv: "hub_inv (sv_hub s)" and room: "in_room (sv_hub s) r (st_client st)" and out: "Chat_cleanup clk st s = Some s'"
  shows "moves (sv_hub s) (sv_hub s')" "\<And>r q. in_room (sv_hub s') r q \<longleftrightarrow> in_room (sv_hub s) r q \<and> q \<noteq> st_client st"
    "dom (h_heap (sv_hub s')) = dom (h_heap (sv_hub s))"
proof -
  let ?p = "st_client st" and ?m = "presence_event (st_room st) (st_user st) False (toUnixMilli (clk 1))"
  obtain c where c: "h_heap (sv_hub s) ?p = Some c" "client_ok r c" using hub_inv_room[OF inv room] by blast
  then have rc: "in_room (sv_hub s) (c_RoomID c) ?p" using room by (simp add: client_ok_def)
  obtain k where k: "unregister_locked ?p c (sv_hub s) = Some k" "\<And>r q. in_room k r q \<longleftrightarrow> in_room (sv_hub s) r q \<and> q \<noteq> ?p"
    by (rule unregister_locked_ok[OF inv rc c(1)]) blast
  let ?k = "connCnt_Add (- 1) k"
  have un: "Unregister ?p c (sv_hub s) = Some ?k" using k(1) by (simp add: Unregister_def)
  have invk: "hub_inv ?k" using unregister_locked_inv(1)[OF inv rc c(1) k(1)] by simp
  obtain h where h: "Broadcast ?m True ?k = Some h" "sv_hub s' = h"
    using out c(1) un by (auto simp: Chat_cleanup_def hub_Broadcast_def Let_def)
  have q: "quiet ?k h" by (rule Broadcast_quiet[OF invk h(1)])
  have "?p \<in> registered (sv_hub s)" using room by (auto simp: registered_def)
  then show "moves (sv_hub s) (sv_hub s')" using moves_trans[OF Unregister_moves[OF _ c(1) un]] q h(2) by (metis quiet_def)
  have "in_room ?k = in_room k" by (simp add: connCnt_Add_def in_room_def fun_eq_iff)
  then show "in_room (sv_hub s') r' q' \<longleftrightarrow> in_room (sv_hub s) r' q' \<and> q' \<noteq> ?p" for r' q'
    using q k(2) h(2) by (simp add: quiet_def)
  show "dom (h_heap (sv_hub s')) = dom (h_heap (sv_hub s))"
    using q unregister_dom[OF c(1) k(1)] h(2) by (simp add: quiet_def connCnt_Add_def)
qed

text \<open>A stream's step moves the hub quietly, or registers its client, or unregisters it.\<close>

lemma chat_act_effect:
  assumes act: "chat_act E (st, s) (st', s')" and inv: "chat_inv (st, s)"
  obtains
    (quietly) "quiet (sv_hub s) (sv_hub s')" "in_service st' = in_service st" "st_client st' = st_client st"
      "in_service st \<Longrightarrow> st_room st' = st_room st"
      "st_pc st' \<in> {Entering, AwaitFirst} \<Longrightarrow> st_pc st \<in> {Entering, AwaitFirst}"
  | (joins) "moves (sv_hub s) (sv_hub s')" "\<not> in_service st" "in_service st'" "st_client st' = st_client st"
      "\<And>r q. in_room (sv_hub s') r q \<longleftrightarrow> in_room (sv_hub s) r q \<or> (r = st_room st' \<and> q = st_client st)"
      "h_heap (sv_hub s) (st_client st) = None" "dom (h_heap (sv_hub s')) = insert (st_client st) (dom (h_heap (sv_hub s)))"
      "st_pc st' \<notin> {Entering, AwaitFirst}"
  | (leaves) "moves (sv_hub s) (sv_hub s')" "in_service st" "\<not> in_service st'" "st_client st' = st_client st"
      "\<And>r q. in_room (sv_hub s') r q \<longleftrightarrow> in_room (sv_hub s) r q \<and> q \<noteq> st_client st"
      "dom (h_heap (sv_hub s')) = dom (h_heap (sv_hub s))" "st_pc st' \<notin> {Entering, AwaitFirst}"
proof -
  have hub: "hub_inv (sv_hub s)" using inv by (simp add: chat_inv_def)
  note serves = processIncoming_serves[OF hub, unfolded serves_def]
  from act show ?thesis
  proof (cases rule: chat_act.cases)
    case enter
    then show ?thesis using inv by (intro quietly) (auto simp: Chat_enter_def chat_inv_def in_service_def)
  next
    case (first clk frame)
    have nc: "\<not> st_connected st" using inv first(1) by (simp add: chat_inv_def)
    show ?thesis
    proof (cases "st_connected st'")
      case True
      note j = Chat_first_joins[OF hub first(2,3) True nc]
      show ?thesis using j nc first(2) by (intro joins) (auto simp: in_service_def)
    next
      case False
      then have "sv_hub s' = sv_hub s" "st_client st' = st_client st" "\<exists>res. st_pc st' = Returned res"
        using first(3) by (auto simp: Chat_first_def Let_def split: sum.splits if_splits)
      then show ?thesis using False nc by (intro quietly) (auto simp: in_service_def)
    qed
  next
    case (first_frame inp clk)
    then show ?thesis using serves[of E clk inp] by (intro quietly) (auto simp: in_service_def)
  next
    case (recv clk inp)
    then show ?thesis using serves[of E clk inp] by (intro quietly) auto
  next
    case (recv_err e)
    then show ?thesis by (intro quietly) (auto simp: in_service_def)
  next
    case (sender now ok)
    then show ?thesis using sender_pass_quiet[OF sender(3)] by (intro quietly) auto
  next
    case (finish e clk)
    have serv: "in_service st" using inv finish(2) by (auto simp: chat_inv_def in_service_def)
    then have "in_room (sv_hub s) (st_room st) (st_client st)" using inv by (simp add: chat_inv_def)
    from Chat_cleanup_leaves[OF hub this finish(4)] show ?thesis
      using serv finish(1) by (intro leaves) (auto simp: in_service_def)
  qed
qed

section \<open>The invariant of the pod\<close>

definition served :: "('r, 'p) service \<Rightarrow> chat_stream set" where
  "served V = {st \<in> ran (sc_streams V). in_service st}"

lemma served_iff: "q \<in> st_client ` served V \<longleftrightarrow> (\<exists>i st. sc_streams V i = Some st \<and> in_service st \<and> st_client st = q)"
  by (auto simp: served_def ran_def)

definition service_inv :: "'b surroundings \<Rightarrow> ('r, 'p) service \<Rightarrow> bool" where
  "service_inv E V \<longleftrightarrow> hub_reachable (settled (sc_hub V))
     \<and> (\<forall>p. p \<in> registered (sc_hub V) \<longleftrightarrow> p \<in> st_client ` served V)
     \<and> (\<forall>i j st st'. sc_streams V i = Some st \<longrightarrow> sc_streams V j = Some st' \<longrightarrow> st_client st = st_client st' \<longrightarrow> i = j)
     \<and> (\<forall>i st. sc_streams V i = Some st \<longrightarrow> chat_reachable E (st, sc_srv V))
     \<and> (\<forall>i st. sc_streams V i = Some st \<longrightarrow> st_pc st \<in> {Entering, AwaitFirst} \<longrightarrow> h_heap (sc_hub V) (st_client st) = None)"

lemma service_invI:
  assumes "hub_reachable (settled (sc_hub V))" "\<And>p. p \<in> registered (sc_hub V) \<longleftrightarrow> p \<in> st_client ` served V"
    and "\<And>i j st st'. sc_streams V i = Some st \<Longrightarrow> sc_streams V j = Some st' \<Longrightarrow> st_client st = st_client st' \<Longrightarrow> i = j"
    and "\<And>i st. sc_streams V i = Some st \<Longrightarrow> chat_reachable E (st, sc_srv V)"
    and "\<And>i st. sc_streams V i = Some st \<Longrightarrow> st_pc st \<in> {Entering, AwaitFirst} \<Longrightarrow> h_heap (sc_hub V) (st_client st) = None"
  shows "service_inv E V"
  using assms unfolding service_inv_def by simp

lemma service_invD:
  assumes "service_inv E V"
  shows "hub_reachable (settled (sc_hub V))" "hub_inv (sc_hub V)" "p \<in> registered (sc_hub V) \<longleftrightarrow> p \<in> st_client ` served V"
    "sc_streams V i = Some st \<Longrightarrow> sc_streams V j = Some st' \<Longrightarrow> st_client st = st_client st' \<Longrightarrow> i = j"
    "sc_streams V i = Some st \<Longrightarrow> chat_reachable E (st, sc_srv V)"
    "sc_streams V i = Some st \<Longrightarrow> st_pc st \<in> {Entering, AwaitFirst} \<Longrightarrow> h_heap (sc_hub V) (st_client st) = None"
  using assms settled_inv unfolding service_inv_def by auto

lemma others_follow:
  fixes s s' :: "('r, 'p) ChatServer"
  assumes "chat_reachable E (st, s)" "hub_inv (sv_hub s')" "\<And>r. in_room (sv_hub s) r (st_client st) \<Longrightarrow> in_room (sv_hub s') r (st_client st)"
  shows "chat_reachable E (st, s')"
  by (rule chat_reachable.step[OF assms(1)], rule chat_step.other) (use assms in auto)

text \<open>Steps of the pod that change no stream.\<close>

lemma service_inv_quiet:
  assumes inv: "service_inv E V" and q: "quiet (sc_hub V) (sv_hub s')"
  shows "service_inv E (V\<lparr>sc_srv := s'\<rparr>)"
proof (rule service_invI)
  note d = service_invD[OF inv]
  show re: "hub_reachable (settled (sc_hub (V\<lparr>sc_srv := s'\<rparr>)))"
    using hub_reachable_moves[OF d(1)] q by (simp add: quiet_def)
  show "p \<in> registered (sc_hub (V\<lparr>sc_srv := s'\<rparr>)) \<longleftrightarrow> p \<in> st_client ` served (V\<lparr>sc_srv := s'\<rparr>)" for p
    using d(3)[of p] q by (simp add: quiet_def registered_def served_def)
  show "i = j" if "sc_streams (V\<lparr>sc_srv := s'\<rparr>) i = Some st" "sc_streams (V\<lparr>sc_srv := s'\<rparr>) j = Some st'"
    "st_client st = st_client st'" for i j st st' using d(4)[of i st j st'] that by simp
  show "chat_reachable E (st, sc_srv (V\<lparr>sc_srv := s'\<rparr>))" if "sc_streams (V\<lparr>sc_srv := s'\<rparr>) i = Some st" for i st
    using that q settled_inv[OF re] by (intro others_follow[OF d(5)[of i st]]) (simp_all add: quiet_def)
  show "h_heap (sc_hub (V\<lparr>sc_srv := s'\<rparr>)) (st_client st) = None"
    if "sc_streams (V\<lparr>sc_srv := s'\<rparr>) i = Some st" "st_pc st \<in> {Entering, AwaitFirst}" for i st
    using d(6)[of i st] that quiet_None[OF q] by simp
qed

lemma service_inv_opens:
  assumes inv: "service_inv E V" and new: "sc_streams V i = None" "h_heap (sc_hub V) p = None"
    "\<forall>st\<in>ran (sc_streams V). st_client st \<noteq> p"
  shows "service_inv E (V\<lparr>sc_streams := (sc_streams V)(i \<mapsto> new_stream p ctx)\<rparr>)" (is "service_inv E ?W")
proof (rule service_invI)
  note d = service_invD[OF inv]
  have n: "\<not> in_service (new_stream p ctx)" "st_client (new_stream p ctx) = p" by (simp_all add: new_stream_def in_service_def)
  show "hub_reachable (settled (sc_hub ?W))" using d(1) by simp
  have "served ?W = served V" using new(1) n(1) by (auto simp: served_def)
  then show "q \<in> registered (sc_hub ?W) \<longleftrightarrow> q \<in> st_client ` served ?W" for q using d(3) by simp
  show "j = k" if "sc_streams ?W j = Some st" "sc_streams ?W k = Some st'" "st_client st = st_client st'" for j k st st'
    using that d(4)[of j st k st'] new(3) n(2) by (auto simp: ran_def split: if_splits)
  show "chat_reachable E (st, sc_srv ?W)" if "sc_streams ?W j = Some st" for j st
    using that d(5)[of j st] chat_reachable.start[OF d(2)] by (auto split: if_splits)
  show "h_heap (sc_hub ?W) (st_client st) = None" if "sc_streams ?W j = Some st" "st_pc st \<in> {Entering, AwaitFirst}" for j st
    using that d(6)[of j st] new(2) n(2) by (auto split: if_splits)
qed

text \<open>A step of one stream: the hub moves, the other clients stay where they are, and the client of this
  stream is registered exactly when the stream is in service.\<close>

lemma service_inv_stream:
  assumes inv: "service_inv E V" and i: "sc_streams V i = Some st" and act: "chat_act E (st, sc_srv V) (st', s')"
    and mv: "moves (sc_hub V) (sv_hub s')" and cl: "st_client st' = st_client st"
    and others: "\<And>r q. q \<noteq> st_client st \<Longrightarrow> in_room (sv_hub s') r q = in_room (sc_hub V) r q"
    and own: "st_client st \<in> registered (sv_hub s') \<longleftrightarrow> in_service st'"
    and heap: "\<And>q. q \<noteq> st_client st \<Longrightarrow> h_heap (sc_hub V) q = None \<Longrightarrow> h_heap (sv_hub s') q = None"
      "st_pc st' \<in> {Entering, AwaitFirst} \<Longrightarrow> h_heap (sv_hub s') (st_client st) = None"
  shows "service_inv E (V\<lparr>sc_srv := s', sc_streams := (sc_streams V)(i \<mapsto> st')\<rparr>)" (is "service_inv E ?W")
proof (rule service_invI)
  note d = service_invD[OF inv]
  have apart: "st_client st2 \<noteq> st_client st" if "sc_streams V j = Some st2" "j \<noteq> i" for j st2
    using d(4)[OF that(1) i] that(2) by blast
  show re: "hub_reachable (settled (sc_hub ?W))" using hub_reachable_moves[OF d(1) mv] by simp
  show "q \<in> registered (sc_hub ?W) \<longleftrightarrow> q \<in> st_client ` served ?W" for q
  proof (cases "q = st_client st")
    case True
    have "q \<in> st_client ` served ?W \<longleftrightarrow> in_service st'"
      using True cl apart by (auto simp: served_iff)
    then show ?thesis using own True by simp
  next
    case False
    have "q \<in> st_client ` served ?W \<longleftrightarrow> q \<in> st_client ` served V"
      unfolding served_iff using False cl i by (metis fun_upd_apply option.inject service.select_convs(2) service.surjective
          service.update_convs(2))
    moreover have "q \<in> registered (sv_hub s') \<longleftrightarrow> q \<in> registered (sc_hub V)" using others[OF False] by (simp add: registered_def)
    ultimately show ?thesis using d(3)[of q] by simp
  qed
  show "j = k" if "sc_streams ?W j = Some st1" "sc_streams ?W k = Some st2" "st_client st1 = st_client st2" for j k st1 st2
    using that d(4)[of j st1 k st2] apart cl by (auto split: if_splits)
  show "chat_reachable E (st2, sc_srv ?W)" if "sc_streams ?W j = Some st2" for j st2
  proof (cases "j = i")
    case True
    then show ?thesis using that chat_reachable.step[OF d(5)[OF i] chat_step.act[OF act]] by simp
  next
    case False
    then have j: "sc_streams V j = Some st2" using that by simp
    show ?thesis using others_follow[OF d(5)[OF j]] others[OF apart[OF j False]] settled_inv[OF re] by simp
  qed
  show "h_heap (sc_hub ?W) (st_client st2) = None" if "sc_streams ?W j = Some st2" "st_pc st2 \<in> {Entering, AwaitFirst}" for j st2
    using that d(6)[of j st2] apart[of j st2] heap cl by (auto split: if_splits)
qed

lemma service_inv_handler:
  assumes inv: "service_inv E V" and st: "handler_step E V W"
  shows "service_inv E W \<and> moves (sc_hub V) (sc_hub W)"
  using st
proof (cases rule: handler_step.cases)
  case (opens i p ctx)
  then show ?thesis using service_inv_opens[OF inv] by (simp add: moves_def)
next
  case (stream i st st' s')
  note d = service_invD[OF inv]
  have ci: "chat_inv (st, sc_srv V)" by (rule reachable_chat_inv[OF d(5)[OF stream(2)]])
  have reg: "st_client st \<in> registered (sc_hub V) \<longleftrightarrow> in_service st"
    using d(3)[of "st_client st"] d(4)[OF stream(2)] stream(2) unfolding served_iff by (metis option.inject)
  note go = service_inv_stream[OF inv stream(2,3)]
  from stream(3) ci show ?thesis
  proof (cases rule: chat_act_effect)
    case quietly
    then show ?thesis unfolding stream(1) using reg d(6)[OF stream(2)] quiet_None[OF quietly(1)]
      by (intro conjI go) (simp_all add: quiet_def registered_def)
  next
    case joins
    have "h_heap (sv_hub s') q = None" if "q \<noteq> st_client st" "h_heap (sc_hub V) q = None" for q
      using joins(7) that by (metis domIff insert_iff)
    moreover have "st_client st \<in> registered (sv_hub s')" using joins(5) by (auto simp: registered_def)
    ultimately show ?thesis unfolding stream(1) using joins by (intro conjI go) auto
  next
    case leaves
    have "h_heap (sv_hub s') q = None" if "h_heap (sc_hub V) q = None" for q using leaves(6) that by (metis domIff)
    moreover have "st_client st \<notin> registered (sv_hub s')" using leaves(5) by (auto simp: registered_def)
    ultimately show ?thesis unfolding stream(1) using leaves by (intro conjI go) auto
  qed
next
  case (rpc clk uuid call s')
  then show ?thesis using serve_rpc_serves[OF service_invD(2)[OF inv], of E clk uuid call] service_inv_quiet[OF inv]
    by (auto simp: serves_def quiet_def)
qed (use service_inv_quiet[OF inv] in \<open>simp_all add: moves_def\<close>)

lemma service_inv_step:
  assumes "service_inv E V" "service_step E V W"
  shows "service_inv E W"
  using assms(2)
proof (cases rule: service_step.cases)
  case (forward now raw h)
  then show ?thesis using forward_quiet[OF service_invD(2)[OF assms(1)] forward(2)] service_inv_quiet[OF assms(1)] by simp
qed (use service_inv_handler[OF assms(1)] in blast)

lemma service_reachable_inv: "service_reachable E V \<Longrightarrow> service_inv E V"
proof (induction rule: service_reachable.induct)
  case (start s n)
  have "registered (NewHubWithLimit n) = {}" by (simp add: registered_def in_room_def NewHubWithLimit_def shard_table.lookup_empty)
  then show ?case using start hub_reachable.start[of n] by (intro service_invI) (simp_all add: served_def)
next
  case (step V W)
  then show ?case using service_inv_step by blast
qed

section \<open>Consequences\<close>

lemma Chat_first_total:
  assumes "hub_inv (sv_hub s)" "h_heap (sv_hub s) (st_client st) = None"
  shows "Chat_first clk frame st s \<noteq> None"
proof -
  have "hub_Broadcast m pub t \<noteq> None" if "sv_hub t = Register ctx (st_client st) (NewClient u r) (alloc (st_client st) (NewClient u r) (sv_hub s))"
    for m pub ctx u r and t :: "('a, 'b) ChatServer"
    by (rule hub_Broadcast_ok[of t m pub]) (use Register_facts(1)[OF assms refl] that in auto)
  then show ?thesis by (simp add: Chat_first_def Let_def split: sum.split)
qed

text \<open>The addresses of the clients tell the streams apart, so the registered clients and the streams in
  service correspond one to one.\<close>

lemma served_client:
  assumes "service_inv E V" "st \<in> served V"
  shows "in_room (sc_hub V) (st_room st) (st_client st)"
    "\<exists>c. h_heap (sc_hub V) (st_client st) = Some c \<and> client_ok (st_room st) c"
proof -
  obtain i where "sc_streams V i = Some st" "in_service st" using assms(2) by (auto simp: served_def ran_def)
  then show room: "in_room (sc_hub V) (st_room st) (st_client st)"
    using reachable_chat_inv[OF service_invD(5)[OF assms(1)]] by (simp add: chat_inv_def)
  show "\<exists>c. h_heap (sc_hub V) (st_client st) = Some c \<and> client_ok (st_room st) c"
    by (rule hub_inv_room[OF service_invD(2)[OF assms(1)] room])
qed

lemma served_rooms:
  assumes inv: "service_inv E V"
  shows "in_room (sc_hub V) room p \<longleftrightarrow> (\<exists>st\<in>served V. st_client st = p \<and> st_room st = room)"
proof
  assume r: "in_room (sc_hub V) room p"
  then have "p \<in> registered (sc_hub V)" by (auto simp: registered_def)
  then obtain st where st: "st \<in> served V" "st_client st = p" using service_invD(3)[OF inv, of p] by (auto simp: image_iff)
  then have "st_room st = room" using served_client(1)[OF inv st(1)] in_room_unique[OF service_invD(2)[OF inv]] r by blast
  then show "\<exists>st\<in>served V. st_client st = p \<and> st_room st = room" using st by blast
qed (use served_client(1)[OF inv] in blast)

lemma served_counted:
  assumes inv: "service_inv E V"
  shows "ConnCount (sc_hub V) = int (card (served V))"
proof -
  have "inj_on st_client (served V)"
  proof (rule inj_onI)
    fix st st' assume st: "st \<in> served V" "st' \<in> served V" "st_client st = st_client st'"
    then obtain i j where ij: "sc_streams V i = Some st" "sc_streams V j = Some st'" by (auto simp: served_def ran_def)
    then have "i = j" using service_invD(4)[OF inv] st(3) by blast
    then show "st = st'" using ij by simp
  qed
  moreover have "registered (sc_hub V) = st_client ` served V" using service_invD(3)[OF inv] by (intro set_eqI)
  ultimately have "card (registered (sc_hub V)) = card (served V)" by (simp add: card_image)
  then show ?thesis using reachable_sys_inv[OF service_invD(1)[OF inv]] by (simp add: sys_inv_def ConnCount_def)
qed

text \<open>A run in which a stream connects and is served.\<close>

definition demo_serving :: chat_stream where
  "demo_serving = demo_stream\<lparr>st_pc := Serving, st_user := ''u'', st_room := normalizeRoomID ''r'', st_connected := True\<rparr>"

definition demo_start :: "(room_json keyspace, string keyspace) service" where
  "demo_start = \<lparr>sc_srv = demo_pod, sc_streams = Map.empty\<rparr>"

lemma demo_start_reachable: "service_reachable E demo_start"
  unfolding demo_start_def by (rule service_reachable.start[of _ 0]) (simp add: demo_pod_def)

lemma service_reachable_run:
  assumes "(handler_step E)\<^sup>*\<^sup>* V W" "service_reachable E V"
  shows "service_reachable E W"
  using assms by (induction rule: rtranclp_induct) (auto intro: service_reachable.step service_step.handler)

lemma demo_run:
  obtains V where "(handler_step E)\<^sup>*\<^sup>* demo_start V" "sc_streams V 0 = Some demo_serving" "demo_serving \<in> served V"
proof -
  let ?V = "\<lambda>s st. \<lparr>sc_srv = s :: (room_json keyspace, string keyspace) ChatServer, sc_streams = Map.empty(0 \<mapsto> st)\<rparr>"
  let ?F = "demo_stream\<lparr>st_pc := FirstFrame demo_frame, st_user := ''u'', st_room := normalizeRoomID ''r'', st_connected := True\<rparr>"
  have act: "(handler_step E)\<^sup>*\<^sup>* demo_start (?V s st) \<Longrightarrow> chat_act E (st, s) (st', s') \<Longrightarrow>
      (handler_step E)\<^sup>*\<^sup>* demo_start (?V s' st')" for s st s' st'
    using rtranclp.rtrancl_into_rtrancl[of "handler_step E" demo_start "?V s st" "?V s' st'"]
      handler_step.stream[of "?V s st" 0 st E st' s'] by simp
  have "handler_step E demo_start (?V demo_pod (new_stream 7 1))"
    using handler_step.opens[of demo_start 0 7 E 1] by (simp add: demo_start_def demo_pod_def NewHubWithLimit_def)
  then have "(handler_step E)\<^sup>*\<^sup>* demo_start (?V demo_pod (Chat_enter demo_pod (new_stream 7 1)))"
    by (rule act[OF r_into_rtranclp]) (rule chat_act.enter, simp add: new_stream_def)
  moreover have "Chat_enter demo_pod (new_stream 7 1) = demo_stream"
    by (simp add: Chat_enter_def AtCapacity_def demo_pod_def NewHubWithLimit_def demo_stream_def)
  ultimately have r1: "(handler_step E)\<^sup>*\<^sup>* demo_start (?V demo_pod demo_stream)" by simp
  obtain s1 where s1: "Chat_first (\<lambda>_. 0) (Inr demo_frame) demo_stream demo_pod = Some (?F, s1)"
    using demo_connected[of E] by blast
  have r2: "(handler_step E)\<^sup>*\<^sup>* demo_start (?V s1 ?F)"
    by (rule act[OF r1], rule chat_act.first[OF _ _ s1]) (simp_all add: demo_stream_def demo_pod_def NewHubWithLimit_def)
  note inv = service_reachable_inv[OF service_reachable_run[OF r2 demo_start_reachable]]
  obtain s2 where "processIncoming E (\<lambda>_. 0) demo_frame s1 = Some s2"
    using processIncoming_serves[of s1 E "\<lambda>_. 0" demo_frame] service_invD(2)[OF inv] by (auto simp: serves_def)
  then have "(handler_step E)\<^sup>*\<^sup>* demo_start (?V s2 (?F\<lparr>st_pc := Serving\<rparr>))"
    by (intro act[OF r2] chat_act.first_frame[of _ demo_frame]) simp_all
  then show ?thesis by (intro that[of "?V s2 (?F\<lparr>st_pc := Serving\<rparr>)"]) (simp_all add: demo_serving_def served_def in_service_def)
qed

lemma demo_service:
  obtains V :: "(room_json keyspace, string keyspace) service"
  where "service_reachable E V" "sc_streams V 0 = Some demo_serving" "demo_serving \<in> served V"
proof -
  obtain V where V: "(handler_step E)\<^sup>*\<^sup>* demo_start V" "sc_streams V 0 = Some demo_serving" "demo_serving \<in> served V"
    by (rule demo_run)
  show ?thesis by (rule that[OF service_reachable_run[OF V(1) demo_start_reachable] V(2,3)])
qed

section \<open>Properties\<close>

text \<open>C2. However the streams, the RPCs, the goroutines and the deliveries of a pod interleave, the clients
  registered in the hub are exactly those of the streams in service, each in the room of its first
  frame; the counter that the admission of a stream reads is their number; what the hub does is a run
  of the hub's own steps; and every stream sees a run of its own handler.\<close>

theorem service_streams_exact:
  assumes "service_reachable E V"
  shows "hub_reachable (settled (sc_hub V))
    \<and> (\<forall>room p. in_room (sc_hub V) room p \<longleftrightarrow> (\<exists>st\<in>served V. st_client st = p \<and> st_room st = room))
    \<and> ConnCount (sc_hub V) = int (card (served V))
    \<and> (\<forall>st\<in>ran (sc_streams V). chat_reachable E (st, sc_srv V))"
proof -
  note inv = service_reachable_inv[OF assms]
  show ?thesis
    using served_rooms[OF inv] served_counted[OF inv] service_invD(1,5)[OF inv] by (auto simp: ran_def)
qed

theorem service_streams_exact_witness:
  "\<exists>V :: (room_json keyspace, string keyspace) service. service_reachable demo_env V \<and> served V \<noteq> {}
     \<and> ConnCount (sc_hub V) = int (card (served V))"
proof -
  obtain V :: "(room_json keyspace, string keyspace) service" where V: "service_reachable demo_env V" "demo_serving \<in> served V"
    by (rule demo_service)
  from V service_streams_exact[OF V(1)] show ?thesis by blast
qed

text \<open>C3. No handler of the pod panics, whatever happened before, whichever stores are configured and
  whatever they answer: not the first frame of a stream that is admitted, not a later frame of any event
  type, not an RPC with any request, not a payload of the broker, not the clean-up of a stream in service
  (which closes its channel, once), and not the sender goroutine on a message that waits. The panics are
  those of the handlers' own code: following a nil store (message store, Postgres, object storage), an
  index or slice bound out of range (the two members of a direct room, the page of history and its first
  message, the prefix of a room id), and sending on or closing a closed channel. The string helpers
  and the repositories behind the handlers are total functions, and the bodies of started goroutines are
  not part of the statement.\<close>

theorem service_never_panics:
  assumes "service_reachable E V"
  shows "forwardFromBroker now raw (sc_hub V) \<noteq> None \<and> serve_rpc E clk uuid call (sc_srv V) \<noteq> None
    \<and> processIncoming E clk inp (sc_srv V) \<noteq> None
    \<and> (\<forall>st\<in>ran (sc_streams V). st_pc st = AwaitFirst \<longrightarrow> Chat_first clk frame st (sc_srv V) \<noteq> None)
    \<and> (\<forall>st\<in>served V. Chat_cleanup clk st (sc_srv V) \<noteq> None
         \<and> (\<exists>c. h_heap (sc_hub V) (st_client st) = Some c \<and> \<not> ch_closed (c_Send c)
              \<and> (ch_buf (c_Send c) \<noteq> [] \<longrightarrow> sender_pass E t ok st (sc_srv V) \<noteq> None)))"
proof -
  note inv = service_reachable_inv[OF assms]
  note hub = service_invD(2)[OF inv]
  have "Chat_cleanup clk st (sc_srv V) \<noteq> None" if "st \<in> served V" for st
    by (rule Chat_cleanup_facts[OF hub served_client(1)[OF inv that], of clk]) simp
  moreover have "\<exists>c. h_heap (sc_hub V) (st_client st) = Some c \<and> \<not> ch_closed (c_Send c)
      \<and> (ch_buf (c_Send c) \<noteq> [] \<longrightarrow> sender_pass E t ok st (sc_srv V) \<noteq> None)" if "st \<in> served V" for st
    using served_client(2)[OF inv that] by (auto simp: client_ok_def sender_pass_def range_next_def Let_def split: list.splits)
  moreover have "Chat_first clk frame st (sc_srv V) \<noteq> None" if "st \<in> ran (sc_streams V)" "st_pc st = AwaitFirst" for st
  proof -
    have "h_heap (sc_hub V) (st_client st) = None" using service_invD(6)[OF inv] that by (auto simp: ran_def)
    from Chat_first_total[OF hub this] show ?thesis .
  qed
  moreover have "forwardFromBroker now raw (sc_hub V) \<noteq> None" by (rule forwardFromBroker_total[OF hub, of now raw]) simp
  moreover have "serve_rpc E clk uuid call (sc_srv V) \<noteq> None" using serve_rpc_serves[OF hub] by (fastforce simp: serves_def)
  moreover have "processIncoming E clk inp (sc_srv V) \<noteq> None" using processIncoming_serves[OF hub] by (fastforce simp: serves_def)
  ultimately show ?thesis by blast
qed

theorem service_never_panics_witness:
  "\<exists>V :: (room_json keyspace, string keyspace) service. service_reachable demo_env V \<and> demo_serving \<in> served V
     \<and> Chat_cleanup (\<lambda>_. 0) demo_serving (sc_srv V) \<noteq> None
     \<and> serve_rpc demo_env (\<lambda>_. 0) [] (RpcCreateRoom \<lparr>crr_CreatedBy = ''u'', crr_Name = [], crr_Type = ROOM_TYPE_DM,
         crr_MemberIds = [''u'']\<rparr>) (sc_srv V) \<noteq> None"
proof -
  obtain V :: "(room_json keyspace, string keyspace) service" where V: "service_reachable demo_env V" "demo_serving \<in> served V"
    by (rule demo_service)
  from V service_never_panics[OF V(1)] show ?thesis by blast
qed

text \<open>C1. A chat message that a stream of the pod receives can always be handled, and then exactly the streams
  in service in the canonical room of the frame have it at the end of their channel, those whose
  channel is full excepted; the others' channels are as before. One copy goes to the broker, and the
  message is handed to a persisting goroutine exactly when a store is configured.\<close>

theorem service_delivers:
  assumes "service_reachable E V" "sc_streams V i = Some sender" "st_pc sender = Serving" "chat_frame inp"
    and sm: "sm = (toServerMsg (clk 0) inp)\<lparr>sm_Status := MESSAGE_STATUS_SENT\<rparr>"
  shows "\<exists>W. handler_step E V W \<and> sc_streams W = sc_streams V \<and> processIncoming E clk inp (sc_srv V) = Some (sc_srv W)
    \<and> (\<forall>st\<in>served V. \<exists>c c'. h_heap (sc_hub V) (st_client st) = Some c \<and> h_heap (sc_hub W) (st_client st) = Some c'
         \<and> ch_buf (c_Send c') = ch_buf (c_Send c) @
             (if st_room st = normalizeRoomID (cm_RoomId inp) \<and> length (ch_buf (c_Send c)) < ch_cap (c_Send c) then [sm] else []))
    \<and> new_calls (sc_hub V) (sc_hub W) = [CallPublish (normalizeRoomID (cm_RoomId inp)) (json_Marshal sm)]
    \<and> sv_tasks (sc_srv W) = sv_tasks (sc_srv V) @
        (if sv_msgRepo (sc_srv V) = None \<and> sv_pgRooms (sc_srv V) = None then [] else [PersistMessage sm])"
proof -
  note inv = service_reachable_inv[OF assms(1)]
  note hub = service_invD(2)[OF inv]
  let ?room = "normalizeRoomID (cm_RoomId inp)"
  obtain s' where s': "processIncoming E clk inp (sc_srv V) = Some s'"
    "\<forall>p. h_heap (sv_hub s') p = (if in_room (sc_hub V) ?room p then map_option (offer sm) (h_heap (sc_hub V) p) else h_heap (sc_hub V) p)"
    "h_calls (sv_hub s') = h_calls (sc_hub V) @ [CallPublish ?room (json_Marshal sm)]"
    "sv_tasks s' = sv_tasks (sc_srv V) @ (if sv_msgRepo (sc_srv V) = None \<and> sv_pgRooms (sc_srv V) = None then [] else [PersistMessage sm])"
    using chat_message_delivery[where clk = clk and E = E, OF hub assms(4) sm] by blast
  let ?W = "V\<lparr>sc_srv := s', sc_streams := (sc_streams V)(i \<mapsto> sender)\<rparr>"
  have same: "(sc_streams V)(i \<mapsto> sender) = sc_streams V" using assms(2) by auto
  have st: "handler_step E V ?W" using handler_step.stream[OF assms(2) chat_act.recv[OF assms(3) s'(1)]] .
  have bufs: "\<exists>c c'. h_heap (sc_hub V) (st_client st) = Some c \<and> h_heap (sv_hub s') (st_client st) = Some c'
      \<and> ch_buf (c_Send c') = ch_buf (c_Send c) @
          (if st_room st = ?room \<and> length (ch_buf (c_Send c)) < ch_cap (c_Send c) then [sm] else [])"
    if st: "st \<in> served V" for st
  proof -
    obtain c where c: "h_heap (sc_hub V) (st_client st) = Some c" using served_client(2)[OF inv st] by blast
    have "in_room (sc_hub V) ?room (st_client st) \<longleftrightarrow> st_room st = ?room"
      using served_client(1)[OF inv st] in_room_unique[OF hub] by auto
    then show ?thesis using c s'(2)[rule_format, of "st_client st"] by (auto simp: offer_def)
  qed
  have "new_calls (sc_hub V) (sv_hub s') = [CallPublish ?room (json_Marshal sm)]" using s'(3) by (simp add: new_calls_def)
  then show ?thesis using st same s'(1,4) bufs by (intro exI[of _ ?W]) simp
qed

theorem service_delivers_witness:
  "\<exists>V W :: (room_json keyspace, string keyspace) service. service_reachable demo_env V \<and> handler_step demo_env V W
     \<and> demo_serving \<in> served V \<and> length (new_calls (sc_hub V) (sc_hub W)) = 1
     \<and> (\<exists>c. h_heap (sc_hub W) (st_client demo_serving) = Some c)"
proof -
  obtain V :: "(room_json keyspace, string keyspace) service"
    where V: "service_reachable demo_env V" "sc_streams V 0 = Some demo_serving" "demo_serving \<in> served V"
    by (rule demo_service)
  have "st_pc demo_serving = Serving" by (simp add: demo_serving_def)
  from service_delivers[where clk = "\<lambda>_. 0", OF V(1,2) this demo_frame_chat refl] obtain W
    where W: "handler_step demo_env V W" "\<exists>c. h_heap (sc_hub W) (st_client demo_serving) = Some c"
      "length (new_calls (sc_hub V) (sc_hub W)) = 1" using V(3) by fastforce
  show ?thesis using V(1,3) W by blast
qed

end
