(* ===== verification/Redis_Pod.thy ===== *)
theory Redis_Pod
  imports Hub_Broker
begin

text \<open>
  The hub of \<open>app/chat/hub.go\<close> together with the Redis broker of \<open>app/broker/redis_broker.go\<close>: one pod,
  and several pods behind one Redis server.

  A subscription is the channel it fills, the context it was made under, whether its pump goroutine
  runs and whether its \<open>PubSub\<close> is open. A step of the pod is a step of the hub with the calls it
  makes, the end of a stream's context, a pass of a pump (a payload received, or an error, after
  which the pump ends) or a payload that a room's goroutine forwards. What \<open>ReceiveMessage\<close> returns is
  the environment's choice: it can fail at any time.
\<close>

section \<open>Definitions\<close>

record redis_sub =
  rs_ctx :: nat
  rs_room :: string
  rs_chan :: "payload chan"
  rs_pump :: bool
  rs_open :: bool
  rs_cancel :: redis_cancel

record redis_broker =
  rb_client :: redis_options
  rb_subs :: "nat \<rightharpoonup> redis_sub"
  rb_next :: nat
  rb_sent :: "(string \<times> payload) list" \<comment> \<open>what PUBLISH has accepted\<close>

text \<open>\<open>pub\<close> is the outcome of PUBLISH, whose error the hub discards. The cancel function of a
  subscription without a client closes the channel.\<close>

fun redis_do :: "(string \<Rightarrow> payload \<Rightarrow> unit go_result) \<Rightarrow> broker_call \<Rightarrow> redis_broker \<Rightarrow> redis_broker option" where
  "redis_do pub (CallSubscribe ctx room sub) b =
     (case Redis_Subscribe (Some (rb_client b)) room of (ch, pump, cancel) \<Rightarrow>
        Some (b\<lparr>rb_subs := (rb_subs b)(rb_next b \<mapsto>
                  \<lparr>rs_ctx = ctx, rs_room = room, rs_chan = ch, rs_pump = pump, rs_open = True, rs_cancel = cancel\<rparr>),
                rb_next := Suc (rb_next b)\<rparr>))"
| "redis_do pub (CallCancel sub) b =
     (case rb_subs b sub of
        None \<Rightarrow> None
      | Some s \<Rightarrow>
          (case rs_cancel s of
             ClosePubSub _ \<Rightarrow> Some (b\<lparr>rb_subs := (rb_subs b)(sub \<mapsto> s\<lparr>rs_open := False\<rparr>)\<rparr>)
           | CloseChannel \<Rightarrow> map_option (\<lambda>ch. b\<lparr>rb_subs := (rb_subs b)(sub \<mapsto> s\<lparr>rs_chan := ch\<rparr>)\<rparr>) (close_chan (rs_chan s))))"
| "redis_do pub (CallPublish room data) b =
     Some (case Redis_Publish pub (Some (rb_client b)) room data of
             Inl _ \<Rightarrow> b | Inr _ \<Rightarrow> b\<lparr>rb_sent := rb_sent b @ [(channel_name room, data)]\<rparr>)"

text \<open>The open subscriptions of a room: those whose \<open>PubSub\<close> has not been closed, whether or not
  their pump still runs.\<close>

definition redis_subs :: "redis_broker \<Rightarrow> string \<Rightarrow> nat list" where
  "redis_subs b room =
     filter (\<lambda>n. case rb_subs b n of None \<Rightarrow> False | Some s \<Rightarrow> rs_open s \<and> rs_room s = room) [0..<rb_next b]"

record redis_pod =
  rp_sys :: hub_sys
  rp_broker :: redis_broker
  rp_done :: "nat set" \<comment> \<open>contexts that have ended\<close>

abbreviation rp_hub :: "redis_pod \<Rightarrow> Hub" where
  "rp_hub P \<equiv> hs_hub (rp_sys P)"

definition set_sub :: "nat \<Rightarrow> redis_sub \<Rightarrow> redis_pod \<Rightarrow> redis_pod" where
  "set_sub n s P = P\<lparr>rp_broker := (rp_broker P)\<lparr>rb_subs := (rb_subs (rp_broker P))(n \<mapsto> s)\<rparr>\<rparr>"

definition new_redis_pod :: "int \<Rightarrow> redis_options \<Rightarrow> redis_pod" where
  "new_redis_pod n client = \<lparr>rp_sys = \<lparr>hs_hub = NewHubWithLimit n, hs_adds = 0, hs_subs = 0\<rparr>,
     rp_broker = \<lparr>rb_client = client, rb_subs = Map.empty, rb_next = 0, rb_sent = []\<rparr>, rp_done = {}\<rparr>"

inductive redis_step :: "(string \<Rightarrow> payload \<Rightarrow> unit go_result) \<Rightarrow> redis_pod \<Rightarrow> redis_pod \<Rightarrow> bool"
  for pub :: "string \<Rightarrow> payload \<Rightarrow> unit go_result" where
  hub: "hub_step (rp_sys P) t \<Longrightarrow>
    run_calls (redis_do pub) (new_calls (rp_hub P) (hs_hub t)) (rp_broker P) = Some b \<Longrightarrow>
    redis_step pub P (P\<lparr>rp_sys := t, rp_broker := b\<rparr>)"
| ends: "redis_step pub P (P\<lparr>rp_done := insert ctx (rp_done P)\<rparr>)"
| receives: "rb_subs (rp_broker P) n = Some s \<Longrightarrow> rs_pump s \<Longrightarrow> rs_open s \<Longrightarrow> rs_ctx s \<notin> rp_done P \<Longrightarrow>
    Redis_pump (Inr msg) (rs_chan s) = PumpNext ch \<Longrightarrow> redis_step pub P (set_sub n (s\<lparr>rs_chan := ch\<rparr>) P)"
| fails: "rb_subs (rp_broker P) n = Some s \<Longrightarrow> rs_pump s \<Longrightarrow>
    Redis_pump (Inl e) (rs_chan s) = PumpExit (Some ch) \<Longrightarrow>
    redis_step pub P (set_sub n (s\<lparr>rs_chan := ch, rs_pump := False\<rparr>) P)"
| forwards: "rb_subs (rp_broker P) n = Some s \<Longrightarrow> range_next (rs_chan s) = (Received raw, ch) \<Longrightarrow>
    forwardFromBroker now raw (rp_hub P) = Some h \<Longrightarrow>
    redis_step pub P (set_sub n (s\<lparr>rs_chan := ch\<rparr>) (P\<lparr>rp_sys := (rp_sys P)\<lparr>hs_hub := h\<rparr>\<rparr>))"

inductive redis_reachable :: "(string \<Rightarrow> payload \<Rightarrow> unit go_result) \<Rightarrow> redis_pod \<Rightarrow> bool"
  for pub :: "string \<Rightarrow> payload \<Rightarrow> unit go_result" where
  start: "redis_reachable pub (new_redis_pod n client)"
| step: "redis_reachable pub P \<Longrightarrow> redis_step pub P Q \<Longrightarrow> redis_reachable pub Q"

text \<open>Invariant: channel addresses are below the next one, a channel is closed exactly when its pump
  has ended, and the cancel function is the one that closes the subscription.\<close>

definition sub_ok :: "redis_sub \<Rightarrow> bool" where
  "sub_ok s \<longleftrightarrow> (ch_closed (rs_chan s) \<longleftrightarrow> \<not> rs_pump s) \<and> chan_ok (rs_chan s) \<and> ch_cap (rs_chan s) = 128
     \<and> rs_cancel s = ClosePubSub (channel_name (rs_room s))"

definition redis_ok :: "redis_broker \<Rightarrow> bool" where
  "redis_ok b \<longleftrightarrow> (\<forall>n s. rb_subs b n = Some s \<longrightarrow> n < rb_next b \<and> sub_ok s)"

definition redis_inv :: "redis_pod \<Rightarrow> bool" where
  "redis_inv P \<longleftrightarrow> sys_inv (rp_sys P) \<and> redis_ok (rp_broker P)
     \<and> h_nextsub (rp_hub P) = rb_next (rp_broker P)
     \<and> subs_match (h_shards (rp_hub P)) (redis_subs (rp_broker P))"

section \<open>Lemmas\<close>

lemma redis_subs_iff:
  "n \<in> set (redis_subs b room) \<longleftrightarrow> n < rb_next b \<and> (\<exists>s. rb_subs b n = Some s \<and> rs_open s \<and> rs_room s = room)"
  by (auto simp: redis_subs_def split: option.splits)

lemma redis_subs_cong:
  assumes "rb_next b' = rb_next b"
    and "\<And>n. n < rb_next b \<Longrightarrow> map_option (\<lambda>s. (rs_open s, rs_room s)) (rb_subs b' n)
      = map_option (\<lambda>s. (rs_open s, rs_room s)) (rb_subs b n)"
  shows "redis_subs b' = redis_subs b"
proof -
  have "(case rb_subs b' n of None \<Rightarrow> False | Some s \<Rightarrow> rs_open s \<and> rs_room s = room) =
      (case rb_subs b n of None \<Rightarrow> False | Some s \<Rightarrow> rs_open s \<and> rs_room s = room)" if "n < rb_next b" for n room
    using assms(2)[OF that] by (cases "rb_subs b' n"; cases "rb_subs b n") auto
  then show ?thesis unfolding redis_subs_def fun_eq_iff assms(1) by (auto intro!: filter_cong)
qed

lemma redis_do_subscribe:
  assumes "redis_ok b"
  shows "\<exists>b'. redis_do pub (CallSubscribe ctx room (rb_next b)) b = Some b' \<and> redis_ok b' \<and> rb_next b' = Suc (rb_next b)
    \<and> redis_subs b' = (redis_subs b)(room := redis_subs b room @ [rb_next b])"
proof -
  let ?s = "\<lparr>rs_ctx = ctx, rs_room = room, rs_chan = Redis_Subscribe_chan, rs_pump = True, rs_open = True,
    rs_cancel = ClosePubSub (channel_name room)\<rparr>"
  let ?b = "b\<lparr>rb_subs := (rb_subs b)(rb_next b \<mapsto> ?s), rb_next := Suc (rb_next b)\<rparr>"
  have "sub_ok ?s" by (simp add: sub_ok_def Redis_Subscribe_chan_def chan_ok_def)
  then have "redis_ok ?b" using assms by (auto simp: redis_ok_def less_Suc_eq)
  moreover have "redis_subs ?b = (redis_subs b)(room := redis_subs b room @ [rb_next b])"
    by (auto simp: redis_subs_def fun_eq_iff intro!: filter_cong)
  moreover have "redis_do pub (CallSubscribe ctx room (rb_next b)) b = Some ?b" by (simp add: Redis_Subscribe_def)
  ultimately show ?thesis by auto
qed

lemma redis_do_cancel:
  assumes ok: "redis_ok b" and sub: "sub \<in> set (redis_subs b room)"
  shows "\<exists>b'. redis_do pub (CallCancel sub) b = Some b' \<and> redis_ok b' \<and> rb_next b' = rb_next b
    \<and> redis_subs b' = (redis_subs b)(room := remove1 sub (redis_subs b room))"
proof -
  obtain s where s: "rb_subs b sub = Some s" "rs_room s = room" using sub by (auto simp: redis_subs_iff)
  let ?b = "b\<lparr>rb_subs := (rb_subs b)(sub \<mapsto> s\<lparr>rs_open := False\<rparr>)\<rparr>"
  have cancel: "rs_cancel s = ClosePubSub (channel_name (rs_room s))" using ok s by (auto simp: redis_ok_def sub_ok_def)
  have "redis_ok ?b" using ok s by (auto simp: redis_ok_def sub_ok_def)
  moreover have "redis_subs ?b r = ((redis_subs b)(room := remove1 sub (redis_subs b room))) r" for r
  proof -
    have "remove1 sub (redis_subs b r) = filter (\<lambda>n. n \<noteq> sub) (redis_subs b r)"
      by (simp add: redis_subs_def distinct_remove1_removeAll removeAll_filter_not_eq) (metis)
    moreover have "redis_subs ?b r = filter (\<lambda>n. n \<noteq> sub) (redis_subs b r)"
      by (auto simp: redis_subs_def intro!: filter_cong)
    moreover have "sub \<notin> set (redis_subs b r)" if "r \<noteq> room" using s that by (auto simp: redis_subs_iff)
    ultimately show ?thesis by (auto simp: remove1_idem)
  qed
  ultimately show ?thesis using s(1) cancel by (auto simp: fun_eq_iff)
qed

interpretation redis: hub_broker "redis_do pub" redis_subs rb_next redis_ok
proof
  fix b :: redis_broker and ctx room sub data
  assume ok: "redis_ok b"
  show "\<exists>b'. redis_do pub (CallSubscribe ctx room (rb_next b)) b = Some b' \<and> redis_ok b' \<and> rb_next b' = Suc (rb_next b)
      \<and> redis_subs b' = (redis_subs b)(room := redis_subs b room @ [rb_next b])" by (rule redis_do_subscribe[OF ok])
  show "\<exists>b'. redis_do pub (CallPublish room data) b = Some b' \<and> redis_ok b' \<and> rb_next b' = rb_next b
      \<and> redis_subs b' = redis_subs b"
    using ok by (cases "Redis_Publish pub (Some (rb_client b)) room data")
      (auto simp: redis_ok_def intro!: redis_subs_cong)
  show "sub \<in> set (redis_subs b room) \<Longrightarrow> \<exists>b'. redis_do pub (CallCancel sub) b = Some b' \<and> redis_ok b'
      \<and> rb_next b' = rb_next b \<and> redis_subs b' = (redis_subs b)(room := remove1 sub (redis_subs b room))"
    by (rule redis_do_cancel[OF ok])
qed

text \<open>Changing one subscription without opening or moving it.\<close>

lemma redis_inv_set_sub:
  assumes inv: "redis_inv P" and s: "rb_subs (rp_broker P) n = Some s"
    and s': "rs_open s' = rs_open s" "rs_room s' = rs_room s" "sub_ok s'"
  shows "redis_inv (set_sub n s' P)"
proof -
  let ?b = "(rp_broker P)\<lparr>rb_subs := (rb_subs (rp_broker P))(n \<mapsto> s')\<rparr>"
  have "redis_subs ?b = redis_subs (rp_broker P)" by (rule redis_subs_cong) (use s s' in auto)
  moreover have "redis_ok ?b" using inv s s' by (auto simp: redis_inv_def redis_ok_def)
  ultimately show ?thesis using inv by (simp add: redis_inv_def set_sub_def)
qed

lemma pump_results:
  "Redis_pump (Inr msg) ch = PumpNext ch' \<Longrightarrow> chan_ok ch \<Longrightarrow>
     chan_ok ch' \<and> ch_cap ch' = ch_cap ch \<and> ch_closed ch' = ch_closed ch"
  "Redis_pump (Inl e) ch = PumpExit (Some ch') \<Longrightarrow> ch' = ch\<lparr>ch_closed := True\<rparr> \<and> \<not> ch_closed ch"
  by (auto simp: Redis_pump_def close_chan_def chan_ok_def split: option.splits if_splits)

lemma range_next_Received:
  "range_next ch = (Received v, ch') \<longleftrightarrow> ch_buf ch = v # ch_buf ch' \<and> ch' = ch\<lparr>ch_buf := ch_buf ch'\<rparr>"
  by (cases "ch_buf ch") (auto simp: range_next_def split: if_splits)

lemma redis_inv_step:
  assumes "redis_step pub P Q" "redis_inv P"
  shows "redis_inv Q"
  using assms(1)
proof (cases rule: redis_step.cases)
  case (hub t b)
  have "hub_inv (rp_hub P)" "redis.in_step (rp_hub P) (rp_broker P)"
    using assms(2) by (simp_all add: redis_inv_def sys_inv_def redis.in_step_def)
  from redis.in_step_follows[OF this hub(2), of pub] hub(3) have "redis.in_step (hs_hub t) b" by simp
  then show ?thesis using sys_inv_step[OF hub(2)] assms(2) hub(1) by (simp add: redis_inv_def redis.in_step_def)
next
  case (ends ctx)
  then show ?thesis using assms(2) by (simp add: redis_inv_def)
next
  case (receives n s msg ch)
  have ok: "sub_ok s" using assms(2) receives(2) by (auto simp: redis_inv_def redis_ok_def)
  have "sub_ok (s\<lparr>rs_chan := ch\<rparr>)" using ok pump_results(1)[OF receives(6)] by (auto simp: sub_ok_def)
  then show ?thesis unfolding receives(1) by (intro redis_inv_set_sub[OF assms(2) receives(2)]) simp_all
next
  case (fails n s e ch)
  have ok: "sub_ok s" using assms(2) fails(2) by (auto simp: redis_inv_def redis_ok_def)
  have "sub_ok (s\<lparr>rs_chan := ch, rs_pump := False\<rparr>)"
    using ok pump_results(2)[OF fails(4)] by (auto simp: sub_ok_def chan_ok_def)
  then show ?thesis unfolding fails(1) by (intro redis_inv_set_sub[OF assms(2) fails(2)]) simp_all
next
  case (forwards n s raw ch now h)
  let ?P = "P\<lparr>rp_sys := (rp_sys P)\<lparr>hs_hub := h\<rparr>\<rparr>"
  have hub: "hub_inv (rp_hub P)" and ok: "sub_ok s"
    using assms(2) forwards(2) by (auto simp: redis_inv_def sys_inv_def redis_ok_def)
  have "h_nextsub h = h_nextsub (rp_hub P)" "h_shards h = h_shards (rp_hub P)"
    using forwards(4) by (auto simp: forwardFromBroker_def Broadcast_spec[OF hub] split: option.splits)
  then have inv: "redis_inv ?P"
    using forwardFromBroker_inv[OF hub forwards(4)] assms(2) by (simp add: redis_inv_def sys_inv_def)
  have "chan_ok ch" "ch_cap ch = ch_cap (rs_chan s)" "ch_closed ch = ch_closed (rs_chan s)"
    using forwards(3) ok by (cases "ch_buf (rs_chan s)"; auto simp: range_next_def sub_ok_def chan_ok_def split: if_splits)+
  then have "sub_ok (s\<lparr>rs_chan := ch\<rparr>)" using ok by (simp add: sub_ok_def)
  then show ?thesis unfolding forwards(1) using forwards(2) by (intro redis_inv_set_sub[OF inv]) simp_all
qed

lemma redis_reachable_inv: "redis_reachable pub P \<Longrightarrow> redis_inv P"
proof (induction rule: redis_reachable.induct)
  case (start n client)
  have "sys_inv (rp_sys (new_redis_pod n client))"
    using reachable_sys_inv[OF hub_reachable.start[of n]] by (simp add: new_redis_pod_def)
  then show ?case
    by (simp add: redis_inv_def new_redis_pod_def redis_ok_def NewHubWithLimit_def subs_match_def redis_subs_def
        shard_table.lookup_empty)
qed (rule redis_inv_step)

section \<open>Pump and forwarder as a pipeline\<close>

text \<open>The outcomes of the calls of \<open>ReceiveMessage\<close> that are still to come, the channel and the hub. The pump
  moves a payload into the channel when there is room, passes over an empty message, and after an
  error returns, which closes the channel, and receives nothing more; the goroutine of the room takes a
  payload out and broadcasts it.\<close>

type_synonym pipe = "payload option go_result list \<times> payload chan \<times> Hub"

inductive pipe_step :: "int \<Rightarrow> pipe \<Rightarrow> pipe \<Rightarrow> bool" for now :: int where
  pumps: "Redis_pump (Inr msg) ch = PumpNext ch' \<Longrightarrow> pipe_step now (Inr msg # rs, ch, h) (rs, ch', h)"
| fails: "Redis_pump (Inl e) ch = PumpExit (Some ch') \<Longrightarrow> pipe_step now (Inl e # rs, ch, h) ([], ch', h)"
| takes: "range_next ch = (Received raw, ch') \<Longrightarrow> forwardFromBroker now raw h = Some h' \<Longrightarrow>
    pipe_step now (rs, ch, h) (rs, ch', h')"

inductive_cases pipe_stepE: "pipe_step now (rs, ch, h) y"

text \<open>What is received before the first error, and whether there is one.\<close>

fun received :: "payload option go_result list \<Rightarrow> payload list" where
  "received [] = []"
| "received (Inl e # rs) = []"
| "received (Inr None # rs) = received rs"
| "received (Inr (Some d) # rs) = d # received rs"

definition pump_fails :: "payload option go_result list \<Rightarrow> bool" where
  "pump_fails rs \<longleftrightarrow> (\<exists>e. Inl e \<in> set rs)"

lemma received_ok [simp]: "received (map (\<lambda>d. Inr (Some d)) ds) = ds" "\<not> pump_fails (map (\<lambda>d. Inr (Some d)) ds)"
  by (induction ds) (auto simp: pump_fails_def)

definition pipe_size :: "pipe \<Rightarrow> nat" where
  "pipe_size x = (case x of (rs, ch, h) \<Rightarrow> 2 * length rs + length (ch_buf ch))"

definition pipe_done :: "int \<Rightarrow> pipe \<Rightarrow> bool" where
  "pipe_done now x \<longleftrightarrow> (\<forall>y. \<not> pipe_step now x y)"

text \<open>What all interleavings have in common: the channel once everything has been received, and the
  forwarder run on it.\<close>

definition pipe_chan :: "pipe \<Rightarrow> payload chan" where
  "pipe_chan x = (case x of (rs, ch, h) \<Rightarrow>
     ch\<lparr>ch_buf := ch_buf ch @ received rs, ch_closed := ch_closed ch \<or> pump_fails rs\<rparr>)"

definition pipe_result :: "int \<Rightarrow> pipe \<Rightarrow> (loop_end \<times> Hub) option" where
  "pipe_result now x = forward_run now (pipe_chan x) (snd (snd x))"

text \<open>A pipe whose channel is open while the pump may still receive.\<close>

definition pipe_ok :: "pipe \<Rightarrow> bool" where
  "pipe_ok x = (case x of (rs, ch, h) \<Rightarrow> hub_inv h \<and> 0 < ch_cap ch \<and> (ch_closed ch \<longrightarrow> rs = []))"

lemma pipe_step_keeps:
  assumes "pipe_step now x y" "pipe_ok x"
  shows "pipe_result now y = pipe_result now x" "pipe_size y < pipe_size x" "pipe_ok y"
    "ch_closed (pipe_chan y) = ch_closed (pipe_chan x)"
proof -
  have "pipe_result now y = pipe_result now x \<and> pipe_size y < pipe_size x \<and> pipe_ok y
    \<and> ch_closed (pipe_chan y) = ch_closed (pipe_chan x)"
    using assms
  proof (induction rule: pipe_step.induct)
    case (pumps msg ch ch' rs h)
    have ch': "ch' = ch\<lparr>ch_buf := ch_buf ch @ (case msg of None \<Rightarrow> [] | Some d \<Rightarrow> [d])\<rparr>"
      using pumps(1) by (auto simp: Redis_pump_def split: option.splits if_splits)
    then have "pipe_chan (rs, ch', h) = pipe_chan (Inr msg # rs, ch, h)"
      by (cases msg) (auto simp: pipe_chan_def pump_fails_def)
    then show ?case using pumps(2) ch' by (auto simp: pipe_result_def pipe_size_def pipe_ok_def split: option.split)
  next
    case (fails e ch ch' rs h)
    have ch': "ch' = ch\<lparr>ch_closed := True\<rparr>"
      using fails(1) by (auto simp: Redis_pump_def close_chan_def split: if_splits)
    have "pump_fails (Inl e # rs)" by (auto simp: pump_fails_def)
    then have "pipe_chan ([], ch', h) = pipe_chan (Inl e # rs, ch, h)"
      using ch' by (simp add: pipe_chan_def pump_fails_def[of "[]"])
    then show ?case using fails(2) ch' by (auto simp: pipe_result_def pipe_size_def pipe_ok_def)
  next
    case (takes ch raw ch' h h' rs)
    have c: "ch_buf ch = raw # ch_buf ch'" "ch' = ch\<lparr>ch_buf := ch_buf ch'\<rparr>" using takes(1) by (simp_all add: range_next_Received)
    have cl: "ch_closed ch' = ch_closed ch" "ch_cap ch' = ch_cap ch" by (subst c(2), simp)+
    have "pipe_chan (rs, ch', h') = (pipe_chan (rs, ch, h))\<lparr>ch_buf := ch_buf ch' @ received rs\<rparr>"
      using cl by (subst c(2)) (simp add: pipe_chan_def)
    moreover have "ch_buf (pipe_chan (rs, ch, h)) = raw # ch_buf ch' @ received rs" using c(1) by (simp add: pipe_chan_def)
    ultimately show ?case
      using forward_run_Cons[of "pipe_chan (rs, ch, h)" raw "ch_buf ch' @ received rs" now h] takes(2,3) c(1) cl
        forwardFromBroker_inv[OF _ takes(2)]
      by (simp add: pipe_result_def pipe_size_def pipe_ok_def)
  qed
  then show "pipe_result now y = pipe_result now x" "pipe_size y < pipe_size x" "pipe_ok y"
    "ch_closed (pipe_chan y) = ch_closed (pipe_chan x)" by blast+
qed

text \<open>A pipe that is not empty can move: a full channel is not empty.\<close>

lemma pipe_progress:
  assumes "pipe_ok (rs, ch, h)" "rs \<noteq> [] \<or> ch_buf ch \<noteq> []"
  shows "\<exists>y. pipe_step now (rs, ch, h) y"
proof (cases "ch_buf ch")
  case Nil
  then obtain r es where rs: "rs = r # es" using assms(2) by (cases rs) auto
  then have ch: "0 < ch_cap ch" "\<not> ch_closed ch" using assms(1) by (auto simp: pipe_ok_def)
  show ?thesis
  proof (cases r)
    case (Inl e)
    have "Redis_pump (Inl e) ch = PumpExit (Some (ch\<lparr>ch_closed := True\<rparr>))" using ch by (simp add: Redis_pump_def close_chan_def)
    then show ?thesis unfolding rs Inl using pipe_step.fails by blast
  next
    case (Inr msg)
    have "\<exists>ch'. Redis_pump (Inr msg) ch = PumpNext ch'" using Nil ch by (simp add: Redis_pump_def split: option.split)
    then show ?thesis unfolding rs Inr using pipe_step.pumps by blast
  qed
next
  case (Cons raw raws)
  have "hub_inv h" using assms(1) by (simp add: pipe_ok_def)
  then obtain h' where "forwardFromBroker now raw h = Some h'" by (rule forwardFromBroker_total)
  moreover have "range_next ch = (Received raw, ch\<lparr>ch_buf := raws\<rparr>)" using Cons by (simp add: range_next_def)
  ultimately show ?thesis using pipe_step.takes by blast
qed

lemma pipe_run:
  assumes "(pipe_step now)\<^sup>*\<^sup>* x y" "pipe_ok x"
  shows "pipe_ok y \<and> pipe_result now y = pipe_result now x \<and> ch_closed (pipe_chan y) = ch_closed (pipe_chan x)"
  using assms by (induction rule: rtranclp_induct) (auto simp: pipe_step_keeps)

lemma pipe_run_length: "(pipe_step now ^^ n) x y \<Longrightarrow> pipe_ok x \<Longrightarrow> n + pipe_size y \<le> pipe_size x"
proof (induction n arbitrary: y)
  case (Suc n)
  then obtain z where z: "(pipe_step now ^^ n) x z" "pipe_step now z y" by auto
  have "pipe_ok z" using pipe_run[OF relpowp_imp_rtranclp[OF z(1)] Suc.prems(2)] by blast
  then show ?case using Suc.IH[OF z(1) Suc.prems(2)] pipe_step_keeps(2)[OF z(2)] by simp
qed simp

lemma pipe_ends: "pipe_ok x \<Longrightarrow> \<exists>y. (pipe_step now)\<^sup>*\<^sup>* x y \<and> pipe_done now y"
proof (induction "pipe_size x" arbitrary: x rule: less_induct)
  case less
  show ?case
  proof (cases "pipe_done now x")
    case False
    then obtain z where z: "pipe_step now x z" by (auto simp: pipe_done_def)
    from less(1)[OF pipe_step_keeps(2,3)[OF z less(2)]] show ?thesis using z by (blast intro: converse_rtranclp_into_rtranclp)
  qed blast
qed

lemma pipe_complete:
  assumes "(pipe_step now)\<^sup>*\<^sup>* x (rs', ch', h')" "pipe_done now (rs', ch', h')" "pipe_ok x"
  shows "rs' = []" "ch_buf ch' = []" "ch_closed ch' = ch_closed (pipe_chan x)"
    "pipe_result now x = Some (if ch_closed (pipe_chan x) then LoopEnds else LoopWaits, h')"
proof -
  note run = pipe_run[OF assms(1,3)]
  show e: "rs' = []" "ch_buf ch' = []"
    using assms(2) pipe_progress[of rs' ch' h' now] run unfolding pipe_done_def by blast+
  have "pipe_chan (rs', ch', h') = ch'" using e by (simp add: pipe_chan_def pump_fails_def)
  then show "ch_closed ch' = ch_closed (pipe_chan x)"
    "pipe_result now x = Some (if ch_closed (pipe_chan x) then LoopEnds else LoopWaits, h')"
    using run e(2) by (auto simp: pipe_result_def forward_run_Nil)
qed

lemma pipe_delivers:
  assumes run: "(pipe_step now)\<^sup>*\<^sup>* (rs, ch, h) (rs', ch', h')" "pipe_done now (rs', ch', h')"
    and h: "hub_inv h" "0 < ch_cap ch" "ch_buf ch = []" "\<not> ch_closed ch"
    and ms: "received rs = map json_Marshal ms" "\<forall>m\<in>set ms. ServerMessage_ok m \<and> sm_RoomId m = room"
  shows "h_heap h' p = (if in_room h room p then map_option (fold offer (map (stamp now) ms)) (h_heap h p) else h_heap h p)"
proof -
  have ok: "pipe_ok (rs, ch, h)" using h by (simp add: pipe_ok_def)
  have "\<exists>e. forward_run now (pipe_chan (rs, ch, h)) h = Some (e, h')"
    using pipe_complete(4)[OF run ok] by (simp add: pipe_result_def)
  moreover have "ch_buf (pipe_chan (rs, ch, h)) = map json_Marshal ms" using h(3) ms(1) by (simp add: pipe_chan_def)
  ultimately show ?thesis using forward_run_messages[OF h(1), of "pipe_chan (rs, ch, h)" ms room now] ms(2) by auto
qed

section \<open>A subscription that has ended\<close>

text \<open>The record of an open subscription changes in no step of the hub that keeps its room.\<close>

lemma hub_keeps_sub:
  assumes inv: "redis_inv P" and st: "hub_step (rp_sys P) t"
    and run: "run_calls (redis_do pub) (new_calls (rp_hub P) (hs_hub t)) (rp_broker P) = Some b"
    and n: "redis_subs (rp_broker P) room = [n]" and stays: "shard_lookup (h_shards (hs_hub t)) room \<noteq> None"
  shows "rb_subs b n = rb_subs (rp_broker P) n \<and> map_option r_sub (shard_lookup (h_shards (hs_hub t)) room) = Some n"
proof -
  have hub: "hub_inv (rp_hub P)" and match: "\<And>room. redis_subs (rp_broker P) room =
      (case shard_lookup (h_shards (rp_hub P)) room of None \<Rightarrow> [] | Some r \<Rightarrow> [r_sub r])"
    using inv by (auto simp: redis_inv_def sys_inv_def subs_match_def)
  have here: "map_option r_sub (shard_lookup (h_shards (rp_hub P)) room) = Some n"
    using match[of room] n by (auto split: option.splits)
  have "n < rb_next (rp_broker P)" using n redis_subs_iff[of n "rp_broker P" room] by simp
  from hub st show ?thesis
  proof (cases rule: hub_step_calls)
    case none
    then show ?thesis using run here by (simp add: new_calls_def)
  next
    case (opens ctx room' r)
    then show ?thesis using run here \<open>n < rb_next (rp_broker P)\<close> by (auto simp: new_calls_def Redis_Subscribe_def)
  next
    case (closes room' r)
    have other: "room' \<noteq> room" using closes(4) stays by auto
    have "r_sub r \<noteq> n"
    proof
      assume "r_sub r = n"
      then have "n \<in> set (redis_subs (rp_broker P) room')" "n \<in> set (redis_subs (rp_broker P) room)"
        using match[of room'] closes(1) n by simp_all
      then show False using other by (auto simp: redis_subs_iff)
    qed
    then show ?thesis
      using run here closes other by (auto simp: new_calls_def split: option.splits redis_cancel.splits)
  next
    case (publishes room' data)
    then show ?thesis using run here by (auto simp: new_calls_def split: sum.splits)
  qed
qed

definition ended_sub :: "string \<Rightarrow> nat \<Rightarrow> payload list \<Rightarrow> redis_pod \<Rightarrow> bool" where
  "ended_sub room n buf P \<longleftrightarrow> redis_subs (rp_broker P) room = [n]
     \<and> (\<exists>s. rb_subs (rp_broker P) n = Some s \<and> \<not> rs_pump s \<and> (\<exists>taken. taken @ ch_buf (rs_chan s) = buf))"

lemma ended_set_sub:
  assumes P: "ended_sub room n buf P" and s: "rb_subs (rp_broker P) k = Some s"
    and s': "rs_open s' = rs_open s" "rs_room s' = rs_room s" "\<not> rs_pump s \<Longrightarrow> \<not> rs_pump s'"
      "\<not> rs_pump s \<Longrightarrow> \<exists>t. t @ ch_buf (rs_chan s') = ch_buf (rs_chan s)"
  shows "ended_sub room n buf (set_sub k s' P)"
proof -
  let ?b = "(rp_broker P)\<lparr>rb_subs := (rb_subs (rp_broker P))(k \<mapsto> s')\<rparr>"
  have subs: "redis_subs ?b = redis_subs (rp_broker P)" by (rule redis_subs_cong) (use s s' in auto)
  obtain x taken where x: "rb_subs (rp_broker P) n = Some x" "\<not> rs_pump x" "taken @ ch_buf (rs_chan x) = buf"
    using P by (auto simp: ended_sub_def)
  have "\<exists>y. rb_subs ?b n = Some y \<and> \<not> rs_pump y \<and> (\<exists>t. t @ ch_buf (rs_chan y) = buf)"
  proof (cases "k = n")
    case True
    then have "x = s" using s x(1) by simp
    then obtain t where "t @ ch_buf (rs_chan s') = ch_buf (rs_chan x)" using s'(4) x(2) by blast
    then have "(taken @ t) @ ch_buf (rs_chan s') = buf" using x(3) by simp
    then show ?thesis using True s'(3) x(2) \<open>x = s\<close> by auto
  qed (use x in auto)
  then show ?thesis using P subs by (simp add: ended_sub_def set_sub_def)
qed

lemma ended_step:
  assumes inv: "redis_inv P" and P: "ended_sub room n buf P" and st: "redis_step pub P Q"
    and stays: "in_room (rp_hub Q) room p"
  shows "ended_sub room n buf Q"
  using st
proof (cases rule: redis_step.cases)
  case (hub t b)
  have n: "redis_subs (rp_broker P) room = [n]" using P by (simp add: ended_sub_def)
  have "shard_lookup (h_shards (hs_hub t)) room \<noteq> None" using stays hub(1) by (auto simp: in_room_def)
  note keep = hub_keeps_sub[OF inv hub(2,3) n this]
  have "redis_inv Q" by (rule redis_inv_step[OF st inv])
  then have "redis_subs b room = [n]" using keep hub(1) by (auto simp: redis_inv_def subs_match_def split: option.splits)
  then show ?thesis using P keep hub(1) by (simp add: ended_sub_def)
next
  case (ends ctx)
  then show ?thesis using P by (simp add: ended_sub_def)
next
  case (receives k s msg ch)
  then show ?thesis using ended_set_sub[OF P receives(2), of "s\<lparr>rs_chan := ch\<rparr>"] by simp
next
  case (fails k s e ch)
  then show ?thesis using ended_set_sub[OF P fails(2), of "s\<lparr>rs_chan := ch, rs_pump := False\<rparr>"] by simp
next
  case (forwards k s raw ch now h)
  let ?P = "P\<lparr>rp_sys := (rp_sys P)\<lparr>hs_hub := h\<rparr>\<rparr>"
  have e: "ended_sub room n buf ?P" "rb_subs (rp_broker ?P) k = Some s" using P forwards(2) by (simp_all add: ended_sub_def)
  have "[raw] @ ch_buf ch = ch_buf (rs_chan s)" using forwards(3) by (simp add: range_next_Received)
  then have "\<exists>t. t @ ch_buf ch = ch_buf (rs_chan s)" by blast
  then show ?thesis using ended_set_sub[OF e, of "s\<lparr>rs_chan := ch\<rparr>"] forwards(1) by simp
qed

section \<open>Properties\<close>

text \<open>The hub and the Redis broker stay in step: in every reachable state of a pod exactly the rooms
  with a client have an open subscription, one each, on the room's channel; whatever the hub does
  next, its calls on the broker succeed; and a pump that fails closes a channel that is still open,
  so that nothing is closed twice.\<close>

lemma redis_subscriptions_exact:
  assumes "redis_reachable pub P"
  shows "(\<forall>room. redis_subs (rp_broker P) room \<noteq> [] \<longleftrightarrow> (\<exists>p. in_room (rp_hub P) room p))
    \<and> (\<forall>room p. in_room (rp_hub P) room p \<longrightarrow> (\<exists>n s. redis_subs (rp_broker P) room = [n]
         \<and> rb_subs (rp_broker P) n = Some s \<and> rs_cancel s = ClosePubSub (channel_name room)))
    \<and> (\<forall>t. hub_step (rp_sys P) t \<longrightarrow>
         run_calls (redis_do pub) (new_calls (rp_hub P) (hs_hub t)) (rp_broker P) \<noteq> None)
    \<and> (\<forall>n s e. rb_subs (rp_broker P) n = Some s \<longrightarrow> rs_pump s \<longrightarrow> Redis_pump (Inl e) (rs_chan s) \<noteq> PumpExit None)"
proof -
  have inv: "redis_inv P" by (rule redis_reachable_inv[OF assms])
  have hub: "hub_inv (rp_hub P)" and step: "redis.in_step (rp_hub P) (rp_broker P)" and ok: "redis_ok (rp_broker P)"
    using inv by (simp_all add: redis_inv_def sys_inv_def redis.in_step_def)
  have subs: "redis_subs (rp_broker P) room = (case shard_lookup (h_shards (rp_hub P)) room of None \<Rightarrow> [] | Some r \<Rightarrow> [r_sub r])"
    for room using inv by (simp add: redis_inv_def subs_match_def)
  have "r_clients r \<noteq> []" if "shard_lookup (h_shards (rp_hub P)) room = Some r" for room r
    using hub that unfolding hub_inv_def by blast
  then have 1: "redis_subs (rp_broker P) room \<noteq> [] \<longleftrightarrow> (\<exists>p. in_room (rp_hub P) room p)" for room
    using subs[of room] by (auto simp: in_room_def neq_Nil_conv split: option.splits) (metis list.set_intros(1))
  have 2: "\<exists>n s. redis_subs (rp_broker P) room = [n] \<and> rb_subs (rp_broker P) n = Some s
      \<and> rs_cancel s = ClosePubSub (channel_name room)" if p: "in_room (rp_hub P) room p" for room p
  proof -
    obtain n where n: "redis_subs (rp_broker P) room = [n]" using p subs[of room] by (auto simp: in_room_def)
    then have "n \<in> set (redis_subs (rp_broker P) room)" by simp
    then obtain s where "rb_subs (rp_broker P) n = Some s" "rs_room s = room" by (auto simp: redis_subs_iff)
    then show ?thesis using n ok by (auto simp: redis_ok_def sub_ok_def)
  qed
  have 3: "run_calls (redis_do pub) (new_calls (rp_hub P) (hs_hub t)) (rp_broker P) \<noteq> None" if "hub_step (rp_sys P) t" for t
    using redis.in_step_follows[OF hub step that, of pub] by auto
  have 4: "Redis_pump (Inl e) (rs_chan s) \<noteq> PumpExit None" if "rb_subs (rp_broker P) n = Some s" "rs_pump s" for n s e
    using that ok by (auto simp: Redis_pump_def close_chan_def redis_ok_def sub_ok_def)
  show ?thesis using 1 2 3 4 by blast
qed

definition demo_client :: redis_options where
  "demo_client = \<lparr>ro_Addr = ''redis:6379'', ro_Password = []\<rparr>"

definition demo_sub :: redis_sub where
  "demo_sub = \<lparr>rs_ctx = 0, rs_room = ''r'', rs_chan = make_chan 128, rs_pump = True, rs_open = True,
     rs_cancel = ClosePubSub ''room:r''\<rparr>"

definition demo_redis :: redis_pod where
  "demo_redis = \<lparr>rp_sys = \<lparr>hs_hub = demo_hub, hs_adds = 1, hs_subs = 0\<rparr>,
     rp_broker = \<lparr>rb_client = demo_client, rb_subs = [0 \<mapsto> demo_sub], rb_next = 1, rb_sent = []\<rparr>, rp_done = {}\<rparr>"

lemma demo_redis_reachable: "redis_reachable pub demo_redis"
proof -
  let ?c = "NewClient ''u'' ''r''" and ?P = "new_redis_pod 0 demo_client"
  have heap: "h_heap (rp_hub ?P) 0 = None" by (simp add: new_redis_pod_def NewHubWithLimit_def)
  have st: "hub_step (rp_sys ?P) (rp_sys demo_redis)"
    using hub_step.connect[where ctx = 0 and u = "''u''" and r = "''r''", OF heap refl]
    by (simp add: demo_redis_def demo_hub_def new_redis_pod_def)
  have "new_calls (rp_hub ?P) demo_hub = [CallSubscribe 0 ''r'' 0]"
    by (simp add: new_calls_def demo_hub_def register_locked_def new_redis_pod_def NewHubWithLimit_def
        shard_table.lookup_empty Let_def alloc_def)
  then have run: "run_calls (redis_do pub) (new_calls (rp_hub ?P) (rp_hub demo_redis)) (rp_broker ?P) = Some (rp_broker demo_redis)"
    by (simp add: demo_redis_def new_redis_pod_def Redis_Subscribe_def Redis_Subscribe_chan_def demo_sub_def channel_name_def)
  have "redis_step pub ?P demo_redis"
    using redis_step.hub[OF st run] by (simp add: demo_redis_def new_redis_pod_def)
  then show ?thesis by (rule redis_reachable.step[OF redis_reachable.start])
qed

lemma demo_redis_simps [simp]:
  "rp_hub demo_redis = demo_hub" "rb_subs (rp_broker demo_redis) 0 = Some demo_sub"
  "redis_subs (rp_broker demo_redis) ''r'' = [0]"
  by (simp_all add: demo_redis_def redis_subs_def demo_sub_def)

text \<open>C25. Between the receives of a Redis subscription and the hub's broadcasts nothing is lost, reordered or
  stuck, up to the first failed receive: however the pump and the room's goroutine interleave, a run has
  at most two steps for each receive and one for each payload already in the channel; it can only stop when
  every payload received before the first error has been forwarded to \<open>Broadcast\<close> (which drops it for a
  client whose buffer is full), and the hub is then the one that forwarding them one after the other gives.
  If a receive fails, the channel is closed and the goroutine's loop ends; otherwise it waits for more. A
  full channel makes the pump wait, where the Kafka consumer would drop.\<close>

theorem redis_pipeline_lossless:
  assumes "hub_inv h" "0 < ch_cap ch" "\<not> ch_closed ch"
  shows "(\<forall>n y. (pipe_step now ^^ n) (rs, ch, h) y \<longrightarrow> n \<le> 2 * length rs + length (ch_buf ch))
    \<and> (\<exists>y. (pipe_step now)\<^sup>*\<^sup>* (rs, ch, h) y \<and> pipe_done now y)
    \<and> (\<forall>rs' ch' h'. (pipe_step now)\<^sup>*\<^sup>* (rs, ch, h) (rs', ch', h') \<longrightarrow> pipe_done now (rs', ch', h') \<longrightarrow>
         rs' = [] \<and> ch_buf ch' = [] \<and> ch_closed ch' = (\<exists>e. Inl e \<in> set rs)
         \<and> forward_run now (ch\<lparr>ch_buf := ch_buf ch @ received rs, ch_closed := (\<exists>e. Inl e \<in> set rs)\<rparr>) h
             = Some (if \<exists>e. Inl e \<in> set rs then LoopEnds else LoopWaits, h'))"
proof (intro conjI allI impI)
  have ok: "pipe_ok (rs, ch, h)" using assms by (simp add: pipe_ok_def)
  { fix n y assume "(pipe_step now ^^ n) (rs, ch, h) y"
    from pipe_run_length[OF this ok] show "n \<le> 2 * length rs + length (ch_buf ch)" by (simp add: pipe_size_def) }
  show "\<exists>y. (pipe_step now)\<^sup>*\<^sup>* (rs, ch, h) y \<and> pipe_done now y" by (rule pipe_ends[OF ok])
  fix rs' ch' h' assume run: "(pipe_step now)\<^sup>*\<^sup>* (rs, ch, h) (rs', ch', h')" "pipe_done now (rs', ch', h')"
  note c = pipe_complete[OF run ok] and chan = pipe_chan_def pump_fails_def
  show "rs' = []" "ch_buf ch' = []" by (rule c(1), rule c(2))
  show "ch_closed ch' = (\<exists>e. Inl e \<in> set rs)" using c(3) assms(3) by (simp add: chan)
  show "forward_run now (ch\<lparr>ch_buf := ch_buf ch @ received rs, ch_closed := (\<exists>e. Inl e \<in> set rs)\<rparr>) h
      = Some (if \<exists>e. Inl e \<in> set rs then LoopEnds else LoopWaits, h')"
    using c(4) assms(3) by (simp add: pipe_result_def chan)
qed

theorem redis_pipeline_lossless_witness:
  "\<exists>ch' h'. (pipe_step 7)\<^sup>*\<^sup>* ([Inr (Some NotJson), Inr None, Inr (Some (json_Marshal demo_message)), Inl ''closed'', Inr None],
      make_chan 1, demo_hub) ([], ch', h') \<and> ch_buf ch' = [] \<and> ch_closed ch'
     \<and> forward_run 7 ((make_chan 1)\<lparr>ch_buf := [NotJson, json_Marshal demo_message], ch_closed := True\<rparr>) demo_hub = Some (LoopEnds, h')"
proof -
  let ?rs = "[Inr (Some NotJson), Inr None, Inr (Some (json_Marshal demo_message)), Inl ''closed'', Inr None] :: payload option go_result list"
  note thm1 = redis_pipeline_lossless[OF demo_hub_facts(1), of "make_chan 1" 7 ?rs]
  obtain rs' ch' h' where run: "(pipe_step 7)\<^sup>*\<^sup>* (?rs, make_chan 1, demo_hub) (rs', ch', h')" "pipe_done 7 (rs', ch', h')"
    using thm1 by (auto simp: make_chan_def)
  have "\<exists>e. Inl e \<in> set ?rs" by auto
  then have "rs' = [] \<and> ch_buf ch' = [] \<and> ch_closed ch'
     \<and> forward_run 7 ((make_chan 1)\<lparr>ch_buf := [NotJson, json_Marshal demo_message], ch_closed := True\<rparr>) demo_hub = Some (LoopEnds, h')"
    using thm1 run by (auto simp: make_chan_def)
  then show ?thesis using run(1) by blast
qed

text \<open>C19. Across pods over Redis: a message broadcast on one pod is published once, and every pod with a
  running subscription for the room that receives it puts it into the buffer of each of its clients in
  the room, in every interleaving, provided that the server accepts the publication, the channel of the
  subscription is empty and open, its pump receives nothing else meanwhile, and the client's buffer has room
  (two free slots; a full buffer drops). The integers of the message are in the range of their Go types. The
  clients of the publishing pod get it twice, once directly and once as the echo of the publication.\<close>

theorem redis_cluster_delivery:
  assumes Q: "redis_reachable pub (pods j)" "Broadcast m True (rp_hub (pods j)) = Some h0" "ServerMessage_ok m"
    and sent: "run_calls (redis_do (\<lambda>_ _. Inr ())) (new_calls (rp_hub (pods j)) h0) (rp_broker (pods j)) = Some b"
      "news = drop (length (rb_sent (rp_broker (pods j)))) (rb_sent b)"
    and P: "redis_reachable pub' (pods i)" "in_room (rp_hub (pods i)) (sm_RoomId m) p" "h_heap (rp_hub (pods i)) p = Some c"
    and sub: "redis_subs (rp_broker (pods i)) (sm_RoomId m) = [n]" "rb_subs (rp_broker (pods i)) n = Some s" "rs_pump s"
      "received rs = map snd (filter (\<lambda>x. fst x = channel_name (rs_room s)) news)"
    and buffers: "ch_buf (rs_chan s) = []" "length (ch_buf (c_Send c)) + 2 \<le> ch_cap (c_Send c)"
    and run: "(pipe_step now)\<^sup>*\<^sup>* (rs, rs_chan s, if i = j then h0 else rp_hub (pods i)) (rs', ch', h')"
      "pipe_done now (rs', ch', h')"
  shows "news = [(channel_name (sm_RoomId m), json_Marshal m)]
    \<and> (\<exists>c'. h_heap h' p = Some c'
         \<and> ch_buf (c_Send c') = ch_buf (c_Send c) @ (if i = j then [m] else []) @ [stamp now m])"
proof -
  have hj: "hub_inv (rp_hub (pods j))" using redis_reachable_inv[OF Q(1)] by (simp add: redis_inv_def sys_inv_def)
  have invi: "redis_inv (pods i)" by (rule redis_reachable_inv[OF P(1)])
  then have hi: "hub_inv (rp_hub (pods i))" and ok: "sub_ok s"
    using sub(2) by (auto simp: redis_inv_def sys_inv_def redis_ok_def)
  note fr = Broadcast_frame[OF hj Q(2)] and bi = Broadcast_inv(1)[OF hj Q(2)] and br = Broadcast_in_room[OF hj Q(2)]
  have news: "news = [(channel_name (sm_RoomId m), json_Marshal m)]"
    using sent fr(5) by (auto simp: new_calls_def Redis_Publish_def)
  have "n \<in> set (redis_subs (rp_broker (pods i)) (sm_RoomId m))" using sub(1) by simp
  then have "rs_room s = sm_RoomId m" using sub(2) by (auto simp: redis_subs_iff)
  then have inbox: "received rs = map json_Marshal [m]" using news sub(4) by simp
  let ?h = "if i = j then h0 else rp_hub (pods i)"
  define c0 where "c0 = (if i = j then offer m c else c)"
  have h: "hub_inv ?h" "in_room ?h (sm_RoomId m) p" "h_heap ?h p = Some c0"
    using hi bi P(2,3) fr(4)[of p] by (auto simp: c0_def br)
  have "0 < ch_cap (rs_chan s)" "\<not> ch_closed (rs_chan s)" using ok sub(3) by (simp_all add: sub_ok_def)
  then have "h_heap h' p = Some (offer (stamp now m) c0)"
    using pipe_delivers[OF run h(1) _ buffers(1) _ inbox, of "sm_RoomId m" p] Q(3) h(2,3) by simp
  moreover have "ch_buf (c_Send (offer (stamp now m) c0)) = ch_buf (c_Send c) @ (if i = j then [m] else []) @ [stamp now m]"
    using buffers(2) by (simp add: c0_def offer_def)
  ultimately show ?thesis using news by blast
qed

theorem redis_cluster_delivery_witness:
  "\<exists>h0 rs' ch' h' c'. Broadcast demo_message True demo_hub = Some h0
     \<and> (pipe_step 7)\<^sup>*\<^sup>* ([Inr (Some (json_Marshal demo_message))], make_chan 128, h0) (rs', ch', h')
     \<and> h_heap h' 0 = Some c' \<and> ch_buf (c_Send c') = [demo_message, demo_message]"
proof -
  note reach = demo_redis_reachable[of "\<lambda>_ _. Inr ()"]
  obtain h0 where h0: "Broadcast demo_message True demo_hub = Some h0" using Broadcast_spec[OF demo_hub_facts(1)] by auto
  then have h0': "Broadcast demo_message True (rp_hub demo_redis) = Some h0" by simp
  let ?b = "(rp_broker demo_redis)\<lparr>rb_sent := [(''room:r'', json_Marshal demo_message)]\<rparr>"
  have calls: "run_calls (redis_do (\<lambda>_ _. Inr ())) (new_calls (rp_hub demo_redis) h0) (rp_broker demo_redis) = Some ?b"
    using Broadcast_frame(5)[OF demo_hub_facts(1) h0] demo_message_facts(3)
    by (simp add: new_calls_def Redis_Publish_def channel_name_def demo_redis_def)
  have cl: "in_room (rp_hub demo_redis) (sm_RoomId demo_message) 0" "h_heap (rp_hub demo_redis) 0 = Some (NewClient ''u'' ''r'')"
    using demo_hub_facts demo_message_facts(3) by simp_all
  have sub: "redis_subs (rp_broker demo_redis) (sm_RoomId demo_message) = [0]" "rs_pump demo_sub" "ch_buf (rs_chan demo_sub) = []"
    "length (ch_buf (c_Send (NewClient ''u'' ''r''))) + 2 \<le> ch_cap (c_Send (NewClient ''u'' ''r''))"
    using demo_message_facts(3) by (simp_all add: demo_sub_def NewClient_def)
  let ?rs = "[Inr (Some (json_Marshal demo_message))] :: payload option go_result list"
  have "pipe_ok (?rs, rs_chan demo_sub, h0)"
    using Broadcast_inv(1)[OF demo_hub_facts(1) h0] by (simp add: pipe_ok_def demo_sub_def make_chan_def)
  then obtain rs' ch' h' where run: "(pipe_step 7)\<^sup>*\<^sup>* (?rs, rs_chan demo_sub, h0) (rs', ch', h')" "pipe_done 7 (rs', ch', h')"
    using pipe_ends[of "(?rs, rs_chan demo_sub, h0)" 7] by (metis prod_cases3)
  have inbox: "received ?rs = map snd (filter (\<lambda>x. fst x = channel_name (rs_room demo_sub))
      (drop (length (rb_sent (rp_broker demo_redis))) (rb_sent ?b)))"
    by (simp add: demo_sub_def channel_name_def demo_redis_def)
  have "stamp 7 demo_message = demo_message" using demo_message_facts(2) by (simp add: stamp_def)
  with redis_cluster_delivery[where pods = "\<lambda>_::nat. demo_redis" and i = 0 and j = 0 and now = 7,
      OF reach h0' demo_message_facts(1) calls refl reach cl sub(1) demo_redis_simps(2) sub(2) inbox sub(3,4), of rs' ch' h'] run h0
  show ?thesis by (auto simp: NewClient_def demo_sub_def)
qed

text \<open>A subscription is never renewed: once the pump of a room's subscription has ended, which a
  failed receive or the end of the stream that opened the room brings about, it stays ended for as
  long as the room has clients, whoever joins or leaves; at most what is already in the channel is
  still forwarded.\<close>

lemma redis_subscription_not_renewed:
  assumes "redis_reachable pub P" "redis_subs (rp_broker P) room = [n]" "rb_subs (rp_broker P) n = Some s" "\<not> rs_pump s"
    and run: "(\<lambda>P Q. redis_step pub P Q \<and> (\<exists>p. in_room (rp_hub Q) room p))\<^sup>*\<^sup>* P Q"
  shows "redis_subs (rp_broker Q) room = [n] \<and> (\<exists>s' taken. rb_subs (rp_broker Q) n = Some s' \<and> \<not> rs_pump s'
    \<and> taken @ ch_buf (rs_chan s') = ch_buf (rs_chan s))"
proof -
  have "redis_inv Q \<and> ended_sub room n (ch_buf (rs_chan s)) Q"
    using run
  proof (induction rule: rtranclp_induct)
    case base
    then show ?case using redis_reachable_inv[OF assms(1)] assms(2-4) by (auto simp: ended_sub_def)
  next
    case (step Q R)
    then show ?case using redis_inv_step ended_step by blast
  qed
  then show ?thesis by (auto simp: ended_sub_def)
qed

end
