(* ===== verification/Service_Broker.thy ===== *)
theory Service_Broker
  imports Service Redis_Pod Kafka_Pod
begin

text \<open>
  The whole pod of \<open>Service\<close> wired to its broker, as \<open>cmd/server/main.go\<close> wires it: the calls that the
  handlers make through the hub run on the broker, the broker moves on its own (the pump of
  \<open>app/broker/redis_broker.go\<close>, the consumer of \<open>app/broker/kafka_broker.go\<close>), and the goroutine of a room
  forwards what its channel holds.

  The locale \<open>wired_broker\<close> extends the interface of \<open>Hub_Broker\<close> by the broker's own steps. Its lemma
  holds for both brokers: the subscriptions are those of the rooms that a stream is served in.
\<close>

section \<open>Definitions\<close>

text \<open>\<open>own\<close> is what the broker does by itself, \<open>takes\<close> a payload that leaves a channel of it.\<close>

inductive wired_step ::
  "'e surroundings \<Rightarrow> (broker_call \<Rightarrow> 'b \<Rightarrow> 'b option) \<Rightarrow> ('b \<Rightarrow> 'b \<Rightarrow> bool) \<Rightarrow> ('b \<Rightarrow> payload \<Rightarrow> 'b \<Rightarrow> bool)
   \<Rightarrow> ('r, 'p) service \<times> 'b \<Rightarrow> ('r, 'p) service \<times> 'b \<Rightarrow> bool"
  for E :: "'e surroundings" and call own takes where
  handler: "handler_step E V W \<Longrightarrow> run_calls call (new_calls (sc_hub V) (sc_hub W)) b = Some b' \<Longrightarrow>
    wired_step E call own takes (V, b) (W, b')"
| broker: "own b b' \<Longrightarrow> wired_step E call own takes (V, b) (V, b')"
| forwards: "takes b raw b' \<Longrightarrow> forwardFromBroker now raw (sc_hub V) = Some h \<Longrightarrow>
    wired_step E call own takes (V, b) (V\<lparr>sc_srv := (sc_srv V)\<lparr>sv_hub := h\<rparr>\<rparr>, b')"

inductive wired_reachable ::
  "'e surroundings \<Rightarrow> (broker_call \<Rightarrow> 'b \<Rightarrow> 'b option) \<Rightarrow> ('b \<Rightarrow> 'b \<Rightarrow> bool) \<Rightarrow> ('b \<Rightarrow> payload \<Rightarrow> 'b \<Rightarrow> bool)
   \<Rightarrow> ('b \<Rightarrow> bool) \<Rightarrow> ('r, 'p) service \<times> 'b \<Rightarrow> bool"
  for E :: "'e surroundings" and call own takes fresh where
  start: "sv_hub s = NewHubWithLimit n \<Longrightarrow> fresh b \<Longrightarrow>
    wired_reachable E call own takes fresh (\<lparr>sc_srv = s, sc_streams = Map.empty\<rparr>, b)"
| step: "wired_reachable E call own takes fresh x \<Longrightarrow> wired_step E call own takes x y \<Longrightarrow>
    wired_reachable E call own takes fresh y"

text \<open>The Redis broker: a pump receives or fails. A receive is allowed under a context that has ended too,
  which the pump of \<open>Redis_Pod\<close> refuses; a channel is taken from by the room's goroutine.\<close>

inductive redis_own :: "redis_broker \<Rightarrow> redis_broker \<Rightarrow> bool" where
  receives: "rb_subs b n = Some s \<Longrightarrow> rs_pump s \<Longrightarrow> rs_open s \<Longrightarrow> Redis_pump (Inr msg) (rs_chan s) = PumpNext ch \<Longrightarrow>
    redis_own b (b\<lparr>rb_subs := (rb_subs b)(n \<mapsto> s\<lparr>rs_chan := ch\<rparr>)\<rparr>)"
| fails: "rb_subs b n = Some s \<Longrightarrow> rs_pump s \<Longrightarrow> Redis_pump (Inl e) (rs_chan s) = PumpExit (Some ch) \<Longrightarrow>
    redis_own b (b\<lparr>rb_subs := (rb_subs b)(n \<mapsto> s\<lparr>rs_chan := ch, rs_pump := False\<rparr>)\<rparr>)"

inductive redis_take :: "redis_broker \<Rightarrow> payload \<Rightarrow> redis_broker \<Rightarrow> bool" where
  "rb_subs b n = Some s \<Longrightarrow> range_next (rs_chan s) = (Received raw, ch) \<Longrightarrow>
    redis_take b raw (b\<lparr>rb_subs := (rb_subs b)(n \<mapsto> s\<lparr>rs_chan := ch\<rparr>)\<rparr>)"

definition redis_fresh :: "redis_broker \<Rightarrow> bool" where
  "redis_fresh b \<longleftrightarrow> rb_subs b = Map.empty \<and> rb_next b = 0"

text \<open>The Kafka broker: the consumer dispatches a message.\<close>

type_synonym kafka_side = "(nat \<rightharpoonup> string) \<times> KafkaBroker"

inductive kafka_own :: "kafka_side \<Rightarrow> kafka_side \<Rightarrow> bool" where
  "consume_one msg b = Some b' \<Longrightarrow> kafka_own (cl, b) (cl, b')"

inductive kafka_take :: "kafka_side \<Rightarrow> payload \<Rightarrow> kafka_side \<Rightarrow> bool" where
  "kb_chans b ch = Some c \<Longrightarrow> range_next c = (Received raw, c') \<Longrightarrow>
    kafka_take (cl, b) raw (cl, b\<lparr>kb_chans := (kb_chans b)(ch \<mapsto> c')\<rparr>)"

definition kafka_fresh :: "kafka_side \<Rightarrow> bool" where
  "kafka_fresh x \<longleftrightarrow> fst x = Map.empty \<and> (\<exists>cfg. NewKafkaBroker cfg = Inr (snd x))"

section \<open>Runs of the hub on a broker\<close>

lemma run_calls_append:
  "run_calls call (xs @ ys) b = (case run_calls call xs b of None \<Rightarrow> None | Some b' \<Rightarrow> run_calls call ys b')"
  by (induction xs arbitrary: b) (simp_all split: option.split)

lemma hub_step_log:
  assumes "hub_inv (hs_hub s)" "hub_step s t"
  shows "\<exists>cs. h_calls (hs_hub t) = h_calls (hs_hub s) @ cs"
  using assms by (cases rule: hub_step_calls) auto

lemma new_calls_log: "h_calls h' = h_calls h @ cs \<Longrightarrow> new_calls h h' = cs"
  by (simp add: new_calls_def)

context hub_broker
begin

text \<open>The broker follows any number of steps.\<close>

lemma in_step_run:
  assumes run: "hub_step\<^sup>*\<^sup>* s t" and inv: "sys_inv s" and b: "in_step (hs_hub s) b"
  shows "sys_inv t \<and> (\<exists>cs b'. h_calls (hs_hub t) = h_calls (hs_hub s) @ cs \<and> run_calls call cs b = Some b'
    \<and> in_step (hs_hub t) b')"
  using run
proof (induction rule: rtranclp_induct)
  case base
  then show ?case using inv b by simp
next
  case (step t u)
  then obtain cs b' where t: "sys_inv t" "h_calls (hs_hub t) = h_calls (hs_hub s) @ cs" "run_calls call cs b = Some b'"
    "in_step (hs_hub t) b'" by blast
  have hub: "hub_inv (hs_hub t)" using t(1) by (simp add: sys_inv_def)
  obtain ds where ds: "h_calls (hs_hub u) = h_calls (hs_hub t) @ ds" using hub_step_log[OF hub step(2)] by blast
  obtain b'' where "run_calls call ds b' = Some b''" "in_step (hs_hub u) b''"
    using in_step_follows[OF hub t(4) step(2)] new_calls_log[OF ds] by auto
  then show ?case using t sys_inv_step[OF step(2) t(1)] ds by (auto simp: run_calls_append)
qed

lemma in_step_moves:
  assumes "hub_reachable (settled h)" "moves h h'" "in_step h b"
  shows "\<exists>b'. run_calls call (new_calls h h') b = Some b' \<and> in_step h' b'"
  using in_step_run[of "settled h" "settled h'" b] reachable_sys_inv[OF assms(1)] assms(2,3) new_calls_log[of h' h]
  by (fastforce simp: moves_def)

end

section \<open>The interface\<close>

locale wired_broker = hub_broker call subs nxt invar
  for call :: "broker_call \<Rightarrow> 'b \<Rightarrow> 'b option" and subs nxt invar +
  fixes own :: "'b \<Rightarrow> 'b \<Rightarrow> bool" and takes :: "'b \<Rightarrow> payload \<Rightarrow> 'b \<Rightarrow> bool" and fresh :: "'b \<Rightarrow> bool"
  assumes own_keeps: "invar b \<Longrightarrow> own b b' \<Longrightarrow> invar b' \<and> nxt b' = nxt b \<and> subs b' = subs b"
    and take_keeps: "invar b \<Longrightarrow> takes b raw b' \<Longrightarrow> invar b' \<and> nxt b' = nxt b \<and> subs b' = subs b"
    and fresh_ok: "fresh b \<Longrightarrow> invar b \<and> nxt b = 0 \<and> subs b = (\<lambda>_. [])"
begin

lemma in_step_keeps: "in_step h b \<Longrightarrow> invar b' \<and> nxt b' = nxt b \<and> subs b' = subs b \<Longrightarrow> in_step h b'"
  by (simp add: in_step_def)

lemma forward_in_step:
  assumes "hub_inv h" "forwardFromBroker now raw h = Some h'" "in_step h b"
  shows "in_step h' b"
  using assms(2,3) by (auto simp: forwardFromBroker_def Broadcast_spec[OF assms(1)] in_step_def split: option.splits)

lemma wired_in_step:
  "wired_reachable E call own takes fresh x \<Longrightarrow> service_reachable E (fst x) \<and> in_step (sc_hub (fst x)) (snd x)"
proof (induction rule: wired_reachable.induct)
  case (start s n b)
  then show ?case using service_reachable.start[of s n E] fresh_ok[of b]
    by (simp add: in_step_def subs_match_def NewHubWithLimit_def shard_table.lookup_empty)
next
  case (step x y)
  then have r: "service_reachable E (fst x)" and b: "in_step (sc_hub (fst x)) (snd x)" by simp_all
  note inv = service_reachable_inv[OF r]
  from step(2) show ?case
  proof (cases rule: wired_step.cases)
    case (handler V W b b')
    have "moves (sc_hub V) (sc_hub W)" using service_inv_handler[of E V W] inv handler by simp
    from in_step_moves[OF _ this, of b] show ?thesis
      using handler b service_invD(1)[OF inv] service_reachable.step[OF _ service_step.handler[of E V W]] r by simp
  next
    case (broker b b' V)
    then show ?thesis using r b own_keeps[of b b'] in_step_keeps[of "sc_hub V" b b'] by (simp add: in_step_def)
  next
    case (forwards b raw b' now V h)
    then show ?thesis using b r service_reachable.step[OF _ service_step.forward[of now raw V h E]] take_keeps[of b raw b']
        forward_in_step[of "sc_hub V" now raw h b] service_invD(2)[OF inv] in_step_keeps[of h b b'] by (simp add: in_step_def)
  qed
qed

lemma served_subscriptions:
  assumes "wired_reachable E call own takes fresh (V, b)"
  shows "service_reachable E V \<and> (\<forall>room. length (subs b room) = (if \<exists>st\<in>served V. st_room st = room then 1 else 0))
    \<and> (\<forall>W. handler_step E V W \<longrightarrow> run_calls call (new_calls (sc_hub V) (sc_hub W)) b \<noteq> None)"
proof -
  have r: "service_reachable E V" and b: "in_step (sc_hub V) b" using wired_in_step[OF assms] by simp_all
  note inv = service_reachable_inv[OF r]
  note hub = service_invD(2)[OF inv]
  have "(\<exists>st\<in>served V. st_room st = room) \<longleftrightarrow> shard_lookup (h_shards (sc_hub V)) room \<noteq> None" for room
  proof -
    have "r_clients r \<noteq> []" if "shard_lookup (h_shards (sc_hub V)) room = Some r" for r
      using hub that unfolding hub_inv_def by blast
    then have "(\<exists>p. in_room (sc_hub V) room p) \<longleftrightarrow> shard_lookup (h_shards (sc_hub V)) room \<noteq> None"
      by (auto simp: in_room_def neq_Nil_conv) (metis list.set_intros(1))
    then show ?thesis using served_rooms[OF inv, of room] by blast
  qed
  then have "length (subs b room) = (if \<exists>st\<in>served V. st_room st = room then 1 else 0)" for room
    using b by (auto simp: in_step_def subs_match_def split: option.split)
  moreover have "run_calls call (new_calls (sc_hub V) (sc_hub W)) b \<noteq> None" if "handler_step E V W" for W
    using in_step_moves[OF service_invD(1)[OF inv] _ b, of "sc_hub W"] service_inv_handler[OF inv that] by auto
  ultimately show ?thesis using r by blast
qed

text \<open>Every run of the handlers is a run on the broker.\<close>

lemma wired_run:
  assumes "(handler_step E)\<^sup>*\<^sup>* V W" "wired_reachable E call own takes fresh (V, b)"
  shows "\<exists>b'. wired_reachable E call own takes fresh (W, b')"
  using assms
proof (induction rule: rtranclp_induct)
  case (step W X)
  then obtain b' where "wired_reachable E call own takes fresh (W, b')" by blast
  moreover obtain b'' where "run_calls call (new_calls (sc_hub W) (sc_hub X)) b' = Some b''"
    using served_subscriptions[OF calculation] step(2) by blast
  ultimately show ?case using wired_reachable.step wired_step.handler[OF step(2)] by metis
qed blast

lemma demo_wired:
  assumes "fresh b"
  shows "\<exists>V b'. wired_reachable E call own takes fresh (V :: (room_json keyspace, string keyspace) service, b')
    \<and> demo_serving \<in> served V"
proof -
  have "wired_reachable E call own takes fresh (demo_start, b)"
    unfolding demo_start_def
    by (rule wired_reachable.start[where n = 0 and fresh = fresh and b = b]) (simp_all add: Chat_Stream.demo_pod_def assms)
  then show ?thesis using demo_run[of E] wired_run[of E demo_start] by metis
qed

end

section \<open>The brokers\<close>

lemma redis_chan_keeps:
  assumes "redis_ok b" "rb_subs b n = Some s" "rs_open s' = rs_open s" "rs_room s' = rs_room s" "sub_ok s'"
  shows "redis_ok (b\<lparr>rb_subs := (rb_subs b)(n \<mapsto> s')\<rparr>)"
    "redis_subs (b\<lparr>rb_subs := (rb_subs b)(n \<mapsto> s')\<rparr>) = redis_subs b"
  using assms by (auto simp: redis_ok_def intro!: redis_subs_cong)

lemma redis_own_keeps:
  assumes "redis_ok b" "redis_own b b'"
  shows "redis_ok b' \<and> rb_next b' = rb_next b \<and> redis_subs b' = redis_subs b"
  using assms(2)
proof (cases rule: redis_own.cases)
  case (receives n s msg ch)
  have "sub_ok (s\<lparr>rs_chan := ch\<rparr>)"
    using assms(1) receives(2) pump_results(1)[OF receives(5)] by (auto simp: redis_ok_def sub_ok_def)
  then show ?thesis using redis_chan_keeps[OF assms(1) receives(2), of "s\<lparr>rs_chan := ch\<rparr>"] receives(1) by simp
next
  case (fails n s e ch)
  let ?s = "s\<lparr>rs_chan := ch, rs_pump := False\<rparr>"
  have "sub_ok s" using assms(1) fails(2) by (auto simp: redis_ok_def)
  then have "sub_ok ?s" using pump_results(2)[OF fails(4)] by (auto simp: sub_ok_def chan_ok_def)
  then show ?thesis using redis_chan_keeps[OF assms(1) fails(2), of ?s] fails(1) by simp
qed

lemma redis_take_keeps:
  assumes "redis_ok b" "redis_take b raw b'"
  shows "redis_ok b' \<and> rb_next b' = rb_next b \<and> redis_subs b' = redis_subs b"
  using assms(2)
proof (cases rule: redis_take.cases)
  case (1 n s ch)
  have ok: "sub_ok s" using assms(1) 1(2) by (auto simp: redis_ok_def)
  have "chan_ok ch" "ch_cap ch = ch_cap (rs_chan s)" "ch_closed ch = ch_closed (rs_chan s)"
    using 1(3) ok by (cases "ch_buf (rs_chan s)"; auto simp: range_next_def sub_ok_def chan_ok_def split: if_splits)+
  then have "sub_ok (s\<lparr>rs_chan := ch\<rparr>)" using ok by (simp add: sub_ok_def)
  then show ?thesis using redis_chan_keeps[OF assms(1) 1(2), of "s\<lparr>rs_chan := ch\<rparr>"] 1(1) by simp
qed

interpretation redis_wired: wired_broker "redis_do pub" redis_subs rb_next redis_ok redis_own redis_take redis_fresh
proof
  fix b b' raw
  show "redis_ok b \<Longrightarrow> redis_own b b' \<Longrightarrow> redis_ok b' \<and> rb_next b' = rb_next b \<and> redis_subs b' = redis_subs b"
    by (rule redis_own_keeps)
  show "redis_ok b \<Longrightarrow> redis_take b raw b' \<Longrightarrow> redis_ok b' \<and> rb_next b' = rb_next b \<and> redis_subs b' = redis_subs b"
    by (rule redis_take_keeps)
  show "redis_fresh b \<Longrightarrow> redis_ok b \<and> rb_next b = 0 \<and> redis_subs b = (\<lambda>_. [])"
    by (simp add: redis_fresh_def redis_ok_def redis_subs_def fun_eq_iff)
qed

lemma kafka_own_keeps:
  assumes "kafka_ok x" "kafka_own x x'"
  shows "kafka_ok x' \<and> kb_next (snd x') = kb_next (snd x) \<and> kafka_list (snd x') = kafka_list (snd x)"
  using assms(2)
proof (cases rule: kafka_own.cases)
  case (1 msg b b' cl)
  have "kafka_inv b'" using consume_one_delivers[of b msg] assms(1) 1 by (auto simp: kafka_ok_def)
  then show ?thesis using consume_one_frame[OF 1(3)] assms(1) 1(1,2) by (simp add: kafka_ok_def)
qed

lemma kafka_take_keeps:
  assumes "kafka_ok x" "kafka_take x raw x'"
  shows "kafka_ok x' \<and> kb_next (snd x') = kb_next (snd x) \<and> kafka_list (snd x') = kafka_list (snd x)"
  using assms(2)
proof (cases rule: kafka_take.cases)
  case (1 b ch c c' cl)
  have closed: "ch_closed c' = ch_closed c" using 1(4) by (auto simp: range_next_def split: list.splits if_splits)
  have "kafka_inv (b\<lparr>kb_chans := (kb_chans b)(ch \<mapsto> c')\<rparr>)" using kafka_inv_chan[OF _ 1(3) closed] assms(1) 1(1) by (simp add: kafka_ok_def)
  then show ?thesis using assms(1) 1(1,2) by (simp add: kafka_ok_def kafka_list_def fun_eq_iff)
qed

interpretation kafka_wired: wired_broker "broker_do wr" "\<lambda>x. kafka_list (snd x)" "\<lambda>x. kb_next (snd x)" kafka_ok
  kafka_own kafka_take kafka_fresh
proof
  fix x x' :: kafka_side and raw
  show "kafka_ok x \<Longrightarrow> kafka_own x x' \<Longrightarrow> kafka_ok x' \<and> kb_next (snd x') = kb_next (snd x) \<and> kafka_list (snd x') = kafka_list (snd x)"
    by (rule kafka_own_keeps)
  show "kafka_ok x \<Longrightarrow> kafka_take x raw x' \<Longrightarrow> kafka_ok x' \<and> kb_next (snd x') = kb_next (snd x) \<and> kafka_list (snd x') = kafka_list (snd x)"
    by (rule kafka_take_keeps)
  assume "kafka_fresh x"
  have b: "kb_subs (snd x) = Map.empty" "kb_next (snd x) = 0"
    using \<open>kafka_fresh x\<close> by (cases x; auto simp: kafka_fresh_def NewKafkaBroker_def Let_def split: if_splits)+
  then show "kafka_ok x \<and> kb_next (snd x) = 0 \<and> kafka_list (snd x) = (\<lambda>_. [])"
    by (simp add: kafka_ok_def kafka_inv_def kafka_list_def fun_eq_iff)
qed

section \<open>Properties\<close>

text \<open>C17. A pod with a Redis broker, whole: however the streams, the RPCs, the pumps and the goroutines of the
  rooms interleave, there is one open subscription for every room that a stream is served in and none
  for any other room, and whatever a handler does next, the broker carries out its calls.\<close>

theorem service_redis_subscriptions:
  assumes "wired_reachable E (redis_do pub) redis_own redis_take redis_fresh (V, b)"
  shows "service_reachable E V
    \<and> (\<forall>room. length (redis_subs b room) = (if \<exists>st\<in>served V. st_room st = room then 1 else 0))
    \<and> (\<forall>W. handler_step E V W \<longrightarrow> run_calls (redis_do pub) (new_calls (sc_hub V) (sc_hub W)) b \<noteq> None)"
  by (rule redis_wired.served_subscriptions[OF assms])

theorem service_redis_subscriptions_witness:
  "\<exists>(V :: (room_json keyspace, string keyspace) service) b.
     wired_reachable demo_env (redis_do (\<lambda>_ _. Inr ())) redis_own redis_take redis_fresh (V, b)
     \<and> demo_serving \<in> served V \<and> length (redis_subs b (st_room demo_serving)) = 1"
proof -
  have "redis_fresh \<lparr>rb_client = demo_client, rb_subs = Map.empty, rb_next = 0, rb_sent = []\<rparr>" by (simp add: redis_fresh_def)
  from redis_wired.demo_wired[OF this, of demo_env "\<lambda>_ _. Inr ()"]
  obtain b and V :: "(room_json keyspace, string keyspace) service"
    where V: "wired_reachable demo_env (redis_do (\<lambda>_ _. Inr ())) redis_own redis_take redis_fresh (V, b)" "demo_serving \<in> served V"
    by blast
  from V service_redis_subscriptions[OF V(1)] show ?thesis by (metis (no_types, lifting))
qed

text \<open>C18. The same with a Kafka broker, whatever the consumer dispatches in between: one registered channel for
  every room that a stream is served in, none for any other room, and no call of a handler on the
  broker panics, in particular no channel is closed twice.\<close>

theorem service_kafka_subscriptions:
  assumes "wired_reachable E (broker_do wr) kafka_own kafka_take kafka_fresh (V, cl, b)"
  shows "service_reachable E V
    \<and> (\<forall>room. length (kafka_list b room) = (if \<exists>st\<in>served V. st_room st = room then 1 else 0))
    \<and> (\<forall>W. handler_step E V W \<longrightarrow> run_calls (broker_do wr) (new_calls (sc_hub V) (sc_hub W)) (cl, b) \<noteq> None)"
  using kafka_wired.served_subscriptions[OF assms] by simp

theorem service_kafka_subscriptions_witness:
  "\<exists>(V :: (room_json keyspace, string keyspace) service) cl b.
     wired_reachable demo_env (broker_do (\<lambda>_. Inr ())) kafka_own kafka_take kafka_fresh (V, cl, b)
     \<and> demo_serving \<in> served V \<and> length (kafka_list b (st_room demo_serving)) = 1"
proof -
  have "NewKafkaBroker demo_cfg = Inr demo_kafka" by (simp add: NewKafkaBroker_def demo_cfg_def demo_kafka_def Let_def)
  then have "kafka_fresh (Map.empty, demo_kafka)" by (auto simp: kafka_fresh_def)
  from kafka_wired.demo_wired[OF this, of demo_env "\<lambda>_. Inr ()"]
  obtain cl b and V :: "(room_json keyspace, string keyspace) service"
    where V: "wired_reachable demo_env (broker_do (\<lambda>_. Inr ())) kafka_own kafka_take kafka_fresh (V, cl, b)" "demo_serving \<in> served V"
    by auto
  from V service_kafka_subscriptions[OF V(1)] show ?thesis by (metis (no_types, lifting))
qed

end
