(* ===== verification/Spec2Isabelle.thy ===== *)
theory Spec2Isabelle
  imports Main_Wiring Wire Group_Map User_Rooms Shared_Msgs Persist Service_Broker
begin

text \<open>
  A verification of the chat service: a Go gRPC server that keeps bidirectional chat streams,
  fans messages out to the clients of a room, stores history in MongoDB and rooms in
  PostgreSQL, tracks presence in Redis, and hands out upload URLs.

  \<^bold>\<open>How the program is put together.\<close> \<open>cmd/server/main.go\<close> reads the configuration and builds
  a broker, a storage backend, the two repositories, the presence and room stores, the
  interceptors and the hub. A \<open>Chat\<close> stream registers its client in the hub under the canonical
  id of its room; every frame goes through \<open>processIncoming\<close>, which broadcasts through the hub,
  writes to the stores and starts a goroutine to persist. The hub delivers to the buffered
  channels of the local clients and publishes to the broker, whose deliveries on other pods come
  back through \<open>forwardFromBroker\<close>. The unary RPCs work on the same hub and stores.

  \<^bold>\<open>Theories and the code they model.\<close>
  \<^item> \<open>Prelude\<close>: Go strings as byte lists with the functions of \<open>strings\<close>, \<open>strconv\<close> and \<open>sort\<close>
    that are called, Go times in nanoseconds, results with errors as values, and the operations that can
    panic (following a pointer, an index, a slice).
  \<^item> \<open>Pb\<close>: the enums and messages of \<open>app/pb/chat.pb.go\<close> and their JSON form on the broker.
  \<^item> \<open>Room_Id\<close>: \<open>normalizeRoomID\<close> of \<open>app/server/grpc_server.go\<close>; \<open>splitRoomID\<close> and
    \<open>roomIDAliases\<close> of \<open>app/repository/mongodb.go\<close>.
  \<^item> \<open>Broker\<close>: Go channels, and \<open>app/broker\<close>: the no-op, Redis and Kafka brokers.
  \<^item> \<open>Hub\<close>: \<open>app/chat/hub.go\<close>, with a step relation for the interleavings inside one pod.
  \<^item> \<open>Hub_Broker\<close>: the calls each step of the hub makes on its broker, what the hub needs of a broker for the
    two to stay in step, and the goroutine \<open>forwardFromBroker\<close> over a channel.
  \<^item> \<open>Kafka_Pod\<close>: hub and Kafka broker of one pod as one system, in which every broker call of the hub
    runs on the broker, its consumer dispatches and the goroutine \<open>forwardFromBroker\<close> of a room
    forwards; and several pods that share a topic in one consumer group.
  \<^item> \<open>Redis_Pod\<close>: the same with the Redis broker: subscriptions with their contexts and pumps, and several
    pods behind one server, each of which receives every publication.
  \<^item> \<open>Shared_Msgs\<close>: the message objects that \<open>Broadcast\<close> puts into several channels and the sender
    goroutines of \<open>Chat\<close> write to, as pointers into a store.
  \<^item> \<open>Wire\<close>: frames and requests in range, and a message from a stream of one pod to the clients of
    another.
  \<^item> \<open>Redis_Kv\<close>, \<open>Presence\<close>, \<open>Room_Store\<close>: the Redis commands as an interface, and
    \<open>app/chat/presence.go\<close> and \<open>app/chat/room_store.go\<close> over it.
  \<^item> \<open>Mongo\<close>, \<open>Message_Repo\<close>: the collection operations as an interface, and
    \<open>app/repository/mongodb.go\<close> over it, opening, indexes and closing included.
  \<^item> \<open>Group_Map\<close>: what the group operations of the message repository promise, as operations on one
    map per conversation from a user to role and status, and the refinement.
  \<^item> \<open>User_Rooms\<close>: the room list that the message repository makes by aggregation.
  \<^item> \<open>Room_Repo\<close>: the tables, statements and operations of \<open>app/repository/postgres.go\<close>.
  \<^item> \<open>Storage\<close>: \<open>app/storage\<close>, the four backends behind one interface.
  \<^item> \<open>Config\<close>: \<open>app/config/config.go\<close>.
  \<^item> \<open>Auth\<close>: \<open>app/interceptors/auth.go\<close> and the unary handlers of \<open>app/pb/chat_grpc.pb.go\<close>.
  \<^item> \<open>Server\<close>, \<open>Server_Rpc\<close>, \<open>Server_Facts\<close>: every handler of \<open>app/server/grpc_server.go\<close>
    except the stream, and the lemmas about them.
  \<^item> \<open>History\<close>: from a frame to the history of its room, and the use of the cursor page by page.
  \<^item> \<open>Persist\<close>: the goroutines of \<open>persistMessage\<close> call by call, and any number of them interleaved.
  \<^item> \<open>Chat_Stream\<close>: the handler \<open>Chat\<close> with its sender goroutine as a step relation.
  \<^item> \<open>Service\<close>: a whole pod as one step relation: streams that open, are served and end, calls of every RPC
    (the methods of \<open>ChatServiceServer\<close>), the goroutines, heartbeats, broker deliveries and the stores.
  \<^item> \<open>Service_Broker\<close>: that pod wired to a Redis or a Kafka broker that moves on its own.
  \<^item> \<open>Main_Wiring\<close>: \<open>cmd/server/main.go\<close> and \<open>app/logger\<close>, from the configuration to the end of the
    shutdown.

  A struct is a record whose fields carry a short prefix, a method is a definition of the same
  name (with a suffix \<open>_repo\<close>, \<open>_pg\<close> or \<open>_rpc\<close> where several types have a method of that name),
  a nil repository is \<^term>\<open>None\<close>, a Go panic is \<^term>\<open>None\<close> of an operation that can panic, as every handler
  is, and an error is the left value of a sum. Pointers that are shared (clients, Kafka channels) are
  addresses into an explicit heap. Clock readings, generated ids and the iteration order of Go
  maps are arguments.

  \<^bold>\<open>Interfaces.\<close> Code outside the repository is a parameter: a record of operations whose
  documented behaviour is a locale (\<open>redis_kv\<close> and \<open>redis_up\<close>, \<open>mongo_coll\<close>, \<open>mongo_up\<close> and
  \<open>mongo_aggregate\<close>,
  \<open>jwt_library\<close>), each with an in-memory implementation that satisfies it. Contracts between
  components of the program are locales interpreted on the program's own definitions:
  \<open>room_map\<close> on the sharded tables, \<open>presence_store\<close> on both presence stores, \<open>room_backend\<close> on
  both forms of the room store, \<open>mongo_repo\<close> and \<open>mongo_repo_up\<close> (a server that answers) on the message
  repository, \<open>storage_backend\<close> on the storage backends, \<open>hub_broker\<close> and \<open>wired_broker\<close>, which extends it by
  the broker's own steps, on the Kafka and on the Redis broker.

  \<^bold>\<open>What is shown.\<close>
  \<^item> Identity of rooms: the spellings of a direct-message room that are understood are mapped to one
    id, different pairs to different ids, and the aliases of a history query are exactly the spellings of
    the room. User ids have no colon and no white space at their ends; the form with hyphens needs a first
    id without hyphens, which a UUID is not (shown too), and the \<open>CONV_\<close> form ids of a UUID's length.
  \<^item> Fan-out: the shards refine one map; in every interleaving the tables, channels and the
    connection counter are consistent and nothing panics; a broadcast reaches exactly the room;
    sharing message objects between goroutines is, up to media URLs, sending messages, and a stream is
    sent messages of its own room only.
  \<^item> Pods: the broker of a reachable pod has exactly one open subscription per room of its hub; what
    the handlers publish is well typed; a frame reaches the clients of whichever pod is assigned its
    record, and only that pod, so that the others miss it; over Kafka the goroutine of a room ends when its
    last client leaves. Over Redis every subscribed pod delivers a publication, the publishing pod its
    own echo too, as long as buffers have room; between the receives and the hub nothing is lost or stuck up
    to the first failed receive, which ends the pump and the goroutine; and a subscription whose pump
    has ended is not renewed while its room lives.
  \<^item> The whole pod: in every interleaving of its parts the registered clients are exactly those of the streams in
    service, the admission counter is their number, no handler can panic (nil stores, indexes, slices and
    channels; what the repositories do inside is total), a chat message reaches
    exactly the streams of its room, and the broker holds one subscription for every room with a
    stream in service and none else. What \<open>Chat_Stream\<close> assumes of the rest of the pod is proved here.
  \<^item> Groups: every sequence of group operations gives the results and the maps of the specification;
    who owns a group after a transfer; which added members are listed.
  \<^item> Frames and streams: no frame panics the handler; a chat message is delivered, published
    once and handed to persistence; deletes and edits are the author's alone; a served stream is
    registered, and it is cleaned up only after a failed send. Goroutines that persist, interleaved
    call by call, finish and store every message once; the last activity of a room with a row
    in Postgres is that of the message noted last, newest or not.
  \<^item> Stores: a room, its last activity and its receipts are read back from Postgres as they were written,
    with the unread marks that follow; a delete or an edit changes one message of its author, in place, and
    nothing else; get-or-create of a
    direct message is idempotent and symmetric in all three stores; history pages are the
    newest messages, ordered and bounded; a sent message is in the history, up to its type and
    status; paging
    with the cursor is complete when times differ, and not otherwise; unread marks in Postgres are
    right and the unread count in MongoDB always is zero; the merged room list is duplicate-free, and
    so is the one made from messages, which is ordered, bounded and complete below the bound.
  \<^item> Edges: the interceptors let only authentic tokens through, and are absent when the key
    cannot be loaded, while the service comes up; an upload URL is signed for the key of the request and
    fifteen minutes; where the value of every configuration field comes from, and the comma splitter; the
    wiring and the calls of an orderly shutdown; the Kafka registry and its race.

  \<^bold>\<open>Bounds and termination.\<close> Only \<open>read_pages\<close> uses fuel, and any number above the
  number of the room's messages is enough. The loops are recursions over their data, with measures for the comma splitter, \<open>TrimSpace\<close> and the forwarding goroutine (the length of its
  channel's buffer); the pump and the goroutine of a Redis subscription run together for at most
  two steps per receive and one per payload already in the channel (\<open>pipe_size\<close>). The consumer of Kafka is a recursion over the outcomes of its fetches. The heartbeat and the stream run as long
  as the stream is open; they are a fixed number of ticks, for every number, and a step relation. A
  goroutine that persists makes at most six calls (\<open>rank\<close>).
  The hash is on 32-bit words. Go's 64-bit counters and times are integers; the ranges that matter
  (JSON integers, \<open>ParseInt\<close>, \<open>int32\<close> conversions) are written out.

  \<^bold>\<open>What is not modelled.\<close> The gRPC transport, the wire format and the client stubs of the
  generated code; the drivers, of which only the documented behaviour is assumed; log output; the
  matching of regular expressions, which is the server's and a parameter; the rounding of times to milliseconds in BSON documents, which is not visible in what
  the service returns, since every time it returns is in milliseconds; offset commits of Kafka, whose
  result the code discards; tuning of pools, readers and writers; the health service and
  reflection. In \<open>Kafka_Pod\<close> and \<open>Service_Broker\<close> the dispatch of one record is one step; the race between a
  dispatch and a cancel is stated in \<open>Broker\<close>. The loop of a broadcast over the clients of its room is one step
  (in \<open>Hub\<close>, and over pointers in \<open>Shared_Msgs\<close>), where two broadcasts of a room, under its read lock, may take
  turns client by client. JSON names are compared exactly and null is left out, where Go's decoder is more
  lenient; texts that Postgres would refuse as not UTF-8 are failures of the statement. In \<open>Shared_Msgs\<close> a single read or write of an object is
  atomic, which Go does not promise of a data race. In \<open>Service\<close> what a handler does between two points
  where it waits for its client is one step, and a goroutine runs as a whole: the locked regions
  inside \<open>Register\<close> and \<open>Unregister\<close> interleave in \<open>Hub\<close>, the calls of goroutines that persist in \<open>Persist\<close>.
  Calls on a store from different handlers interleave there at whole handlers only.
\<close>

end
